(* ===== verification/Prelude.thy ===== *)
theory Prelude
  imports Complex_Main "HOL-Library.Code_Target_Nat" "HOL-Library.Char_ord" "HOL-Library.List_Lexorder"
begin

text \<open>
  Shared vocabulary of the development: results that may fail, the Python string operations
  the sources call, ordered queries, and the generic lemmas the component theories rest on.

  Python text is a \<^typ>\<open>string\<close>, a list of code points below 256. No component model depends on
  code points beyond that range. \<^verbatim>\<open>HOL-Library.List_Lexorder\<close> orders strings by code point, which is
  both Python's \<^verbatim>\<open><\<close> on \<^verbatim>\<open>str\<close> and SQLite's BINARY collation on UTF-8 text.
\<close>

named_theorems py_simps \<open>equations for the Python string operations\<close>

section \<open>Results that may fail\<close>

text \<open>A call either raises (\<^term>\<open>Inl e\<close>) or returns (\<^term>\<open>Inr x\<close>).\<close>

type_synonym ('e, 'a) result = "'e + 'a"

fun rbind :: "('e, 'a) result \<Rightarrow> ('a \<Rightarrow> ('e, 'b) result) \<Rightarrow> ('e, 'b) result" where
  "rbind (Inl e) f = Inl e"
| "rbind (Inr x) f = f x"

definition ensure :: "bool \<Rightarrow> 'e \<Rightarrow> ('e, unit) result" where
  "ensure b e = (if b then Inr () else Inl e)"

lemma rbind_Inr_iff [simp]: "rbind r f = Inr y \<longleftrightarrow> (\<exists>x. r = Inr x \<and> f x = Inr y)"
  by (cases r) auto

lemma rbind_Inl_iff [simp]:
  "rbind r f = Inl e \<longleftrightarrow> (r = Inl e \<or> (\<exists>x. r = Inr x \<and> f x = Inl e))"
  by (cases r) auto

fun decode_each :: "('r \<Rightarrow> ('e, 'a) result) \<Rightarrow> 'r list \<Rightarrow> ('e, 'a list) result" where
  "decode_each f [] = Inr []"
| "decode_each f (r # rs) = rbind (f r) (\<lambda>x. rbind (decode_each f rs) (\<lambda>xs. Inr (x # xs)))"

lemma rbind_assoc: "rbind (rbind r f) g = rbind r (\<lambda>x. rbind (f x) g)"
  by (cases r) auto

lemma ensure_Inr_iff [simp]: "ensure b e = Inr u \<longleftrightarrow> b"
  by (auto simp: ensure_def)

lemma ensure_Inl_iff [simp]: "ensure b e = Inl e' \<longleftrightarrow> \<not> b \<and> e' = e"
  by (auto simp: ensure_def)

lemma ensure_if: "ensure True e = Inr ()" "ensure False e = Inl e"
  by (simp_all add: ensure_def)

section \<open>Stateful calls that may fail\<close>

text \<open>
  A call on a mutable object is a function from its state to the outcome and the state afterwards.
  The state at the point of a raise is kept: Python does not undo anything.
\<close>

type_synonym ('s, 'e, 'a) act = "'s \<Rightarrow> ('e, 'a) result \<times> 's"

definition ret :: "'a \<Rightarrow> ('s, 'e, 'a) act" where
  "ret x s = (Inr x, s)"

definition throw :: "'e \<Rightarrow> ('s, 'e, 'a) act" where
  "throw e s = (Inl e, s)"

definition abind :: "('s, 'e, 'a) act \<Rightarrow> ('a \<Rightarrow> ('s, 'e, 'b) act) \<Rightarrow> ('s, 'e, 'b) act" where
  "abind m f s = (case m s of (Inl e, s') \<Rightarrow> (Inl e, s') | (Inr x, s') \<Rightarrow> f x s')"

definition aseq :: "('s, 'e, 'a) act \<Rightarrow> ('s, 'e, 'b) act \<Rightarrow> ('s, 'e, 'b) act" where
  "aseq m n = abind m (\<lambda>_. n)"

definition reads :: "('s \<Rightarrow> 'a) \<Rightarrow> ('s, 'e, 'a) act" where
  "reads f s = (Inr (f s), s)"

definition modifies :: "('s \<Rightarrow> 's) \<Rightarrow> ('s, 'e, unit) act" where
  "modifies f s = (Inr (), f s)"

definition guard :: "bool \<Rightarrow> 'e \<Rightarrow> ('s, 'e, unit) act" where
  "guard b e = (if b then ret () else throw e)"

definition lift_result :: "('e, 'a) result \<Rightarrow> ('s, 'e, 'a) act" where
  "lift_result r s = (r, s)"

primrec for_each :: "('x \<Rightarrow> ('s, 'e, unit) act) \<Rightarrow> 'x list \<Rightarrow> ('s, 'e, unit) act" where
  "for_each f [] = ret ()"
| "for_each f (x # xs) = aseq (f x) (for_each f xs)"

named_theorems act_simps \<open>unfolding of stateful calls\<close>

lemmas [act_simps] = ret_def throw_def aseq_def reads_def modifies_def guard_def lift_result_def

lemma abind_simps [act_simps]:
  "m s = (Inl e, s') \<Longrightarrow> abind m f s = (Inl e, s')"
  "m s = (Inr x, s') \<Longrightarrow> abind m f s = f x s'"
  by (simp_all add: abind_def)

lemma abind_Inr_iff:
  "abind m f s = (Inr y, t) \<longleftrightarrow> (\<exists>x s'. m s = (Inr x, s') \<and> f x s' = (Inr y, t))"
  by (auto simp: abind_def split: prod.splits sum.splits)

lemma abind_Inl_iff:
  "abind m f s = (Inl e, t) \<longleftrightarrow>
     m s = (Inl e, t) \<or> (\<exists>x s'. m s = (Inr x, s') \<and> f x s' = (Inl e, t))"
  by (auto simp: abind_def split: prod.splits sum.splits)

text \<open>
  A relation between the states before and after that every call respects. With a preorder it is
  closed under sequencing, whatever the outcome.
\<close>

definition obeys :: "('s \<Rightarrow> 's \<Rightarrow> bool) \<Rightarrow> ('s, 'e, 'a) act \<Rightarrow> bool" where
  "obeys R m \<longleftrightarrow> (\<forall>s. R s (snd (m s)))"

locale state_preorder =
  fixes R :: "'s \<Rightarrow> 's \<Rightarrow> bool"
  assumes refl: "R s s"
    and trans: "R s t \<Longrightarrow> R t u \<Longrightarrow> R s u"
begin

lemma obeys_ret: "obeys R (ret x)"
  by (simp add: obeys_def ret_def refl)

lemma obeys_throw: "obeys R (throw e)"
  by (simp add: obeys_def throw_def refl)

lemma obeys_reads: "obeys R (reads f)"
  by (simp add: obeys_def reads_def refl)

lemma obeys_guard: "obeys R (guard b e)"
  by (simp add: guard_def obeys_ret obeys_throw)

lemma obeys_lift: "obeys R (lift_result r)"
  by (simp add: obeys_def lift_result_def refl)

lemma obeys_bind:
  assumes "obeys R m" "\<And>x. obeys R (f x)"
  shows "obeys R (abind m f)"
  unfolding obeys_def
proof
  fix s
  obtain r s' where m: "m s = (r, s')" by force
  with assms(1) have "R s s'" unfolding obeys_def by (metis snd_conv)
  moreover have "R s' (snd (f x s'))" for x using assms(2) by (simp add: obeys_def)
  ultimately show "R s (snd (abind m f s))"
    using m trans by (cases r) (auto simp: abind_def)
qed

lemma obeys_seq: "obeys R m \<Longrightarrow> obeys R n \<Longrightarrow> obeys R (aseq m n)"
  by (simp add: aseq_def obeys_bind)

lemma obeys_for_each: "(\<And>x. x \<in> set xs \<Longrightarrow> obeys R (f x)) \<Longrightarrow> obeys R (for_each f xs)"
  by (induction xs) (auto simp: obeys_ret obeys_seq)

lemmas obeys_rules = obeys_ret obeys_throw obeys_reads obeys_guard obeys_lift
  obeys_bind obeys_seq obeys_for_each

end

section \<open>JSON values\<close>

text \<open>Floats are rationals; \<open>JSpecial\<close> holds the text of a float that is not a number or not finite.\<close>

datatype json = JNull | JBool bool | JInt int | JFloat rat | JSpecial string | JStr string
  | JList "json list" | JObj "(string \<times> json) list"

section \<open>Python strings\<close>

abbreviation (input) NUL :: char where "NUL \<equiv> CHR 0x00"
abbreviation (input) LF :: char where "LF \<equiv> CHR 0x0A"
abbreviation (input) CR :: char where "CR \<equiv> CHR 0x0D"
abbreviation (input) TAB :: char where "TAB \<equiv> CHR 0x09"
abbreviation (input) DQ :: char where "DQ \<equiv> CHR 0x22"
abbreviation (input) SQ :: char where "SQ \<equiv> CHR 0x27"
abbreviation (input) BS :: char where "BS \<equiv> CHR 0x5C"

definition code :: "char \<Rightarrow> nat" where
  "code c = (of_char c :: nat)"

definition in_range :: "nat \<Rightarrow> nat \<Rightarrow> char \<Rightarrow> bool" where
  "in_range lo hi c \<longleftrightarrow> lo \<le> code c \<and> code c \<le> hi"

definition is_digit :: "char \<Rightarrow> bool" where
  "is_digit c \<longleftrightarrow> in_range 48 57 c"

definition is_upper :: "char \<Rightarrow> bool" where
  "is_upper c \<longleftrightarrow> in_range 65 90 c"

definition is_lower :: "char \<Rightarrow> bool" where
  "is_lower c \<longleftrightarrow> in_range 97 122 c"

definition is_alpha :: "char \<Rightarrow> bool" where
  "is_alpha c \<longleftrightarrow> is_upper c \<or> is_lower c"

definition is_alnum :: "char \<Rightarrow> bool" where
  "is_alnum c \<longleftrightarrow> is_alpha c \<or> is_digit c"

text \<open>\<^verbatim>\<open>str.isspace\<close> of one code point below 256, also \<^verbatim>\<open>\s\<close> of \<^verbatim>\<open>re\<close>.\<close>

definition is_space :: "char \<Rightarrow> bool" where
  "is_space c \<longleftrightarrow> in_range 9 13 c \<or> in_range 28 32 c \<or> code c = 133 \<or> code c = 160"

text \<open>\<^verbatim>\<open>str.lower\<close> of one code point below 256.\<close>

definition lower_char :: "char \<Rightarrow> char" where
  "lower_char c =
     (if is_upper c \<or> (in_range 192 222 c \<and> code c \<noteq> 215) then char_of (code c + 32) else c)"

definition lower :: "string \<Rightarrow> string" where
  "lower s = map lower_char s"

definition startswith :: "string \<Rightarrow> string \<Rightarrow> bool" where
  "startswith s p \<longleftrightarrow> take (length p) s = p"

definition endswith :: "string \<Rightarrow> string \<Rightarrow> bool" where
  "endswith s p \<longleftrightarrow> length p \<le> length s \<and> drop (length s - length p) s = p"

definition lstrip :: "(char \<Rightarrow> bool) \<Rightarrow> string \<Rightarrow> string" where
  "lstrip P s = dropWhile P s"

definition rstrip :: "(char \<Rightarrow> bool) \<Rightarrow> string \<Rightarrow> string" where
  "rstrip P s = rev (dropWhile P (rev s))"

definition strip :: "(char \<Rightarrow> bool) \<Rightarrow> string \<Rightarrow> string" where
  "strip P s = rstrip P (lstrip P s)"

text \<open>\<^verbatim>\<open>s.strip()\<close>, and the truth value of \<^verbatim>\<open>s.strip()\<close>.\<close>

definition strip_ws :: "string \<Rightarrow> string" where
  "strip_ws s = strip is_space s"

definition blank :: "string \<Rightarrow> bool" where
  "blank s \<longleftrightarrow> strip_ws s = []"

definition removesuffix :: "string \<Rightarrow> string \<Rightarrow> string" where
  "removesuffix s p = (if p \<noteq> [] \<and> endswith s p then take (length s - length p) s else s)"

text \<open>\<^verbatim>\<open>s.partition(c)\<close> for a one-character separator: head, whether it occurs, tail.\<close>

definition partition_at :: "char \<Rightarrow> string \<Rightarrow> string \<times> bool \<times> string" where
  "partition_at c s = (takeWhile (\<lambda>x. x \<noteq> c) s, c \<in> set s, tl (dropWhile (\<lambda>x. x \<noteq> c) s))"

text \<open>\<^verbatim>\<open>s.split(c)\<close> for a one-character separator: never the empty list.\<close>

fun split_on :: "char \<Rightarrow> string \<Rightarrow> string list" where
  "split_on c [] = [[]]"
| "split_on c (x # xs) =
     (if x = c then [] # split_on c xs
      else (case split_on c xs of [] \<Rightarrow> [[x]] | l # ls \<Rightarrow> (x # l) # ls))"

fun join_with :: "string \<Rightarrow> string list \<Rightarrow> string" where
  "join_with sep [] = []"
| "join_with sep [l] = l"
| "join_with sep (l # ls) = l @ sep @ join_with sep ls"

lemma split_on_not_Nil [simp]: "split_on c s \<noteq> []"
  by (induction s) (auto split: list.splits)

lemma split_on_no_sep: "l \<in> set (split_on c s) \<Longrightarrow> c \<notin> set l"
  by (induction s arbitrary: l) (auto split: if_splits list.splits)

lemma split_on_set: "l \<in> set (split_on c s) \<Longrightarrow> set l \<subseteq> set s"
  by (induction s arbitrary: l) (fastforce split: if_splits list.splits)+

lemma split_on_clean: "c \<notin> set l \<Longrightarrow> split_on c l = [l]"
  by (induction l) auto

lemma split_on_append: "c \<notin> set l \<Longrightarrow> split_on c (l @ c # s) = l # split_on c s"
  by (induction l) auto

lemma join_split [simp]: "join_with [c] (split_on c s) = s"
proof (induction s)
  case (Cons x xs)
  obtain l ls where ls: "split_on c xs = l # ls"
    by (meson neq_Nil_conv split_on_not_Nil)
  with Cons show ?case by (cases ls) auto
qed simp

lemma split_join:
  "ls \<noteq> [] \<Longrightarrow> (\<And>l. l \<in> set ls \<Longrightarrow> c \<notin> set l) \<Longrightarrow> split_on c (join_with [c] ls) = ls"
proof (induction ls)
  case (Cons l ls)
  then show ?case by (cases ls) (auto simp: split_on_clean split_on_append)
qed simp

lemma set_lstrip: "set (lstrip P s) \<subseteq> set s"
  unfolding lstrip_def by (auto dest: set_dropWhileD)

lemma set_rstrip: "set (rstrip P s) \<subseteq> set s"
  unfolding rstrip_def by (auto dest: set_dropWhileD)

lemma set_strip: "set (strip P s) \<subseteq> set s"
  unfolding strip_def using set_rstrip set_lstrip by blast

lemma rstrip_eq: "s = [] \<or> \<not> P (last s) \<Longrightarrow> rstrip P s = s"
  by (cases s rule: rev_cases) (auto simp: rstrip_def)

lemma lstrip_eq: "s = [] \<or> \<not> P (hd s) \<Longrightarrow> lstrip P s = s"
  by (cases s) (auto simp: lstrip_def)

lemma strip_eq: "s = [] \<or> (\<not> P (hd s) \<and> \<not> P (last s)) \<Longrightarrow> strip P s = s"
  by (auto simp: strip_def lstrip_eq rstrip_eq)

lemma hd_lstrip: "lstrip P s \<noteq> [] \<Longrightarrow> \<not> P (hd (lstrip P s))"
  unfolding lstrip_def by (metis hd_dropWhile)

lemma last_rstrip: "rstrip P s \<noteq> [] \<Longrightarrow> \<not> P (last (rstrip P s))"
  unfolding rstrip_def by (metis hd_dropWhile last_rev rev_is_Nil_conv)

lemma rstrip_prefix: "\<exists>t. s = rstrip P s @ t \<and> (\<forall>c\<in>set t. P c)"
proof -
  have "rev s = takeWhile P (rev s) @ dropWhile P (rev s)" by simp
  then have "s = rev (dropWhile P (rev s)) @ rev (takeWhile P (rev s))"
    by (metis rev_append rev_rev_ident)
  then show ?thesis unfolding rstrip_def by (metis set_rev set_takeWhileD)
qed

lemma strip_Nil_iff: "strip P s = [] \<longleftrightarrow> (\<forall>c\<in>set s. P c)"
proof -
  have "strip P s = [] \<longleftrightarrow> dropWhile P (rev (dropWhile P s)) = []"
    by (simp add: strip_def rstrip_def lstrip_def)
  also have "\<dots> \<longleftrightarrow> (\<forall>c\<in>set (dropWhile P s). P c)"
    by (simp add: dropWhile_eq_Nil_conv)
  also have "\<dots> \<longleftrightarrow> (\<forall>c\<in>set s. P c)"
    by (metis dropWhile_eq_Nil_conv hd_dropWhile list.set_sel(1) set_dropWhileD)
  finally show ?thesis .
qed

lemma partition_at_join:
  "partition_at c s = (h, True, t) \<Longrightarrow> s = h @ c # t \<and> c \<notin> set h"
  unfolding partition_at_def
  by (auto dest: set_takeWhileD)
     (metis (mono_tags, lifting) dropWhile_eq_Nil_conv hd_dropWhile list.collapse
        takeWhile_dropWhile_id)

lemma partition_at_append: "c \<notin> set h \<Longrightarrow> partition_at c (h @ c # t) = (h, True, t)"
  unfolding partition_at_def by (simp add: dropWhile_append takeWhile_append)

section \<open>Dictionaries in insertion order\<close>

text \<open>
  A Python \<^verbatim>\<open>dict\<close> is an association list in insertion order; \<^const>\<open>map_of\<close> is the lookup.
\<close>

type_synonym ('k, 'v) dict = "('k \<times> 'v) list"

definition dkeys :: "('k, 'v) dict \<Rightarrow> 'k list" where
  "dkeys d = map fst d"

fun dset :: "('k, 'v) dict \<Rightarrow> 'k \<Rightarrow> 'v \<Rightarrow> ('k, 'v) dict" where
  "dset [] k v = [(k, v)]"
| "dset ((k', v') # d) k v = (if k' = k then (k, v) # d else (k', v') # dset d k v)"

definition dsetdefault :: "('k, 'v) dict \<Rightarrow> 'k \<Rightarrow> 'v \<Rightarrow> ('k, 'v) dict" where
  "dsetdefault d k v = (if k \<in> set (dkeys d) then d else d @ [(k, v)])"

definition dpop :: "('k, 'v) dict \<Rightarrow> 'k \<Rightarrow> ('k, 'v) dict" where
  "dpop d k = filter (\<lambda>p. fst p \<noteq> k) d"

lemma set_dset: "set (dset d k v) \<subseteq> insert (k, v) (set d)"
  by (induction d) (auto split: if_splits)

lemma map_of_dset [simp]: "map_of (dset d k v) = (map_of d)(k \<mapsto> v)"
  by (induction d k v rule: dset.induct) (auto simp: fun_eq_iff)

lemma dkeys_dset: "dkeys (dset d k v) = (if k \<in> set (dkeys d) then dkeys d else dkeys d @ [k])"
  by (induction d k v rule: dset.induct) (auto simp: dkeys_def)

lemma distinct_dset: "distinct (dkeys d) \<Longrightarrow> distinct (dkeys (dset d k v))"
  by (simp add: dkeys_dset)

lemma map_of_None_dkeys: "map_of d k = None \<longleftrightarrow> k \<notin> set (dkeys d)"
  by (simp add: map_of_eq_None_iff dkeys_def)

lemma map_of_dsetdefault:
  "map_of (dsetdefault d k v) =
     (\<lambda>x. if x = k \<and> map_of d k = None then Some v else map_of d x)"
  using map_of_None_dkeys[of d k]
  by (auto simp: dsetdefault_def fun_eq_iff map_add_def split: option.splits)

lemma map_of_dpop: "map_of (dpop d k) = (map_of d)(k := None)"
  by (induction d) (auto simp: dpop_def fun_eq_iff)

lemmas [py_simps] = startswith_def endswith_def lstrip_def rstrip_def strip_def strip_ws_def
  blank_def removesuffix_def partition_at_def lower_def

end
