(* ===== verification/Py_Regex.thy ===== *)
theory Py_Regex
  imports Prelude
begin

text \<open>
  The part of Python's \<^verbatim>\<open>re\<close> module that the sources use: a backtracking matcher that returns
  the successes in the engine's priority order, so that the first one is the match \<^verbatim>\<open>re\<close> reports,
  with \<^verbatim>\<open>search\<close>, \<^verbatim>\<open>match\<close>, \<^verbatim>\<open>fullmatch\<close> and \<^verbatim>\<open>sub\<close> (a replacement computed from the matched text,
  patterns that do not match the empty string). A state is the previous code point, if any, and the
  text that remains. \<^verbatim>\<open>^\<close> and \<^verbatim>\<open>$\<close> under \<^verbatim>\<open>re.MULTILINE\<close> are \<open>LineStart\<close> and \<open>LineEnd\<close>.
\<close>

section \<open>Patterns and the matcher\<close>

datatype re =
    Eps
  | Cls "char \<Rightarrow> bool"
  | Seq re re
  | Alt re re
  | Star re
  | NotBehind "char \<Rightarrow> bool"
  | NotAhead "char \<Rightarrow> bool"
  | WordB
  | AtStart
  | AtEnd
  | LineStart
  | LineEnd

type_synonym re_state = "char option \<times> string"

text \<open>\<^verbatim>\<open>\w\<close> on code points below 256.\<close>

definition is_word :: "char \<Rightarrow> bool" where
  "is_word c \<longleftrightarrow> is_alnum c \<or> c = CHR ''_'' \<or>
     code c \<in> {170, 178, 179, 181, 185, 186, 188, 189, 190} \<or>
     (in_range 192 255 c \<and> code c \<noteq> 215 \<and> code c \<noteq> 247)"

definition word_at :: "char option \<Rightarrow> bool" where
  "word_at p = (case p of None \<Rightarrow> False | Some c \<Rightarrow> is_word c)"

definition head_opt :: "'a list \<Rightarrow> 'a option" where
  "head_opt xs = (case xs of [] \<Rightarrow> None | x # _ \<Rightarrow> Some x)"

text \<open>
  A greedy loop: longer runs come first. An iteration that consumes nothing ends the loop, so the
  length of the remaining text bounds the number of iterations.
\<close>

fun star_iter :: "nat \<Rightarrow> (re_state \<Rightarrow> re_state list) \<Rightarrow> re_state \<Rightarrow> re_state list" where
  "star_iter 0 f s = [s]"
| "star_iter (Suc n) f s =
     concat (map (\<lambda>t. if length (snd t) < length (snd s) then star_iter n f t else []) (f s)) @ [s]"

primrec successes :: "re \<Rightarrow> re_state \<Rightarrow> re_state list" where
  "successes Eps s = [s]"
| "successes (Cls P) s =
     (case snd s of [] \<Rightarrow> [] | c # cs \<Rightarrow> if P c then [(Some c, cs)] else [])"
| "successes (Seq a b) s = concat (map (successes b) (successes a s))"
| "successes (Alt a b) s = successes a s @ successes b s"
| "successes (Star a) s = star_iter (length (snd s)) (successes a) s"
| "successes (NotBehind P) s =
     (case fst s of None \<Rightarrow> [s] | Some c \<Rightarrow> if P c then [] else [s])"
| "successes (NotAhead P) s =
     (case snd s of [] \<Rightarrow> [s] | c # cs \<Rightarrow> if P c then [] else [s])"
| "successes WordB s =
     (if word_at (fst s) \<noteq> word_at (head_opt (snd s)) then [s] else [])"
| "successes AtStart s = (if fst s = None then [s] else [])"
| "successes AtEnd s = (if snd s = [] \<or> snd s = [LF] then [s] else [])"
| "successes LineStart s = (if fst s = None \<or> fst s = Some LF then [s] else [])"
| "successes LineEnd s = (if snd s = [] \<or> hd (snd s) = LF then [s] else [])"

fun re_search_from :: "re \<Rightarrow> char option \<Rightarrow> string \<Rightarrow> bool" where
  "re_search_from r p [] = (successes r (p, []) \<noteq> [])"
| "re_search_from r p (c # cs) =
     (successes r (p, c # cs) \<noteq> [] \<or> re_search_from r (Some c) cs)"

definition re_search :: "re \<Rightarrow> string \<Rightarrow> bool" where
  "re_search r s = re_search_from r None s"

text \<open>\<^verbatim>\<open>search\<close> with the text before the leftmost match, the match, and the text after it.\<close>

fun re_find_from :: "re \<Rightarrow> char option \<Rightarrow> string \<Rightarrow> (string \<times> string \<times> string) option" where
  "re_find_from r p [] = (case successes r (p, []) of [] \<Rightarrow> None | _ \<Rightarrow> Some ([], [], []))"
| "re_find_from r p (c # cs) = (case successes r (p, c # cs) of
     (q, t) # _ \<Rightarrow> Some ([], take (length (c # cs) - length t) (c # cs), t)
   | [] \<Rightarrow> map_option (\<lambda>(b, m, a). (c # b, m, a)) (re_find_from r (Some c) cs))"

definition re_find :: "re \<Rightarrow> string \<Rightarrow> (string \<times> string \<times> string) option" where
  "re_find r s = re_find_from r None s"

definition re_fullmatch :: "re \<Rightarrow> string \<Rightarrow> bool" where
  "re_fullmatch r s = list_ex (\<lambda>t. snd t = []) (successes r (None, s))"

fun re_sub_from :: "re \<Rightarrow> string \<Rightarrow> char option \<Rightarrow> string \<Rightarrow> string" where
  "re_sub_from r rep p [] = []"
| "re_sub_from r rep p (c # cs) =
     (case successes r (p, c # cs) of
        [] \<Rightarrow> c # re_sub_from r rep (Some c) cs
      | (q, t) # _ \<Rightarrow>
          if length t < length (c # cs) then rep @ re_sub_from r rep q t
          else c # re_sub_from r rep (Some c) cs)"

definition re_sub :: "re \<Rightarrow> string \<Rightarrow> string \<Rightarrow> string" where
  "re_sub r rep s = re_sub_from r rep None s"

fun re_subf_from :: "re \<Rightarrow> (string \<Rightarrow> string) \<Rightarrow> char option \<Rightarrow> string \<Rightarrow> string" where
  "re_subf_from r rep p [] = []"
| "re_subf_from r rep p (c # cs) =
     (case successes r (p, c # cs) of
        [] \<Rightarrow> c # re_subf_from r rep (Some c) cs
      | (q, t) # _ \<Rightarrow>
          if length t < length (c # cs)
          then rep (take (length (c # cs) - length t) (c # cs)) @ re_subf_from r rep q t
          else c # re_subf_from r rep (Some c) cs)"

definition re_subf :: "re \<Rightarrow> (string \<Rightarrow> string) \<Rightarrow> string \<Rightarrow> string" where
  "re_subf r rep s = re_subf_from r rep None s"

subsection \<open>Derived pattern forms\<close>

definition opt :: "re \<Rightarrow> re" where "opt r = Alt r Eps"
definition plus :: "re \<Rightarrow> re" where "plus r = Seq r (Star r)"
definition one_of :: "string \<Rightarrow> re" where "one_of cs = Cls (\<lambda>c. c \<in> set cs)"
definition none_of :: "string \<Rightarrow> re" where "none_of cs = Cls (\<lambda>c. c \<notin> set cs)"

fun seqs :: "re list \<Rightarrow> re" where
  "seqs [] = Eps"
| "seqs [r] = r"
| "seqs (r # rs) = Seq r (seqs rs)"

fun alts :: "re list \<Rightarrow> re" where
  "alts [] = Cls (\<lambda>_. False)"
| "alts [r] = r"
| "alts (r # rs) = Alt r (alts rs)"

text \<open>A literal, and a literal under \<^verbatim>\<open>re.IGNORECASE\<close> (the pattern is written in lower case).\<close>

definition lit :: "string \<Rightarrow> re" where
  "lit s = seqs (map (\<lambda>x. Cls (\<lambda>c. c = x)) s)"

definition ci :: "string \<Rightarrow> re" where
  "ci s = seqs (map (\<lambda>x. Cls (\<lambda>c. lower_char c = x)) s)"

lemmas re_forms = opt_def plus_def one_of_def none_of_def lit_def ci_def

section \<open>Declarative semantics\<close>

inductive matches :: "re \<Rightarrow> re_state \<Rightarrow> re_state \<Rightarrow> bool" where
  eps: "matches Eps s s"
| cls: "P c \<Longrightarrow> matches (Cls P) (p, c # cs) (Some c, cs)"
| seq: "matches a s t \<Longrightarrow> matches b t u \<Longrightarrow> matches (Seq a b) s u"
| alt1: "matches a s t \<Longrightarrow> matches (Alt a b) s t"
| alt2: "matches b s t \<Longrightarrow> matches (Alt a b) s t"
| star0: "matches (Star a) s s"
| star1: "matches a s t \<Longrightarrow> length (snd t) < length (snd s) \<Longrightarrow> matches (Star a) t u \<Longrightarrow>
    matches (Star a) s u"
| behind: "(\<And>c. p = Some c \<Longrightarrow> \<not> P c) \<Longrightarrow> matches (NotBehind P) (p, cs) (p, cs)"
| ahead: "cs = [] \<or> \<not> P (hd cs) \<Longrightarrow> matches (NotAhead P) (p, cs) (p, cs)"
| wordb: "word_at p \<noteq> word_at (head_opt cs) \<Longrightarrow> matches WordB (p, cs) (p, cs)"
| at_start: "matches AtStart (None, cs) (None, cs)"
| at_end: "cs = [] \<or> cs = [LF] \<Longrightarrow> matches AtEnd (p, cs) (p, cs)"
| line_start: "p = None \<or> p = Some LF \<Longrightarrow> matches LineStart (p, cs) (p, cs)"
| line_end: "cs = [] \<or> hd cs = LF \<Longrightarrow> matches LineEnd (p, cs) (p, cs)"

lemma star_iter_sound:
  assumes "\<And>s t. t \<in> set (successes a s) \<Longrightarrow> matches a s t"
  shows "t \<in> set (star_iter n (successes a) s) \<Longrightarrow> matches (Star a) s t"
  by (induction n arbitrary: s) (auto split: if_splits intro: matches.intros assms)

lemma successes_sound: "t \<in> set (successes r s) \<Longrightarrow> matches r s t"
proof (induction r arbitrary: s t)
  case (Seq a b)
  then show ?case by (simp del: split_paired_All split_paired_Ex) (meson matches.seq)
next
  case (Star a)
  then show ?case using star_iter_sound by simp
next
  case (NotBehind P)
  then show ?case by (cases s) (auto intro: matches.intros split: option.splits if_splits)
next
  case (NotAhead P)
  then show ?case by (cases s) (auto intro: matches.intros split: list.splits if_splits)
next
  case (Cls P)
  then show ?case by (cases s) (auto intro: matches.intros split: list.splits if_splits)
next
  case WordB
  then show ?case by (cases s) (auto intro: matches.intros split: if_splits)
next
  case AtStart
  then show ?case by (cases s) (auto intro: matches.intros split: if_splits)
next
  case AtEnd
  then show ?case by (cases s) (auto intro: matches.intros split: if_splits)
next
  case LineStart
  then show ?case by (cases s) (auto intro: matches.intros split: if_splits)
next
  case LineEnd
  then show ?case by (cases s) (auto intro: matches.intros split: if_splits)
qed (auto intro: matches.intros)

lemma star_iter_self [simp]: "s \<in> set (star_iter n f s)"
  by (cases n) auto

lemma star_iter_mono: "t \<in> set (star_iter n f s) \<Longrightarrow> n \<le> k \<Longrightarrow> t \<in> set (star_iter k f s)"
proof (induction n arbitrary: s k)
  case (Suc n)
  then obtain k' where k: "k = Suc k'" and "n \<le> k'" by (cases k) auto
  with Suc show ?case by (fastforce split: if_splits)
qed auto

lemma successes_complete: "matches r s t \<Longrightarrow> t \<in> set (successes r s)"
proof (induction rule: matches.induct)
  case (star1 a s t u)
  then obtain n where n: "length (snd s) = Suc n" by (cases "length (snd s)") auto
  with star1 have "u \<in> set (star_iter n (successes a) t)"
    by (auto intro: star_iter_mono)
  with star1 n show ?case by fastforce
next
  case (behind p P cs)
  then show ?case by (cases p) auto
next
  case (ahead cs P p)
  then show ?case by (cases cs) auto
qed auto

text \<open>The executable matcher returns exactly the successes of the declarative semantics.\<close>

lemma successes_iff_matches: "t \<in> set (successes r s) \<longleftrightarrow> matches r s t"
  using successes_sound successes_complete by blast

lemma matches_suffix: "matches r s t \<Longrightarrow> \<exists>u. snd s = u @ snd t"
  by (induction rule: matches.induct) auto

lemma successes_suffix: "(q, t) \<in> set (successes r (p, s)) \<Longrightarrow> \<exists>u. s = u @ t"
  using successes_sound matches_suffix by fastforce

section \<open>Substitution\<close>

lemma set_re_sub_from: "set (re_sub_from r rep p s) \<subseteq> set rep \<union> set s"
proof (induction r rep p s rule: re_sub_from.induct)
  case (2 r rep p c cs)
  show ?case
  proof (cases "successes r (p, c # cs)")
    case Nil
    with 2 show ?thesis by auto
  next
    case (Cons a list)
    obtain q t where a: "a = (q, t)" by (cases a)
    from Cons a obtain u where u: "c # cs = u @ t"
      using successes_suffix[of q t r p "c # cs"] by auto
    then have t: "set t \<subseteq> set (c # cs)" by (metis set_append sup_ge2)
    show ?thesis
    proof (cases "length t < length (c # cs)")
      case True
      have "set (re_sub_from r rep q t) \<subseteq> set rep \<union> set t"
        using 2(2)[OF Cons a[symmetric]] True by simp
      with True Cons a t show ?thesis by auto
    next
      case False
      have "set (re_sub_from r rep (Some c) cs) \<subseteq> set rep \<union> set cs"
        using 2(3)[OF Cons a[symmetric]] False by simp
      with False Cons a show ?thesis by auto
    qed
  qed
qed simp

lemma set_re_sub: "set (re_sub r rep s) \<subseteq> set rep \<union> set s"
  unfolding re_sub_def by (rule set_re_sub_from)

text \<open>A greedy class loop takes the whole run first.\<close>

lemma star_iter_Cls_hd:
  "\<forall>c\<in>set w. P c \<Longrightarrow> length w \<le> n \<Longrightarrow> \<exists>ss.
     star_iter n (successes (Cls P)) (p, w) = (if w = [] then p else Some (last w), []) # ss"
proof (induction n arbitrary: p w)
  case (Suc n)
  show ?case
  proof (cases w)
    case (Cons c cs)
    with Suc.prems Suc.IH[of cs "Some c"] show ?thesis by auto
  qed simp
qed simp

lemma successes_Star_Cls_hd:
  "\<forall>c\<in>set w. P c \<Longrightarrow> \<exists>ss.
     successes (Star (Cls P)) (p, w) = (if w = [] then p else Some (last w), []) # ss"
  using star_iter_Cls_hd[of w P "length w" p] by simp

end
