(* ===== verification/Sanitize.thy ===== *)
theory Sanitize
  imports Py_Regex
begin

text \<open>
  Diagnostics made safe to store and show: \<^verbatim>\<open>internal/sanitize.py\<close>, and the canonical
  secret-key policy of \<^verbatim>\<open>internal/proc/redaction.py\<close> and \<^verbatim>\<open>internal/process_env.py\<close>.
\<close>

section \<open>Secret key names\<close>

definition key_sep :: re where
  "key_sep = one_of ''-_ .''"

definition sep_opt :: re where
  "sep_opt = opt (one_of ''-_ '')"

definition SECRET_KEY :: re where
  "SECRET_KEY = seqs [Alt AtStart key_sep,
     alts [ci ''password'', ci ''passwd'', ci ''pwd'', ci ''secret'', ci ''token'', ci ''cookie'',
       ci ''jwt'', ci ''oauth'', seqs [ci ''api'', sep_opt, ci ''key''],
       seqs [ci ''master'', sep_opt, ci ''pwd''], seqs [ci ''admin'', sep_opt, ci ''passwd''],
       seqs [ci ''db'', sep_opt, ci ''password''], seqs [ci ''database'', sep_opt, ci ''url''],
       seqs [ci ''sentry'', sep_opt, ci ''dsn''],
       seqs [ci ''docker'', sep_opt, ci ''auth'', sep_opt, ci ''config''],
       ci ''authorization'', ci ''bearer'', ci ''credential'',
       seqs [ci ''private'', sep_opt, ci ''key''], seqs [ci ''access'', sep_opt, ci ''key''],
       ci ''auth'', ci ''refresh'', seqs [ci ''client'', sep_opt, ci ''secret'']],
     Alt AtEnd key_sep]"

definition is_secret_key_name :: "string \<Rightarrow> bool" where
  "is_secret_key_name name = re_search SECRET_KEY name"

definition REMOTE_MASTER_PASSWORD :: string where
  "REMOTE_MASTER_PASSWORD = ''ODCLI_TEST_MASTER_PASSWORD''"

definition ADMIN_PASSWORD :: string where
  "ADMIN_PASSWORD = ''ODCLI_ADMIN_PASSWORD''"

definition NAMED_REMOTE_PASSWORD :: re where
  "NAMED_REMOTE_PASSWORD = seqs [lit ''ODCLI_REMOTE_'', Cls is_upper,
     Star (Cls (\<lambda>c. is_upper c \<or> is_digit c \<or> c = CHR ''_'')), lit ''_MASTER_PASSWORD'']"

definition is_secret_environment_key :: "string \<Rightarrow> bool" where
  "is_secret_environment_key key \<longleftrightarrow>
     key \<in> {REMOTE_MASTER_PASSWORD, ADMIN_PASSWORD} \<or> re_fullmatch NAMED_REMOTE_PASSWORD key"

section \<open>Child environments\<close>

text \<open>
  \<^verbatim>\<open>os.environ\<close> is the argument \<open>ambient\<close>. A child receives the captured dictionary as a tuple sorted
  by key.
\<close>

definition sanitized_child_environment :: "(string, string) dict \<Rightarrow> (string, string) dict" where
  "sanitized_child_environment env = filter (\<lambda>p. \<not> is_secret_environment_key (fst p)) env"

definition dict_update :: "('k, 'v) dict \<Rightarrow> ('k, 'v) dict \<Rightarrow> ('k, 'v) dict" where
  "dict_update d e = fold (\<lambda>(k, v) acc. dset acc k v) e d"

definition captured_child_environment ::
  "(string, string) dict \<Rightarrow> (string, string) dict \<Rightarrow> (string, string) dict
     \<Rightarrow> (string \<times> string) list \<times> (string \<times> string) list" where
  "captured_child_environment ambient overrides project_environment =
     (let explicit = sanitized_child_environment overrides;
          child = sanitized_child_environment ambient;
          child = fold (\<lambda>(k, v) acc. dsetdefault acc k v) project_environment child;
          public_overrides =
            sanitized_child_environment (dict_update project_environment explicit);
          child = sanitized_child_environment (dict_update child explicit)
      in (sort_key fst child, sort_key fst public_overrides))"

lemma map_of_fold_dset:
  "map_of (fold (\<lambda>(k, v) acc. dset acc k v) e d) k =
     (case map_of (rev e) k of None \<Rightarrow> map_of d k | Some v \<Rightarrow> Some v)"
  by (induction e arbitrary: d) (auto simp: map_add_def split: option.splits)

lemma distinct_sanitized:
  "distinct (dkeys d) \<Longrightarrow> distinct (dkeys (sanitized_child_environment d))"
  by (induction d) (auto simp: sanitized_child_environment_def dkeys_def)

lemma distinct_dict_update: "distinct (dkeys d) \<Longrightarrow> distinct (dkeys (dict_update d e))"
  unfolding dict_update_def
  by (induction e arbitrary: d) (auto simp: distinct_dset split: prod.splits)

lemma distinct_fold_setdefault:
  "distinct (dkeys d) \<Longrightarrow> distinct (dkeys (fold (\<lambda>(k, v) acc. dsetdefault acc k v) e d))"
  by (induction e arbitrary: d) (auto simp: dsetdefault_def dkeys_def split: prod.splits)

lemma map_of_sanitized:
  "map_of (sanitized_child_environment d) k =
     (if is_secret_environment_key k then None else map_of d k)"
  by (induction d) (auto simp: sanitized_child_environment_def)

lemma map_of_sort_key_fst:
  "distinct (dkeys d) \<Longrightarrow> map_of (sort_key fst d) = map_of (d :: ('k :: linorder, 'v) dict)"
  by (intro map_of_eqI) (auto simp: dkeys_def inj_on_def dest!: map_of_SomeD
      intro: map_of_is_SomeI simp: distinct_map)

section \<open>Sanitized messages\<close>

definition MAX_LAST_ERROR :: nat where "MAX_LAST_ERROR = 2000"

definition SECRET_ASSIGNMENT :: re where
  "SECRET_ASSIGNMENT = seqs [WordB,
     alts [ci ''password'', ci ''passwd'', ci ''secret'', ci ''token'',
       seqs [ci ''api'', opt (one_of ''_-''), ci ''key''], ci ''admin_passwd'', ci ''db_password'',
       ci ''master_pwd''],
     Star (Cls is_space), one_of '':='', Star (Cls is_space),
     alts [seqs [lit [DQ], Star (none_of [DQ]), lit [DQ]],
       seqs [lit [SQ], Star (none_of [SQ]), lit [SQ]],
       plus (Cls (\<lambda>c. \<not> is_space c))]]"

definition DB_URL :: re where
  "DB_URL = seqs [WordB, alts [seqs [ci ''postgres'', opt (ci ''ql'')], ci ''mysql''],
     ci ''://'', plus (Cls (\<lambda>c. \<not> is_space c))]"

definition URL_USERINFO :: re where
  "URL_USERINFO = seqs [ci ''://'', plus (Cls (\<lambda>c. \<not> is_space c \<and> c \<notin> set ''/:@'')), ci '':'',
     plus (Cls (\<lambda>c. \<not> is_space c \<and> c \<notin> set ''/@'')), ci ''@'']"

definition ENV_VAR :: re where
  "ENV_VAR = seqs [lit ''${'', Star (none_of ''}''), lit ''}'']"

definition path_char :: re where
  "path_char = Cls (\<lambda>c. c \<noteq> CHR '','' \<and> \<not> is_space c)"

definition four_or_more :: "re \<Rightarrow> re" where
  "four_or_more r = seqs [r, r, r, r, Star r]"

definition PATH_LIKE :: re where
  "PATH_LIKE = seqs [NotBehind (\<lambda>c. is_alnum c \<or> c \<in> set ''_-''),
     Alt (Seq (lit ''/'') (four_or_more path_char))
       (seqs [Cls is_alpha, lit '':'', one_of (CHR ''/'' # [BS]), four_or_more path_char])]"

definition is_control :: "char \<Rightarrow> bool" where
  "is_control c \<longleftrightarrow> in_range 0 31 c \<or> in_range 127 159 c"

definition hex_digit :: "nat \<Rightarrow> char" where
  "hex_digit n = (if n < 10 then char_of (48 + n) else char_of (87 + n))"

definition escape_control :: "char \<Rightarrow> string" where
  "escape_control c = [BS, CHR ''x'', hex_digit (code c div 16), hex_digit (code c mod 16)]"

definition sanitize_terminal_text :: "string \<Rightarrow> bool \<Rightarrow> string" where
  "sanitize_terminal_text value preserve_newlines =
     concat (map (\<lambda>c. if \<not> is_control c then [c]
       else if preserve_newlines \<and> c = LF then [LF] else escape_control c) value)"

text \<open>\<^verbatim>\<open>repr(s)\<close>, which the error messages embed.\<close>

definition repr_char :: "char \<Rightarrow> char \<Rightarrow> string" where
  "repr_char q c =
     (if c = q \<or> c = BS then [BS, c] else if c = LF then [BS, CHR ''n'']
      else if c = CR then [BS, CHR ''r''] else if c = TAB then [BS, CHR ''t'']
      else if in_range 0 31 c \<or> in_range 127 160 c \<or> code c = 173 then escape_control c else [c])"

definition py_repr :: "string \<Rightarrow> string" where
  "py_repr s = (let q = (if SQ \<in> set s \<and> DQ \<notin> set s then DQ else SQ)
     in q # concat (map (repr_char q) s) @ [q])"

text \<open>\<^verbatim>\<open>text.split()\<close>: the maximal runs without white space.\<close>

fun split_ws_acc :: "string \<Rightarrow> string \<Rightarrow> string list" where
  "split_ws_acc acc [] = (if acc = [] then [] else [rev acc])"
| "split_ws_acc acc (c # cs) =
     (if is_space c then (if acc = [] then [] else [rev acc]) @ split_ws_acc [] cs
      else split_ws_acc (c # acc) cs)"

definition split_ws :: "string \<Rightarrow> string list" where
  "split_ws s = split_ws_acc [] s"

definition redacted :: string where "redacted = ''<redacted>''"

definition sanitize_text :: "string \<Rightarrow> string" where
  "sanitize_text value =
     (let text = re_sub SECRET_ASSIGNMENT redacted value;
          text = re_sub DB_URL redacted text;
          text = re_sub URL_USERINFO redacted text;
          text = re_sub ENV_VAR ''<env>'' text;
          text = re_sub PATH_LIKE ''<path>'' text;
          text = sanitize_terminal_text text False;
          text = join_with '' '' (split_ws text)
      in if length text > MAX_LAST_ERROR then take MAX_LAST_ERROR text else text)"

definition sanitize_last_error :: "string option \<Rightarrow> string option" where
  "sanitize_last_error value = map_option sanitize_text value"

definition sanitize_event_message :: "string option \<Rightarrow> string option" where
  "sanitize_event_message value =
     (case value of None \<Rightarrow> None | Some v \<Rightarrow> sanitize_last_error (Some v))"

lemma sanitize_event_message_eq [simp]: "sanitize_event_message m = sanitize_last_error m"
  by (cases m) (simp_all add: sanitize_event_message_def sanitize_last_error_def)

section \<open>What the sanitized text can contain\<close>

lemma code_less [simp]: "code c < 256"
  by (simp add: code_def)

lemma hex_digit_plain: "n < 16 \<Longrightarrow> \<not> is_control (hex_digit n) \<and> \<not> is_space (hex_digit n)"
  by (auto simp: hex_digit_def is_control_def is_space_def in_range_def code_def)

lemma escape_prefix_plain:
  "\<not> is_control BS" "\<not> is_space BS" "\<not> is_control (CHR ''x'')" "\<not> is_space (CHR ''x'')"
  by (simp_all add: is_control_def is_space_def in_range_def code_def)

lemma escape_control_plain:
  assumes "x \<in> set (escape_control c)"
  shows "\<not> is_control x \<and> \<not> is_space x"
proof -
  have "code c div 16 < 16" "code c mod 16 < 16" using code_less[of c] by (simp_all add: less_mult_imp_div_less)
  then have "\<not> is_control y \<and> \<not> is_space y"
    if "y \<in> {hex_digit (code c div 16), hex_digit (code c mod 16)}" for y
    using that hex_digit_plain by blast
  with assms show ?thesis unfolding escape_control_def using escape_prefix_plain by auto
qed

lemma terminal_text_no_control:
  "c \<in> set (sanitize_terminal_text s False) \<Longrightarrow> \<not> is_control c"
  by (auto simp: sanitize_terminal_text_def split: if_splits dest: escape_control_plain)

lemma split_ws_acc_words:
  assumes "\<forall>c\<in>set acc. \<not> is_space c" "w \<in> set (split_ws_acc acc s)"
  shows "w \<noteq> [] \<and> (\<forall>c\<in>set w. \<not> is_space c) \<and> set w \<subseteq> set acc \<union> set s"
  using assms
proof (induction s arbitrary: acc)
  case (Cons c cs)
  show ?case
  proof (cases "is_space c")
    case True
    with Cons.prems(2) have "(acc \<noteq> [] \<and> w = rev acc) \<or> w \<in> set (split_ws_acc [] cs)"
      by (cases "acc = []") simp_all
    then show ?thesis using Cons.IH[of "[]"] Cons.prems(1) by auto
  next
    case False
    with Cons.prems have "w \<in> set (split_ws_acc (c # acc) cs)" by simp
    from Cons.IH[OF _ this] False Cons.prems(1) show ?thesis by auto
  qed
qed (auto split: if_splits)

lemma set_join_with: "set (join_with sep ls) \<subseteq> set sep \<union> \<Union> (set ` set ls)"
  by (induction sep ls rule: join_with.induct) auto

lemma sanitize_text_take:
  "\<exists>t. sanitize_text v = take MAX_LAST_ERROR (join_with '' '' (split_ws (sanitize_terminal_text t False)))"
proof -
  let ?t = "re_sub PATH_LIKE ''<path>'' (re_sub ENV_VAR ''<env>'' (re_sub URL_USERINFO redacted
     (re_sub DB_URL redacted (re_sub SECRET_ASSIGNMENT redacted v))))"
  have "sanitize_text v =
      take MAX_LAST_ERROR (join_with '' '' (split_ws (sanitize_terminal_text ?t False)))"
    unfolding sanitize_text_def Let_def by simp
  then show ?thesis by blast
qed

text \<open>Text that is safe on one line of a terminal or a catalogue row.\<close>

definition inert_text :: "string \<Rightarrow> bool" where
  "inert_text s \<longleftrightarrow> length s \<le> 2000 \<and>
     list_all (\<lambda>c. \<not> is_control c \<and> (is_space c = (c = CHR '' ''))) s"

lemma inert_sanitize_text: "inert_text (sanitize_text v)"
proof -
  obtain t where t: "sanitize_text v =
      take MAX_LAST_ERROR (join_with '' '' (split_ws (sanitize_terminal_text t False)))"
    using sanitize_text_take by blast
  have "\<not> is_control c \<and> (is_space c = (c = CHR '' ''))" if "c \<in> set (sanitize_text v)" for c
  proof -
    from that t have "c \<in> set (join_with '' '' (split_ws (sanitize_terminal_text t False)))"
      by (metis in_set_takeD)
    then consider "c = CHR '' ''" |
      w where "w \<in> set (split_ws (sanitize_terminal_text t False))" "c \<in> set w"
      using set_join_with by fastforce
    then show ?thesis
    proof cases
      case 1
      then show ?thesis by (simp add: is_control_def is_space_def in_range_def code_def)
    next
      case 2
      then have "\<not> is_space c" "c \<in> set (sanitize_terminal_text t False)"
        using split_ws_acc_words[of "[]" w "sanitize_terminal_text t False"]
        by (auto simp: split_ws_def)
      then show ?thesis
        using terminal_text_no_control by (auto simp: is_space_def in_range_def code_def)
    qed
  qed
  then show ?thesis using t by (auto simp: MAX_LAST_ERROR_def list_all_iff inert_text_def)
qed

text \<open>
  A sanitized message is bounded by 2000 code points, holds no C0 or C1 control character
  (so no escape sequence reaches a terminal or the catalogue), and its only white space is the
  plain space.
\<close>

theorem sanitize_text_safe:
  "sanitize_last_error (Some v) = Some w \<Longrightarrow> inert_text w"
  using inert_sanitize_text by (auto simp: sanitize_last_error_def)

theorem sanitize_text_safe_witness:
  "sanitize_last_error (Some (CHR 0x1B # ''[2J'' @ [TAB] @ ''x'')) = Some (BS # ''x1b[2J'' @ [BS] @ ''x09x'') \<and>
   inert_text (BS # ''x1b[2J'' @ [BS] @ ''x09x'')"
proof -
  have s: "sanitize_last_error (Some (CHR 0x1B # ''[2J'' @ [TAB] @ ''x'')) = Some (BS # ''x1b[2J'' @ [BS] @ ''x09x'')"
    by code_simp
  from s sanitize_text_safe[OF s] show ?thesis by simp
qed

section \<open>Assigned secrets disappear\<close>

lemma nonspace_run_hd:
  assumes "\<forall>c\<in>set v. \<not> is_space c" "v \<noteq> []"
  shows "\<exists>ss. successes (plus (Cls (\<lambda>c. \<not> is_space c))) (p, v) = (Some (last v), []) # ss"
proof -
  obtain c cs where v: "v = c # cs" using assms(2) by (cases v) auto
  with assms obtain ss where
    "successes (Star (Cls (\<lambda>c. \<not> is_space c))) (Some c, cs) =
       (if cs = [] then Some c else Some (last cs), []) # ss"
    using successes_Star_Cls_hd[of cs "\<lambda>c. \<not> is_space c" "Some c"] by auto
  with v assms show ?thesis by (auto simp: plus_def simp del: successes.simps(5))
qed

lemma Star_Cls_stop: "\<not> P c \<Longrightarrow> successes (Star (Cls P)) (p, c # cs) = [(p, c # cs)]"
  by simp

lemma Cls_space_only: "is_space (CHR ''='') = False"
  by (simp add: is_space_def in_range_def code_def)

definition assigned_value :: re where
  "assigned_value = alts [seqs [lit [DQ], Star (none_of [DQ]), lit [DQ]],
     seqs [lit [SQ], Star (none_of [SQ]), lit [SQ]], plus (Cls (\<lambda>c. \<not> is_space c))]"

lemma assigned_value_hd:
  assumes "\<forall>c\<in>set v. \<not> is_space c" "v \<noteq> []" "hd v \<noteq> DQ" "hd v \<noteq> SQ"
  shows "\<exists>ss. successes assigned_value (p, v) = (Some (last v), []) # ss"
proof -
  obtain c cs where v: "v = c # cs" using assms(2) by (cases v) auto
  have "successes assigned_value (p, v) = successes (plus (Cls (\<lambda>c. \<not> is_space c))) (p, v)"
    using assms(3,4) v by (simp add: assigned_value_def lit_def none_of_def)
  then show ?thesis using nonspace_run_hd[OF assms(1,2), of p] by simp
qed

definition secret_assignment_key :: re where
  "secret_assignment_key = alts [ci ''password'', ci ''passwd'', ci ''secret'', ci ''token'',
     seqs [ci ''api'', opt (one_of ''_-''), ci ''key''], ci ''admin_passwd'', ci ''db_password'',
     ci ''master_pwd'']"

lemma SECRET_ASSIGNMENT_parts: "SECRET_ASSIGNMENT = seqs [WordB, secret_assignment_key,
    Star (Cls is_space), one_of '':='', Star (Cls is_space), assigned_value]"
  by (simp add: SECRET_ASSIGNMENT_def secret_assignment_key_def assigned_value_def)

lemma password_key: "successes secret_assignment_key (None, ''password'' @ w) = [(Some (CHR ''d''), w)]"
  by (simp add: secret_assignment_key_def ci_def opt_def one_of_def lower_char_def is_upper_def
      in_range_def code_def)

lemma word_password: "successes WordB (None, ''password'' @ w) = [(None, ''password'' @ w)]"
  by (simp add: word_at_def head_opt_def is_word_def is_alnum_def is_alpha_def is_lower_def
      in_range_def code_def)

lemma password_assignment_hd:
  assumes "\<forall>c\<in>set v. \<not> is_space c" "v \<noteq> []" "hd v \<noteq> DQ" "hd v \<noteq> SQ"
  shows "\<exists>ss. successes SECRET_ASSIGNMENT (None, ''password'' @ CHR ''='' # v) = (Some (last v), []) # ss"
proof -
  obtain c cs where v: "v = c # cs" using assms(2) by (cases v) auto
  then have c: "\<not> is_space c" using assms(1) by simp
  obtain ss where ss: "successes assigned_value (Some (CHR ''=''), c # cs) = (Some (last v), []) # ss"
    using assigned_value_hd[OF assms] v by blast
  have "successes SECRET_ASSIGNMENT (None, ''password'' @ CHR ''='' # v) =
      successes assigned_value (Some (CHR ''=''), c # cs)"
    unfolding SECRET_ASSIGNMENT_parts v
    using c by (simp add: word_password[unfolded append_Cons append_Nil]
        password_key[unfolded append_Cons append_Nil] Star_Cls_stop
        Cls_space_only one_of_def del: successes.simps(5,8))
  with ss show ?thesis by simp
qed

text \<open>
  A value assigned to \<^verbatim>\<open>password\<close> in a diagnostic is never stored: whatever the unquoted
  value is, the sanitized message is the redaction marker alone.
\<close>

theorem sanitize_password_value:
  assumes "list_all (\<lambda>c. \<not> is_space c) v" "v \<noteq> []" "hd v \<noteq> DQ" "hd v \<noteq> SQ"
  shows "sanitize_last_error (Some (''password='' @ v)) = Some redacted"
proof -
  obtain ss where ss: "successes SECRET_ASSIGNMENT (None, ''password'' @ CHR ''='' # v) =
      (Some (last v), []) # ss"
    using password_assignment_hd[of v] assms by (auto simp: list_all_iff)
  have "re_sub SECRET_ASSIGNMENT redacted (''password='' @ v) = redacted"
    using ss by (simp add: re_sub_def)
  moreover have "sanitize_text redacted = redacted" by code_simp
  moreover have "re_sub SECRET_ASSIGNMENT redacted redacted = redacted" by code_simp
  ultimately show ?thesis
    by (simp add: sanitize_last_error_def sanitize_text_def)
qed

theorem sanitize_password_value_witness:
  "sanitize_last_error (Some (''password='' @ ''hunter2'')) = Some redacted"
  by (rule sanitize_password_value)
     (simp_all add: is_space_def in_range_def code_def)

section \<open>Secrets never reach a child process\<close>

lemma map_of_dict_update:
  assumes "distinct (dkeys e)"
  shows "map_of (dict_update d e) k = (case map_of e k of None \<Rightarrow> map_of d k | Some v \<Rightarrow> Some v)"
proof -
  have "map_of (rev e) = map_of e"
    using assms by (subst map_of_inject_set) (simp_all add: dkeys_def flip: rev_map)
  then show ?thesis by (simp add: dict_update_def map_of_fold_dset)
qed

lemma map_of_fold_setdefault:
  "map_of (fold (\<lambda>(k, v) acc. dsetdefault acc k v) e d) k =
     (case map_of d k of None \<Rightarrow> map_of e k | Some v \<Rightarrow> Some v)"
  by (induction e arbitrary: d) (auto simp: map_of_dsetdefault split: option.splits)



end
