(* ===== verification/Dotenv.thy ===== *)
theory Dotenv
  imports Sanitize
begin

text \<open>
  The conservative dotenv reader of \<^verbatim>\<open>internal/project_env.py\<close>: the permission checks on the
  opened directory and file, the line grammar, and the merge with the process environment.
  The operating system is an argument: what opening the directory and the file returned.
\<close>

unbundle bit_operations_syntax

datatype dotenv_error =
    Malformed nat
  | DuplicateKey nat
  | NulByte
  | InvalidUtf8
  | SymlinkOrSpecial
  | FileNotOwnerOnly
  | DirectoryNotRegular
  | DirectoryNotOwnerOnly
  | DirectoryUnreadable
  | FileUnreadable

section \<open>The grammar\<close>

definition horizontal :: "char \<Rightarrow> bool" where
  "horizontal c \<longleftrightarrow> c = CHR '' '' \<or> c = TAB"

definition key_ok :: "string \<Rightarrow> bool" where
  "key_ok k = (case k of [] \<Rightarrow> False
     | c # cs \<Rightarrow> (is_alpha c \<or> c = CHR ''_'') \<and> list_all (\<lambda>x. is_alnum x \<or> x = CHR ''_'') cs)"

definition double_escape :: "char \<Rightarrow> char option" where
  "double_escape c =
     (if c = BS then Some BS else if c = DQ then Some DQ
      else if c = CHR ''n'' then Some LF else if c = CHR ''r'' then Some CR
      else if c = CHR ''t'' then Some TAB else None)"

text \<open>The \<^verbatim>\<open>while index < len(value)\<close> loop, on the text after the opening quote.\<close>

fun parse_double_quoted_loop :: "string \<Rightarrow> string \<Rightarrow> nat \<Rightarrow> (dotenv_error, string) result" where
  "parse_double_quoted_loop res [] line = Inl (Malformed line)"
| "parse_double_quoted_loop res (c # cs) line =
     (if c = DQ then (if cs \<noteq> [] then Inl (Malformed line) else Inr res)
      else if c \<in> {CR, LF, NUL} then Inl (Malformed line)
      else if c \<noteq> BS then parse_double_quoted_loop (res @ [c]) cs line
      else (case cs of [] \<Rightarrow> Inl (Malformed line)
        | e # cs' \<Rightarrow> (case double_escape e of None \<Rightarrow> Inl (Malformed line)
            | Some d \<Rightarrow> parse_double_quoted_loop (res @ [d]) cs' line)))"

definition parse_double_quoted :: "string \<Rightarrow> nat \<Rightarrow> (dotenv_error, string) result" where
  "parse_double_quoted value line = parse_double_quoted_loop [] (tl value) line"

definition parse_value :: "string \<Rightarrow> nat \<Rightarrow> (dotenv_error, string) result" where
  "parse_value value line =
     (if CHR ''$'' \<in> set value \<or> CHR 0x60 \<in> set value then Inl (Malformed line)
      else if value = [] then Inr []
      else if hd value = SQ then
        (if length value < 2 \<or> last value \<noteq> SQ then Inl (Malformed line)
         else let content = butlast (tl value)
              in if SQ \<in> set content \<or> BS \<in> set content \<or> CR \<in> set content
                    \<or> LF \<in> set content \<or> NUL \<in> set content
                 then Inl (Malformed line) else Inr content)
      else if hd value = DQ then parse_double_quoted value line
      else if SQ \<in> set value \<or> DQ \<in> set value then Inl (Malformed line)
      else Inr value)"

definition physical_lines :: "string \<Rightarrow> string list" where
  "physical_lines text = map (\<lambda>line. removesuffix line [CR]) (split_on LF text)"

text \<open>One iteration of the loop of \<^verbatim>\<open>_parse\<close>.\<close>

definition parse_line ::
  "(string, string) dict \<Rightarrow> nat \<Rightarrow> string \<Rightarrow> (dotenv_error, (string, string) dict) result" where
  "parse_line values line_number line =
     (if CR \<in> set line then Inl (Malformed line_number)
      else let stripped = lstrip horizontal line
        in if stripped = [] \<or> hd stripped = CHR ''#'' then Inr values
        else let (key, separator, value) = partition_at (CHR ''='') line;
                 normalized_key = strip horizontal key
          in if \<not> separator \<or> \<not> key_ok normalized_key then Inl (Malformed line_number)
             else if normalized_key \<in> set (dkeys values) then Inl (DuplicateKey line_number)
             else rbind (parse_value (strip horizontal value) line_number)
               (\<lambda>parsed. Inr (dset values normalized_key parsed)))"

fun parse_lines ::
  "(string, string) dict \<Rightarrow> nat \<Rightarrow> string list \<Rightarrow> (dotenv_error, (string, string) dict) result" where
  "parse_lines values n [] = Inr values"
| "parse_lines values n (l # ls) =
     rbind (parse_line values n l) (\<lambda>values'. parse_lines values' (Suc n) ls)"

definition parse :: "string \<Rightarrow> (dotenv_error, (string, string) dict) result" where
  "parse text = parse_lines [] 1 (physical_lines text)"

section \<open>Opening the file\<close>

text \<open>Mode bits are written in hexadecimal: \<^verbatim>\<open>0x3F\<close> is \<^verbatim>\<open>0o077\<close> and \<^verbatim>\<open>0x100\<close> is \<^verbatim>\<open>stat.S_IRUSR\<close>.\<close>

record file_stat =
  st_mode :: int
  st_uid :: nat
  is_regular :: bool
  is_directory :: bool

datatype 'a os_outcome = Opened 'a | NotFound | SymlinkLoop | OtherOSError

text \<open>
  The POSIX branch with \<^verbatim>\<open>dir_fd\<close> and \<^verbatim>\<open>O_NOFOLLOW\<close>: what \<^verbatim>\<open>os.open\<close> and \<^verbatim>\<open>os.fstat\<close> report for the
  directory and the file, the decoded contents (\<^term>\<open>None\<close> when the bytes are not UTF-8), and
  \<^verbatim>\<open>os.getuid()\<close>.
\<close>

record env_world =
  directory_open :: "file_stat os_outcome"
  file_open :: "(file_stat \<times> string option) os_outcome"
  current_uid :: nat

definition validate_environment_file :: "nat \<Rightarrow> file_stat \<Rightarrow> (dotenv_error, unit) result" where
  "validate_environment_file uid metadata =
     (if st_mode metadata AND 0x3F \<noteq> 0 \<or> st_mode metadata AND 0x100 = 0 \<or> st_uid metadata \<noteq> uid
      then Inl FileNotOwnerOnly else Inr ())"

definition open_environment_directory ::
  "env_world \<Rightarrow> bool \<Rightarrow> (dotenv_error, bool) result" where
  "open_environment_directory w require_owner_only =
     (case directory_open w of
        NotFound \<Rightarrow> Inr False
      | SymlinkLoop \<Rightarrow> Inl DirectoryUnreadable
      | OtherOSError \<Rightarrow> Inl DirectoryUnreadable
      | Opened metadata \<Rightarrow>
          if \<not> is_directory metadata then Inl DirectoryNotRegular
          else if require_owner_only \<and>
              (st_mode metadata AND 0x3F \<noteq> 0 \<or> st_uid metadata \<noteq> current_uid w)
          then Inl DirectoryNotOwnerOnly
          else Inr True)"

definition read_environment_descriptor ::
  "env_world \<Rightarrow> (dotenv_error, string option os_outcome) result" where
  "read_environment_descriptor w =
     (case file_open w of
        NotFound \<Rightarrow> Inr NotFound
      | SymlinkLoop \<Rightarrow> Inr SymlinkLoop
      | OtherOSError \<Rightarrow> Inr OtherOSError
      | Opened (metadata, contents) \<Rightarrow>
          if \<not> is_regular metadata then Inl SymlinkOrSpecial
          else rbind (validate_environment_file (current_uid w) metadata)
            (\<lambda>_. Inr (Opened contents)))"

definition load_environment_file ::
  "env_world \<Rightarrow> bool \<Rightarrow> (dotenv_error, (string, string) dict) result" where
  "load_environment_file w require_owner_only_directory =
     rbind (open_environment_directory w require_owner_only_directory) (\<lambda>present.
       if \<not> present then Inr []
       else rbind (read_environment_descriptor w) (\<lambda>raw.
         case raw of
           NotFound \<Rightarrow> Inr []
         | SymlinkLoop \<Rightarrow> Inl SymlinkOrSpecial
         | OtherOSError \<Rightarrow> Inl FileUnreadable
         | Opened None \<Rightarrow> Inl InvalidUtf8
         | Opened (Some text) \<Rightarrow> if NUL \<in> set text then Inl NulByte else parse text))"

section \<open>Merging and secrets\<close>

definition effective_project_environment ::
  "(string, string) dict \<Rightarrow> (string, string) dict \<Rightarrow> (string, string) dict" where
  "effective_project_environment file_values process_environment =
     fold (\<lambda>(key, value) effective. dsetdefault effective key value) file_values process_environment"

definition project_environment_secret_values :: "(string, string) dict \<Rightarrow> string list" where
  "project_environment_secret_values file_values =
     map snd (filter (\<lambda>(key, value). value \<noteq> [] \<and>
       (key = REMOTE_MASTER_PASSWORD \<or> is_secret_key_name key)) file_values)"

section \<open>The loop\<close>

lemma parse_lines_append:
  "parse_lines d n (xs @ ys) = rbind (parse_lines d n xs) (\<lambda>d'. parse_lines d' (n + length xs) ys)"
  by (induction d n xs rule: parse_lines.induct) (auto simp: rbind_assoc)

lemma parse_double_quoted_loop_Inl: "parse_double_quoted_loop res cs n = Inl e \<Longrightarrow> e = Malformed n"
  by (induction res cs n rule: parse_double_quoted_loop.induct)
     (auto split: if_splits list.splits option.splits)

lemma parse_value_Inl: "parse_value v n = Inl e \<Longrightarrow> e = Malformed n"
  by (auto simp: parse_value_def parse_double_quoted_def Let_def split: if_splits
      dest: parse_double_quoted_loop_Inl)

lemma parse_line_Inl: "parse_line d n l = Inl e \<Longrightarrow> e = Malformed n \<or> e = DuplicateKey n"
  by (auto simp: parse_line_def Let_def split: if_splits prod.splits dest: parse_value_Inl)

lemma parse_lines_Inl:
  "parse_lines d n ls = Inl e \<Longrightarrow>
     \<exists>i d'. i < length ls \<and> parse_lines d n (take i ls) = Inr d' \<and>
       parse_line d' (n + i) (ls ! i) = Inl e"
proof (induction d n ls rule: parse_lines.induct)
  case (2 d n l ls)
  show ?case
  proof (cases "parse_line d n l")
    case (Inl a)
    with 2 show ?thesis by (intro exI[of _ 0]) auto
  next
    case (Inr d')
    with "2.prems" have "parse_lines d' (Suc n) ls = Inl e" by simp
    from "2.IH"[OF this] obtain i d'' where "i < length ls"
      "parse_lines d' (Suc n) (take i ls) = Inr d''"
      "parse_line d'' (Suc n + i) (ls ! i) = Inl e" by blast
    with Inr show ?thesis by (intro exI[of _ "Suc i"]) auto
  qed
qed simp

text \<open>
  C9: A rejected dotenv text is rejected at one physical line: the reported number names a line of
  the file, every earlier line parses, and the error is a malformed assignment or a duplicate key
  at exactly that line.
\<close>

theorem parse_error_line:
  assumes "parse text = Inl e"
  shows "\<exists>i d. i < length (physical_lines text) \<and>
    parse_lines [] 1 (take i (physical_lines text)) = Inr d \<and>
    parse_line d (Suc i) (physical_lines text ! i) = Inl e \<and>
    (e = Malformed (Suc i) \<or> e = DuplicateKey (Suc i))"
proof -
  obtain i d where "i < length (physical_lines text)"
    "parse_lines [] 1 (take i (physical_lines text)) = Inr d"
    "parse_line d (1 + i) (physical_lines text ! i) = Inl e"
    using parse_lines_Inl[OF assms[unfolded parse_def]] by blast
  moreover from this(3) have "parse_line d (Suc i) (physical_lines text ! i) = Inl e" by simp
  ultimately show ?thesis using parse_line_Inl by blast
qed

theorem parse_error_line_witness:
  "parse (''A=1'' @ [LF] @ ''A=2'') = Inl (DuplicateKey 2) \<and>
   (\<exists>i d. parse_line d (Suc i) (physical_lines (''A=1'' @ [LF] @ ''A=2'') ! i) = Inl (DuplicateKey 2))"
proof -
  have p: "parse (''A=1'' @ [LF] @ ''A=2'') = Inl (DuplicateKey 2)" by code_simp
  from parse_error_line[OF p] p show ?thesis by blast
qed

section \<open>What an accepted file contains\<close>

definition shell_free :: "string \<Rightarrow> bool" where
  "shell_free v \<longleftrightarrow> CHR ''$'' \<notin> set v \<and> CHR 0x60 \<notin> set v"

definition well_formed_env :: "(string, string) dict \<Rightarrow> bool" where
  "well_formed_env d \<longleftrightarrow> distinct (dkeys d) \<and> list_all key_ok (dkeys d)
     \<and> list_all (\<lambda>(k, v). shell_free v) d"

lemma double_escape_shell_free: "double_escape c = Some d \<Longrightarrow> d \<noteq> CHR ''$'' \<and> d \<noteq> CHR 0x60"
  unfolding double_escape_def by (simp split: if_splits) auto

lemma parse_double_quoted_shell_free:
  "parse_double_quoted_loop res cs n = Inr v \<Longrightarrow> shell_free cs \<Longrightarrow> shell_free res \<Longrightarrow> shell_free v"
proof (induction res cs n rule: parse_double_quoted_loop.induct)
  case (2 res c cs line)
  show ?case
  proof (cases "c = DQ \<or> c \<in> {CR, LF, NUL}")
    case True
    with 2 show ?thesis by (auto split: if_splits)
  next
    case nq: False
    show ?thesis
    proof (cases "c = BS")
      case False
      with nq 2 show ?thesis by (simp add: shell_free_def)
    next
      case True
      with nq "2.prems"(1) obtain e cs' d where e: "cs = e # cs'" "double_escape e = Some d"
        "parse_double_quoted_loop (res @ [d]) cs' line = Inr v"
        by (auto split: list.splits option.splits)
      have "shell_free (res @ [d])" "shell_free cs'"
        using double_escape_shell_free[OF e(2)] "2.prems"(2,3) e(1) by (auto simp: shell_free_def)
      with "2.IH"(2)[OF _ _ _ e(1,2,3)] nq True show ?thesis by simp
    qed
  qed
qed simp

lemma set_tl_subset: "set (tl v) \<subseteq> set v" "set (butlast (tl v)) \<subseteq> set v"
  by (cases v; auto dest: in_set_butlastD)+

lemma parse_value_shell_free: "parse_value v n = Inr w \<Longrightarrow> shell_free w"
  using set_tl_subset[of v] parse_double_quoted_shell_free[of "[]" "tl v" n w]
  by (auto simp: parse_value_def parse_double_quoted_def Let_def shell_free_def split: if_splits)

lemma well_formed_dset:
  "well_formed_env d \<Longrightarrow> k \<notin> set (dkeys d) \<Longrightarrow> key_ok k \<Longrightarrow> shell_free v \<Longrightarrow>
     well_formed_env (dset d k v)"
proof -
  assume a: "well_formed_env d" "k \<notin> set (dkeys d)" "key_ok k" "shell_free v"
  from a(2) have "dset d k v = d @ [(k, v)]"
    by (induction d k v rule: dset.induct) (auto simp: dkeys_def)
  with a show ?thesis by (auto simp: well_formed_env_def dkeys_def)
qed

lemma parse_line_well_formed:
  "parse_line d n l = Inr d' \<Longrightarrow> well_formed_env d \<Longrightarrow> well_formed_env d'"
  by (auto simp: parse_line_def Let_def split: if_splits prod.splits
      intro!: well_formed_dset dest: parse_value_shell_free)

lemma parse_lines_well_formed:
  "parse_lines d n ls = Inr d' \<Longrightarrow> well_formed_env d \<Longrightarrow> well_formed_env d'"
  by (induction d n ls rule: parse_lines.induct) (auto dest: parse_line_well_formed)

lemma parse_wf: "parse text = Inr d \<Longrightarrow> well_formed_env d"
  using parse_lines_well_formed[of "[]" 1 "physical_lines text" d]
  by (simp add: parse_def well_formed_env_def dkeys_def)

text \<open>
  Every accepted dotenv text yields distinct keys that are identifiers, and values that hold no
  shell expansion character.
\<close>

theorem parse_well_formed:
  assumes "parse text = Inr d"
  shows "well_formed_env d"
  using assms by (rule parse_wf)

theorem parse_well_formed_witness:
  "well_formed_env [(''A'', '' x y''), (''B'', ''1'')]"
proof -
  have "parse (''A=' x y' '' @ [LF, CHR ''#'', LF] @ '' B = 1'') = Inr [(''A'', '' x y''), (''B'', ''1'')]"
    by code_simp
  from parse_well_formed[OF this] show ?thesis .
qed

section \<open>Every value can be written\<close>

text \<open>A writer for the grammar: double quotes with the five escapes.\<close>

definition quote_char :: "char \<Rightarrow> string" where
  "quote_char c = (if c = BS then [BS, BS] else if c = DQ then [BS, DQ]
     else if c = LF then [BS, CHR ''n''] else if c = CR then [BS, CHR ''r'']
     else if c = TAB then [BS, CHR ''t''] else [c])"

definition quote_value :: "string \<Rightarrow> string" where
  "quote_value v = DQ # concat (map quote_char v) @ [DQ]"

definition render_env :: "(string, string) dict \<Rightarrow> string" where
  "render_env d = join_with [LF] (map (\<lambda>(k, v). k @ CHR ''='' # quote_value v) d)"

lemma quote_char_simps:
  "quote_char BS = [BS, BS]" "quote_char DQ = [BS, DQ]" "quote_char LF = [BS, CHR ''n'']"
  "quote_char CR = [BS, CHR ''r'']" "quote_char TAB = [BS, CHR ''t'']"
  by (simp_all add: quote_char_def)

lemma parse_quoted_loop:
  "NUL \<notin> set v \<Longrightarrow>
     parse_double_quoted_loop res (concat (map quote_char v) @ [DQ]) n = Inr (res @ v)"
proof (induction v arbitrary: res)
  case (Cons c v)
  then have IH: "parse_double_quoted_loop (res @ [c]) (concat (map quote_char v) @ [DQ]) n =
      Inr (res @ c # v)" and "c \<noteq> NUL" by auto
  then consider "c = BS" | "c = DQ" | "c = LF" | "c = CR" | "c = TAB" |
    "quote_char c = [c]" "c \<notin> {BS, DQ, LF, CR, TAB, NUL}"
    by (auto simp: quote_char_def)
  then show ?case
    by cases (use IH in \<open>simp_all add: quote_char_simps double_escape_def\<close>)
qed simp

lemma quote_char_set: "x \<in> set (quote_char c) \<Longrightarrow>
    x = c \<or> x \<in> {BS, DQ, CHR ''n'', CHR ''r'', CHR ''t''}"
  unfolding quote_char_def by (simp split: if_splits) auto

lemma quote_char_no_break: "x \<in> set (quote_char c) \<Longrightarrow> x \<noteq> LF \<and> x \<noteq> CR"
  unfolding quote_char_def by (simp split: if_splits) auto

lemma quote_value_plain:
  "shell_free v \<Longrightarrow> CHR ''$'' \<notin> set (quote_value v) \<and> CHR 0x60 \<notin> set (quote_value v)"
  by (auto simp: quote_value_def shell_free_def dest!: quote_char_set)

lemma quote_value_no_break: "LF \<notin> set (quote_value v) \<and> CR \<notin> set (quote_value v)"
  by (auto simp: quote_value_def dest!: quote_char_no_break)

lemma parse_quote_value:
  "shell_free v \<Longrightarrow> NUL \<notin> set v \<Longrightarrow> parse_value (quote_value v) n = Inr v"
  using quote_value_plain[of v] parse_quoted_loop[of v "[]" n]
  by (simp add: parse_value_def parse_double_quoted_def quote_value_def)

lemma key_ok_chars:
  assumes "key_ok k" "c \<in> set k"
  shows "\<not> horizontal c \<and> c \<noteq> CHR ''='' \<and> c \<noteq> CHR ''#'' \<and> c \<noteq> CR \<and> c \<noteq> LF"
proof -
  have "is_alnum c \<or> c = CHR ''_''"
    using assms by (auto simp: key_ok_def is_alnum_def list_all_iff split: list.splits)
  then show ?thesis
    by (auto simp: is_alnum_def is_alpha_def is_upper_def is_lower_def is_digit_def in_range_def
        code_def horizontal_def)
qed

lemma key_ok_strip: "key_ok k \<Longrightarrow> strip horizontal k = k \<and> k \<noteq> []"
proof -
  assume k: "key_ok k"
  then have ne: "k \<noteq> []" by (auto simp: key_ok_def)
  then show ?thesis using key_ok_chars[OF k] by (auto intro!: strip_eq)
qed

lemma quote_value_strip: "strip horizontal (quote_value v) = quote_value v"
  by (rule strip_eq) (simp add: quote_value_def horizontal_def)

lemma parse_rendered_line:
  assumes "key_ok k" "shell_free v" "NUL \<notin> set v" "k \<notin> set (dkeys d)"
  shows "parse_line d n (k @ CHR ''='' # quote_value v) = Inr (d @ [(k, v)])"
proof -
  let ?line = "k @ CHR ''='' # quote_value v"
  obtain c cs where k: "k = c # cs" using key_ok_strip[OF assms(1)] by (cases k) auto
  have cr: "CR \<notin> set ?line" using key_ok_chars[OF assms(1)] quote_value_no_break by auto
  have strip: "lstrip horizontal ?line = ?line" "hd ?line \<noteq> CHR ''#''"
    using key_ok_chars[OF assms(1), of c] k by (auto intro!: lstrip_eq)
  have part: "partition_at (CHR ''='') ?line = (k, True, quote_value v)"
    using key_ok_chars[OF assms(1)] by (intro partition_at_append) auto
  have dset: "dset d k v = d @ [(k, v)]"
    using assms(4) by (induction d k v rule: dset.induct) (auto simp: dkeys_def)
  show ?thesis
    unfolding parse_line_def
    using cr strip part assms key_ok_strip[OF assms(1)]
    by (simp add: quote_value_strip parse_quote_value dset)
qed

lemma parse_rendered_lines:
  assumes "list_all (\<lambda>(k, v). key_ok k \<and> shell_free v \<and> NUL \<notin> set v) e"
    "distinct (dkeys d @ dkeys e)"
  shows "parse_lines d n (map (\<lambda>(k, v). k @ CHR ''='' # quote_value v) e) = Inr (d @ e)"
  using assms
proof (induction e arbitrary: d n)
  case (Cons p e)
  obtain k v where p: "p = (k, v)" by (cases p)
  with Cons have "parse_line d n (k @ CHR ''='' # quote_value v) = Inr (d @ [(k, v)])"
    by (intro parse_rendered_line) (auto simp: dkeys_def)
  moreover have "parse_lines (d @ [(k, v)]) (Suc n)
      (map (\<lambda>(k, v). k @ CHR ''='' # quote_value v) e) = Inr ((d @ [(k, v)]) @ e)"
    using Cons p by (intro Cons.IH) (auto simp: dkeys_def)
  ultimately show ?case using p by simp
qed simp

lemma rendered_line_no_break:
  "key_ok k \<Longrightarrow> LF \<notin> set (k @ CHR ''='' # quote_value v) \<and> CR \<notin> set (k @ CHR ''='' # quote_value v)"
  using key_ok_chars[of k] quote_value_no_break[of v] by auto

lemma removesuffix_CR: "CR \<notin> set l \<Longrightarrow> removesuffix l [CR] = l"
  by (auto simp: removesuffix_def endswith_def)
     (metis in_set_dropD list.set_intros(1))

text \<open>
  C7: The grammar is complete and unambiguous: every mapping with identifier keys and values free of
  shell expansion characters and NUL, line breaks and quotes included, has a rendering that the
  reader parses back to exactly that mapping, in the same order.
\<close>

theorem parse_render_roundtrip:
  assumes "d \<noteq> []" "distinct (dkeys d)"
    "list_all (\<lambda>(k, v). key_ok k \<and> shell_free v \<and> NUL \<notin> set v) d"
  shows "parse (render_env d) = Inr d"
proof -
  let ?ls = "map (\<lambda>(k, v). k @ CHR ''='' # quote_value v) d"
  have clean: "LF \<notin> set l \<and> CR \<notin> set l" if "l \<in> set ?ls" for l
    using that assms(3) rendered_line_no_break by (fastforce simp: list_all_iff)
  have "split_on LF (render_env d) = ?ls"
    unfolding render_env_def using assms(1) clean by (intro split_join) auto
  moreover have "map (\<lambda>l. removesuffix l [CR]) ?ls = ?ls"
    using clean removesuffix_CR by (intro map_idI) blast
  ultimately have "physical_lines (render_env d) = ?ls" by (simp only: physical_lines_def)
  then show ?thesis
    using parse_rendered_lines[OF assms(3), of "[]" 1] assms(2) by (simp add: parse_def dkeys_def)
qed

theorem parse_render_roundtrip_witness:
  "parse (render_env [(''A'', [LF, DQ]), (''B_1'', [])]) = Inr [(''A'', [LF, DQ]), (''B_1'', [])]"
  by (rule parse_render_roundtrip)
     (simp_all add: dkeys_def key_ok_def shell_free_def is_alpha_def is_upper_def is_alnum_def
        is_digit_def in_range_def code_def)

section \<open>Loading and merging\<close>


definition sample_world :: env_world where
  "sample_world = \<lparr>directory_open = Opened \<lparr>st_mode = 0x1C0, st_uid = 7, is_regular = False,
      is_directory = True\<rparr>,
    file_open = Opened (\<lparr>st_mode = 0x180, st_uid = 7, is_regular = True, is_directory = False\<rparr>,
      Some ''A=1''), current_uid = 7\<rparr>"


text \<open>
  The effective environment of an Odoo child gives every process value precedence over the
  project file, adds exactly the missing file values and keeps keys distinct.
\<close>

theorem effective_environment_precedence:
  assumes "distinct (dkeys process_environment)"
  shows "map_of (effective_project_environment file_values process_environment) k =
      (case map_of process_environment k of Some v \<Rightarrow> Some v | None \<Rightarrow> map_of file_values k)
    \<and> distinct (dkeys (effective_project_environment file_values process_environment))"
  unfolding effective_project_environment_def
  using distinct_fold_setdefault[OF assms, of file_values]
  by (simp add: map_of_fold_setdefault split: option.splits)

theorem effective_environment_precedence_witness:
  "map_of (effective_project_environment [(''A'', ''f''), (''B'', ''f'')] [(''A'', ''p'')]) ''A'' = Some ''p''
   \<and> map_of (effective_project_environment [(''A'', ''f''), (''B'', ''f'')] [(''A'', ''p'')]) ''B'' = Some ''f''"
  using effective_environment_precedence[of "[(''A'', ''p'')]" "[(''A'', ''f''), (''B'', ''f'')]" "''A''"]
    effective_environment_precedence[of "[(''A'', ''p'')]" "[(''A'', ''f''), (''B'', ''f'')]" "''B''"]
  by (simp add: dkeys_def)

end
