(* ===== verification/Ledger.thy ===== *)
theory Ledger
  imports Sanitize
begin

text \<open>
  The per-run consumption ledger of \<^verbatim>\<open>internal/proc/__init__.py\<close>: prepared steps and actions,
  \<^verbatim>\<open>RunContext\<close> with every method that changes it, and \<^verbatim>\<open>PreparedCommand.run\<close> around an arbitrary
  callback.

  A callback is a tree of calls on its context: what it does next may depend on every answer, and
  it may catch the exceptions a call raises. The executor is an argument, a function of the
  launches made so far. \<^verbatim>\<open>time.monotonic\<close> is a sequence of readings. Floats are rationals.
\<close>

section \<open>Steps and events\<close>

record prepared_step =
  ps_step_id :: string
  argv :: "string list"
  sensitive_argv_indices :: "nat list"
  cwd :: "string option"
  environment :: "(string \<times> string) list"
  environment_snapshot :: "(string \<times> string) list"
  environment_overrides :: "(string \<times> string) list"
  environment_policy :: string
  stdin :: "string option"
  wrapper_nonce :: "string option"
  secret_config_path :: "string option"
  public_input_preview :: "string option"
  timeout :: "rat option"
  max_output_bytes :: "int option"
  max_combined_output_bytes :: "int option"
  mode :: string
  secret_values :: "string list"
  ps_read_only :: bool
  ps_mutating :: bool
  interactive :: bool
  long_running :: bool
  text_mode :: bool
  start_new_session :: bool
  inherit_stdio :: bool
  private_stdout_value_free :: bool

record prepared_action =
  pa_step_id :: string
  pa_action :: string
  description :: string
  details :: json
  pa_read_only :: bool
  pa_mutating :: bool

datatype step = ProcStep prepared_step | ActStep prepared_action

fun step_id :: "step \<Rightarrow> string" where
  "step_id (ProcStep p) = ps_step_id p"
| "step_id (ActStep a) = pa_step_id a"

datatype event_kind = EStarted | EProgress | EStdout | EStderr | ECompleted | EFailed

record step_event =
  ev_step_id :: string
  kind :: event_kind
  operation :: string
  target :: string
  returncode :: "int option"
  error :: "string option"
  elapsed :: "rat option"
  completed_units :: "rat option"
  total_units :: "rat option"

text \<open>\<^verbatim>\<open>x or d\<close> on optional text.\<close>

definition or_else :: "string option \<Rightarrow> string \<Rightarrow> string" where
  "or_else x d = (case x of None \<Rightarrow> d | Some s \<Rightarrow> if s = [] then d else s)"

text \<open>The constructor with \<^verbatim>\<open>__post_init__\<close>.\<close>

definition StepEvent :: "string \<Rightarrow> event_kind \<Rightarrow> string \<Rightarrow> string \<Rightarrow> int option \<Rightarrow> string option
    \<Rightarrow> rat option \<Rightarrow> rat option \<Rightarrow> rat option \<Rightarrow> step_event" where
  "StepEvent sid k op tgt rc err el cu tu =
     (let sid' = or_else (sanitize_event_message (Some sid)) ''step'';
          op' = or_else (sanitize_event_message (Some (or_else (Some op) sid'))) sid';
          tgt' = or_else (sanitize_event_message (Some (or_else (Some tgt) sid'))) op'
      in \<lparr>ev_step_id = sid', kind = k, operation = op', target = tgt', returncode = rc,
          error = sanitize_event_message err, elapsed = el, completed_units = cu,
          total_units = tu\<rparr>)"

text \<open>\<^verbatim>\<open>event_for_step\<close> for a logical action, the only steps the ledger itself reports on.\<close>

definition event_for_action :: "prepared_action \<Rightarrow> event_kind \<Rightarrow> int option \<Rightarrow> string option
    \<Rightarrow> rat option \<Rightarrow> rat option \<Rightarrow> rat option \<Rightarrow> step_event" where
  "event_for_action a k rc err el cu tu =
     (let op = or_else (Some (pa_action a)) (pa_step_id a);
          tgt = or_else (Some (description a)) op
      in StepEvent (pa_step_id a) k op tgt rc err el cu tu)"

section \<open>Exceptions\<close>

datatype exn =
    UnplannedStepError string string
  | DuplicateStepError string
  | OmittedStepError "string list"
  | PlanValidationError string
  | ValueError string
  | KeyError string
  | OtherError string

fun str_exn :: "exn \<Rightarrow> string" where
  "str_exn (UnplannedStepError sid reason) =
     ''Unplanned execution step '' @ py_repr sid @ '': '' @ reason"
| "str_exn (DuplicateStepError sid) =
     ''Execution step '' @ py_repr sid @ '' was consumed more than once''"
| "str_exn (OmittedStepError sids) = ''Execution omitted planned steps: '' @ join_with '', '' sids"
| "str_exn (PlanValidationError m) = m"
| "str_exn (ValueError m) = m"
| "str_exn (KeyError k) = py_repr k"
| "str_exn (OtherError m) = m"

definition not_planned :: string where "not_planned = ''step is not in the plan''"
definition not_a_process :: string where "not_a_process = ''requested step is not a process''"
definition not_an_action :: string where "not_an_action = ''requested step is not an action''"
definition not_started :: string where "not_started = ''action has not started''"

section \<open>The run context\<close>

record execution_deadline =
  started_at :: rat
  budget :: rat

datatype launch =
    Executed prepared_step
  | ExecutedUntil prepared_step execution_deadline
  | Spawned prepared_step

fun launch_step :: "launch \<Rightarrow> prepared_step" where
  "launch_step (Executed s) = s"
| "launch_step (ExecutedUntil s d) = s"
| "launch_step (Spawned s) = s"

abbreviation launch_id :: "launch \<Rightarrow> string" where
  "launch_id l \<equiv> ps_step_id (launch_step l)"

text \<open>\<open>exec_deadline\<close> is \<^term>\<open>None\<close> for an executor without \<^verbatim>\<open>execute_with_deadline\<close>.\<close>

record ('p, 'h) executor =
  exec :: "launch list \<Rightarrow> prepared_step \<Rightarrow> (exn, 'p) result"
  exec_spawn :: "launch list \<Rightarrow> prepared_step \<Rightarrow> (exn, 'h) result"
  exec_deadline ::
    "(launch list \<Rightarrow> prepared_step \<Rightarrow> execution_deadline \<Rightarrow> (exn, 'p) result) option"

text \<open>
  \<open>events\<close> pairs each delivered event with the raw identifier of the step it is about; it stays
  empty without an observer. \<open>launches\<close> lists the executor calls, \<open>ticks\<close> counts clock readings.
\<close>

record ('p, 'h) run_context =
  steps :: "(string, step) dict"
  executor :: "('p, 'h) executor"
  consumed_ids :: "string set"
  results :: "(string, 'p) dict"
  observing :: bool
  started_actions :: "(string, rat) dict"
  action_progress :: "(string, rat \<times> rat option) dict"
  events :: "(string \<times> step_event) list"
  launches :: "launch list"
  clock :: "nat \<Rightarrow> rat"
  ticks :: nat

type_synonym ('p, 'h, 'a) ctx_act = "(('p, 'h) run_context, exn, 'a) act"

definition RunContext ::
  "step list \<Rightarrow> ('p, 'h) executor \<Rightarrow> bool \<Rightarrow> (nat \<Rightarrow> rat) \<Rightarrow> ('p, 'h) run_context" where
  "RunContext ss ex obs clk =
     \<lparr>steps = fold (\<lambda>s d. dset d (step_id s) s) ss [], executor = ex, consumed_ids = {},
      results = [], observing = obs, started_actions = [], action_progress = [], events = [],
      launches = [], clock = clk, ticks = 0\<rparr>"

definition monotonic :: "('p, 'h, rat) ctx_act" where
  "monotonic c = (Inr (clock c (ticks c)), c\<lparr>ticks := Suc (ticks c)\<rparr>)"

definition notify :: "string \<Rightarrow> step_event \<Rightarrow> ('p, 'h, unit) ctx_act" where
  "notify sid ev = modifies (\<lambda>c. if observing c then c\<lparr>events := events c @ [(sid, ev)]\<rparr> else c)"

definition mark_consumed :: "string \<Rightarrow> ('p, 'h, unit) ctx_act" where
  "mark_consumed sid = modifies (\<lambda>c. c\<lparr>consumed_ids := insert sid (consumed_ids c)\<rparr>)"

definition consume :: "string \<Rightarrow> ('p, 'h, step) ctx_act" where
  "consume sid = abind (reads (\<lambda>c. (map_of (steps c) sid, sid \<in> consumed_ids c))) (\<lambda>(found, used).
     case found of
       None \<Rightarrow> throw (UnplannedStepError sid not_planned)
     | Some st \<Rightarrow> if used then throw (DuplicateStepError sid)
         else aseq (mark_consumed sid) (ret st))"

definition capture_prepared :: "prepared_step \<Rightarrow> ('p, 'h, prepared_step) ctx_act" where
  "capture_prepared requested = (let sid = ps_step_id requested in
     abind (reads (\<lambda>c. (map_of (steps c) sid, sid \<in> consumed_ids c))) (\<lambda>(captured, used).
       if captured \<noteq> Some (ProcStep requested) then throw (UnplannedStepError sid not_planned)
       else if used then throw (DuplicateStepError sid)
       else aseq (mark_consumed sid) (ret requested)))"

definition launch_with :: "launch \<Rightarrow> (('p, 'h) executor \<Rightarrow> launch list \<Rightarrow> (exn, 'r) result)
    \<Rightarrow> ('p, 'h, 'r) ctx_act" where
  "launch_with l run c =
     (run (executor c) (launches c), c\<lparr>launches := launches c @ [l]\<rparr>)"

definition record_result :: "string \<Rightarrow> 'p \<Rightarrow> ('p, 'h, 'p) ctx_act" where
  "record_result sid r = aseq (modifies (\<lambda>c. c\<lparr>results := dset (results c) sid r\<rparr>)) (ret r)"

definition process_prepared :: "prepared_step \<Rightarrow> ('p, 'h, 'p) ctx_act" where
  "process_prepared requested = abind (capture_prepared requested) (\<lambda>captured.
     abind (launch_with (Executed captured) (\<lambda>ex ls. exec ex ls captured))
       (record_result (ps_step_id requested)))"

definition process_dynamic :: "prepared_step \<Rightarrow> ('p, 'h, 'p) ctx_act" where
  "process_dynamic requested = (let sid = ps_step_id requested in
     abind (reads (\<lambda>c. (map_of (steps c) sid, sid \<in> consumed_ids c))) (\<lambda>(planned, used).
       if planned \<noteq> None then throw (DuplicateStepError sid)
       else if used then throw (DuplicateStepError sid)
       else aseq (mark_consumed sid)
         (abind (launch_with (Executed requested) (\<lambda>ex ls. exec ex ls requested))
           (record_result sid))))"

definition deadline_required :: string where
  "deadline_required =
     ''status server-summary requires an executor implementing execute_with_deadline''"

definition process_prepared_with_deadline ::
  "prepared_step \<Rightarrow> execution_deadline \<Rightarrow> ('p, 'h, 'p) ctx_act" where
  "process_prepared_with_deadline requested dl = abind (reads (exec_deadline \<circ> executor)) (\<lambda>f.
     case f of None \<Rightarrow> throw (PlanValidationError deadline_required)
     | Some run \<Rightarrow> abind (capture_prepared requested) (\<lambda>captured.
         abind (launch_with (ExecutedUntil captured dl) (\<lambda>ex ls. run ls captured dl))
           (record_result (ps_step_id requested))))"

definition prepared :: "string \<Rightarrow> ('p, 'h, prepared_step) ctx_act" where
  "prepared sid = abind (reads (\<lambda>c. map_of (steps c) sid)) (\<lambda>found.
     case found of Some (ProcStep s) \<Rightarrow> ret s
     | _ \<Rightarrow> throw (UnplannedStepError sid not_a_process))"

definition process :: "string \<Rightarrow> ('p, 'h, 'p) ctx_act" where
  "process sid = abind (prepared sid) process_prepared"

definition spawn :: "string \<Rightarrow> ('p, 'h, 'h) ctx_act" where
  "spawn sid = abind (consume sid) (\<lambda>st. case st of
     ProcStep s \<Rightarrow> launch_with (Spawned s) (\<lambda>ex ls. exec_spawn ex ls s)
   | ActStep a \<Rightarrow> throw (UnplannedStepError sid not_a_process))"

definition action :: "string \<Rightarrow> ('p, 'h, prepared_action) ctx_act" where
  "action sid = abind (consume sid) (\<lambda>st. case st of
     ProcStep s \<Rightarrow> throw (UnplannedStepError sid not_an_action)
   | ActStep a \<Rightarrow> abind monotonic (\<lambda>started.
       aseq (notify sid (event_for_action a EStarted None None (Some 0) None None))
        (aseq (modifies (\<lambda>c. c\<lparr>started_actions := dset (started_actions c) (pa_step_id a) started\<rparr>))
          (ret a))))"

text \<open>A unit count: \<^term>\<open>None\<close> is a value the type and finiteness checks of \<^verbatim>\<open>progress\<close> reject.\<close>

definition lookup_action :: "string \<Rightarrow> ('p, 'h, prepared_action) ctx_act" where
  "lookup_action sid = abind (reads (\<lambda>c. map_of (steps c) sid)) (\<lambda>found.
     case found of Some (ActStep a) \<Rightarrow> ret a | _ \<Rightarrow> throw (KeyError sid))"

definition report :: "string \<Rightarrow> rat \<Rightarrow> event_kind \<Rightarrow> int option \<Rightarrow> string option
    \<Rightarrow> rat option \<Rightarrow> rat option \<Rightarrow> ('p, 'h, unit) ctx_act" where
  "report sid started k rc err cu tu = abind (lookup_action sid) (\<lambda>a. abind monotonic (\<lambda>now.
     notify sid (event_for_action a k rc err (Some (max 0 (now - started))) cu tu)))"

definition progress ::
  "string \<Rightarrow> rat option \<Rightarrow> rat option option \<Rightarrow> ('p, 'h, unit) ctx_act" where
  "progress sid cu tu = abind (reads (\<lambda>c. map_of (started_actions c) sid)) (\<lambda>found.
     case found of None \<Rightarrow> throw (UnplannedStepError sid not_started)
     | Some started \<Rightarrow>
       (case cu of None \<Rightarrow> throw (ValueError ''completed_units must be a non-negative number'')
        | Some u \<Rightarrow>
          if u < 0 then throw (ValueError ''completed_units must be a non-negative number'')
          else (case tu of
              None \<Rightarrow> aseq
                (modifies (\<lambda>c. c\<lparr>action_progress := dset (action_progress c) sid (u, None)\<rparr>))
                (report sid started EProgress None None (Some u) None)
            | Some None \<Rightarrow> throw
                (ValueError ''total_units must be greater than or equal to completed_units'')
            | Some (Some t) \<Rightarrow>
                if t < 0 \<or> t < u then throw
                  (ValueError ''total_units must be greater than or equal to completed_units'')
                else aseq
                  (modifies (\<lambda>c. c\<lparr>action_progress := dset (action_progress c) sid (u, Some t)\<rparr>))
                  (report sid started EProgress None None (Some u) (Some t)))))"

definition pop_started :: "string \<Rightarrow> ('p, 'h, rat option) ctx_act" where
  "pop_started sid c =
     (Inr (map_of (started_actions c) sid), c\<lparr>started_actions := dpop (started_actions c) sid\<rparr>)"

definition pop_progress :: "string \<Rightarrow> ('p, 'h, (rat \<times> rat option) option) ctx_act" where
  "pop_progress sid c =
     (Inr (map_of (action_progress c) sid), c\<lparr>action_progress := dpop (action_progress c) sid\<rparr>)"

definition complete_action :: "string \<Rightarrow> ('p, 'h, unit) ctx_act" where
  "complete_action sid = abind (pop_started sid) (\<lambda>found.
     case found of None \<Rightarrow> throw (UnplannedStepError sid not_started)
     | Some started \<Rightarrow> abind (pop_progress sid) (\<lambda>units.
         report sid started ECompleted (Some 0) None (map_option fst units)
           (Option.bind units snd)))"

definition finish_actions :: "('p, 'h, unit) ctx_act" where
  "finish_actions = abind (reads (dkeys \<circ> started_actions)) (for_each complete_action)"

definition fail_action :: "string \<Rightarrow> exn \<Rightarrow> ('p, 'h, bool) ctx_act" where
  "fail_action sid e = abind (pop_started sid) (\<lambda>found.
     case found of None \<Rightarrow> ret False
     | Some started \<Rightarrow> abind (pop_progress sid) (\<lambda>_.
         aseq (report sid started EFailed None
             (Some (or_else (sanitize_event_message (Some (str_exn e))) ''interrupted'')) None None)
           (ret True)))"

definition fail_actions :: "exn \<Rightarrow> ('p, 'h, unit) ctx_act" where
  "fail_actions e = abind (reads (dkeys \<circ> started_actions))
     (for_each (\<lambda>sid. abind (fail_action sid e) (\<lambda>_. ret ())))"

definition skip :: "string \<Rightarrow> ('p, 'h, unit) ctx_act" where
  "skip sid = abind (consume sid) (\<lambda>_. ret ())"

definition complete :: "('p, 'h, unit) ctx_act" where
  "complete = abind
     (reads (\<lambda>c. sort (filter (\<lambda>sid. sid \<notin> consumed_ids c) (dkeys (steps c))))) (\<lambda>omitted.
       if omitted \<noteq> [] then throw (OmittedStepError omitted) else ret ())"

definition is_process :: "step \<Rightarrow> bool" where
  "is_process st = (case st of ProcStep _ \<Rightarrow> True | ActStep _ \<Rightarrow> False)"

definition skip_remaining :: "('p, 'h, unit) ctx_act" where
  "skip_remaining = modifies (\<lambda>c. c\<lparr>consumed_ids := consumed_ids c \<union>
     set (map fst (filter (\<lambda>(sid, st). is_process st) (steps c)))\<rparr>)"

section \<open>Callbacks\<close>

datatype ctx_op =
    Process string
  | ProcessPrepared prepared_step
  | ProcessDynamic prepared_step
  | ProcessWithDeadline prepared_step execution_deadline
  | Spawn string
  | Action string
  | Progress string "rat option" "rat option option"
  | CompleteAction string
  | FinishActions
  | FailActions exn
  | FailAction string exn
  | Skip string
  | Complete
  | Consumed string
  | Prepared string
  | Planned string
  | SkipRemaining

datatype ('p, 'h) answer =
    ANone | AResult 'p | AHandle 'h | AAction prepared_action | AStep prepared_step | ABool bool

definition answer_with :: "('a \<Rightarrow> ('p, 'h) answer) \<Rightarrow> ('p, 'h, 'a) ctx_act
    \<Rightarrow> ('p, 'h, ('p, 'h) answer) ctx_act" where
  "answer_with f m = abind m (\<lambda>x. ret (f x))"

fun perform :: "ctx_op \<Rightarrow> ('p, 'h, ('p, 'h) answer) ctx_act" where
  "perform (Process sid) = answer_with AResult (process sid)"
| "perform (ProcessPrepared s) = answer_with AResult (process_prepared s)"
| "perform (ProcessDynamic s) = answer_with AResult (process_dynamic s)"
| "perform (ProcessWithDeadline s d) = answer_with AResult (process_prepared_with_deadline s d)"
| "perform (Spawn sid) = answer_with AHandle (spawn sid)"
| "perform (Action sid) = answer_with AAction (action sid)"
| "perform (Progress sid cu tu) = answer_with (\<lambda>_. ANone) (progress sid cu tu)"
| "perform (CompleteAction sid) = answer_with (\<lambda>_. ANone) (complete_action sid)"
| "perform FinishActions = answer_with (\<lambda>_. ANone) finish_actions"
| "perform (FailActions e) = answer_with (\<lambda>_. ANone) (fail_actions e)"
| "perform (FailAction sid e) = answer_with ABool (fail_action sid e)"
| "perform (Skip sid) = answer_with (\<lambda>_. ANone) (skip sid)"
| "perform Complete = answer_with (\<lambda>_. ANone) complete"
| "perform (Consumed sid) = reads (\<lambda>c. ABool (sid \<in> consumed_ids c))"
| "perform (Prepared sid) = answer_with AStep (prepared sid)"
| "perform (Planned sid) = reads (\<lambda>c. ABool (sid \<in> set (dkeys (steps c))))"
| "perform SkipRemaining = answer_with (\<lambda>_. ANone) skip_remaining"

datatype ('p, 'h, 'a) callback =
    Return 'a
  | Raise exn
  | Call ctx_op "(exn, ('p, 'h) answer) result \<Rightarrow> ('p, 'h, 'a) callback"

primrec run_callback :: "('p, 'h, 'a) callback \<Rightarrow> ('p, 'h, 'a) ctx_act" where
  "run_callback (Return x) = ret x"
| "run_callback (Raise e) = throw e"
| "run_callback (Call op k) = (\<lambda>c. let (r, c') = perform op c in run_callback (k r) c')"

section \<open>Prepared commands\<close>

record ('p, 'h, 'a) prepared_cmd =
  cmd_callback :: "('p, 'h, 'a) callback"
  cmd_steps :: "step list"
  cmd_executor :: "('p, 'h) executor"

definition prepared_command :: "('p, 'h, 'a) callback \<Rightarrow> step list \<Rightarrow> ('p, 'h) executor
    \<Rightarrow> (exn, ('p, 'h, 'a) prepared_cmd) result" where
  "prepared_command cb ss ex =
     (let identifiers = map step_id ss in
      if length identifiers \<noteq> card (set identifiers) then
        (case filter (\<lambda>i. count_list identifiers i > 1) identifiers of
           i # _ \<Rightarrow> Inl (DuplicateStepError i)
         | [] \<Rightarrow> Inl (OtherError ''StopIteration''))
      else Inr \<lparr>cmd_callback = cb, cmd_steps = ss, cmd_executor = ex\<rparr>)"

text \<open>\<^verbatim>\<open>run\<close>: the outcome and the context it leaves behind.\<close>

definition run_command :: "('p, 'h, 'a) prepared_cmd \<Rightarrow> bool \<Rightarrow> (nat \<Rightarrow> rat)
    \<Rightarrow> (exn, 'a) result \<times> ('p, 'h) run_context" where
  "run_command cmd obs clk =
     (let c = RunContext (cmd_steps cmd) (cmd_executor cmd) obs clk;
          body = abind (run_callback (cmd_callback cmd)) (\<lambda>x. aseq complete (aseq finish_actions (ret x)))
      in case body c of
           (Inr x, c') \<Rightarrow> (Inr x, c')
         | (Inl e, c') \<Rightarrow> aseq (fail_actions e) (throw e) c')"

section \<open>The ledger as a transition system\<close>

definition inert_event :: "step_event \<Rightarrow> bool" where
  "inert_event ev \<longleftrightarrow> inert_text (ev_step_id ev) \<and> inert_text (operation ev) \<and> inert_text (target ev)
     \<and> (case error ev of None \<Rightarrow> True | Some m \<Rightarrow> inert_text m)
     \<and> (case elapsed ev of None \<Rightarrow> True | Some t \<Rightarrow> 0 \<le> t)"

definition emit :: "string \<Rightarrow> step_event \<Rightarrow> ('p, 'h) run_context \<Rightarrow> ('p, 'h) run_context" where
  "emit sid ev c = (if observing c then c\<lparr>events := events c @ [(sid, ev)]\<rparr> else c)"

definition is_executed :: "launch \<Rightarrow> bool" where
  "is_executed l = (case l of Executed _ \<Rightarrow> True | _ \<Rightarrow> False)"

inductive ledger_step :: "('p, 'h) run_context \<Rightarrow> ('p, 'h) run_context \<Rightarrow> bool" where
  Tick: "ledger_step c (c\<lparr>ticks := Suc (ticks c)\<rparr>)"
| Consume: "map_of (steps c) sid \<noteq> None \<Longrightarrow> sid \<notin> consumed_ids c \<Longrightarrow>
    ledger_step c (c\<lparr>consumed_ids := insert sid (consumed_ids c)\<rparr>)"
| SkipRest: "ledger_step c (c\<lparr>consumed_ids := consumed_ids c \<union>
    set (map fst (filter (\<lambda>(sid, st). is_process st) (steps c)))\<rparr>)"
| Launch: "launch_id l \<notin> consumed_ids c \<Longrightarrow>
    map_of (steps c) (launch_id l) = Some (ProcStep (launch_step l))
      \<or> (map_of (steps c) (launch_id l) = None \<and> is_executed l) \<Longrightarrow>
    ledger_step c (c\<lparr>consumed_ids := insert (launch_id l) (consumed_ids c),
      launches := launches c @ [l]\<rparr>)"
| Result: "ledger_step c (c\<lparr>results := r\<rparr>)"
| Start: "map_of (steps c) sid = Some (ActStep a) \<Longrightarrow> sid \<notin> consumed_ids c \<Longrightarrow>
    kind ev = EStarted \<Longrightarrow> inert_event ev \<Longrightarrow>
    ledger_step c (emit sid ev (c\<lparr>consumed_ids := insert sid (consumed_ids c),
      started_actions := dset (started_actions c) sid t\<rparr>))"
| Units: "ledger_step c (c\<lparr>action_progress := u\<rparr>)"
| Report: "sid \<in> set (dkeys (started_actions c)) \<Longrightarrow> kind ev = EProgress \<Longrightarrow> inert_event ev \<Longrightarrow>
    ledger_step c (emit sid ev c)"
| Close: "sid \<in> set (dkeys (started_actions c)) \<Longrightarrow> kind ev \<in> {ECompleted, EFailed} \<Longrightarrow>
    inert_event ev \<Longrightarrow>
    ledger_step c (emit sid ev (c\<lparr>started_actions := dpop (started_actions c) sid\<rparr>))"

text \<open>The kinds of the events about one step, in order.\<close>

definition kinds :: "('p, 'h) run_context \<Rightarrow> string \<Rightarrow> event_kind list" where
  "kinds c sid = map (kind \<circ> snd) (filter (\<lambda>p. fst p = sid) (events c))"

definition open_life :: "event_kind list \<Rightarrow> bool" where
  "open_life ks \<longleftrightarrow> ks \<noteq> [] \<and> hd ks = EStarted \<and> list_all (\<lambda>k. k = EProgress) (tl ks)"

definition closed_life :: "event_kind list \<Rightarrow> bool" where
  "closed_life ks \<longleftrightarrow> ks = [] \<or> (open_life (butlast ks) \<and> last ks \<in> {ECompleted, EFailed})"

definition plan_ok :: "('p, 'h) run_context \<Rightarrow> bool" where
  "plan_ok c \<longleftrightarrow> distinct (dkeys (steps c)) \<and>
     (\<forall>sid st. map_of (steps c) sid = Some st \<longrightarrow> step_id st = sid)"

definition launches_ok :: "('p, 'h) run_context \<Rightarrow> bool" where
  "launches_ok c \<longleftrightarrow> distinct (map launch_id (launches c)) \<and> (\<forall>l\<in>set (launches c).
     launch_id l \<in> consumed_ids c \<and>
     (map_of (steps c) (launch_id l) = Some (ProcStep (launch_step l))
      \<or> (map_of (steps c) (launch_id l) = None \<and> is_executed l)))"

definition started_ok :: "('p, 'h) run_context \<Rightarrow> bool" where
  "started_ok c \<longleftrightarrow> distinct (dkeys (started_actions c)) \<and> (\<forall>sid\<in>set (dkeys (started_actions c)).
     sid \<in> consumed_ids c \<and> (\<exists>a. map_of (steps c) sid = Some (ActStep a)))"

definition events_ok :: "('p, 'h) run_context \<Rightarrow> bool" where
  "events_ok c \<longleftrightarrow> list_all (\<lambda>(sid, ev). inert_event ev) (events c) \<and>
     (if observing c then
        (\<forall>sid. (if sid \<in> set (dkeys (started_actions c)) then open_life (kinds c sid)
                else closed_life (kinds c sid))
           \<and> (kinds c sid \<noteq> [] \<longrightarrow> sid \<in> consumed_ids c))
      else events c = [])"

definition ctx_ok :: "('p, 'h) run_context \<Rightarrow> bool" where
  "ctx_ok c \<longleftrightarrow> plan_ok c \<and> launches_ok c \<and> started_ok c \<and> events_ok c"

lemma emit_sel [simp]:
  "steps (emit sid ev c) = steps c" "consumed_ids (emit sid ev c) = consumed_ids c"
  "launches (emit sid ev c) = launches c" "started_actions (emit sid ev c) = started_actions c"
  "observing (emit sid ev c) = observing c" "executor (emit sid ev c) = executor c"
  "clock (emit sid ev c) = clock c"
  by (simp_all add: emit_def)

lemma kinds_emit: "kinds (emit sid ev c) x =
    (if observing c \<and> x = sid then kinds c x @ [kind ev] else kinds c x)"
  by (simp add: kinds_def emit_def)

lemma events_emit: "events (emit sid ev c) = (if observing c then events c @ [(sid, ev)] else events c)"
  by (simp add: emit_def)

lemma kinds_upd [simp]:
  "kinds (c\<lparr>consumed_ids := v\<rparr>) = kinds c" "kinds (c\<lparr>started_actions := w\<rparr>) = kinds c"
  "kinds (c\<lparr>ticks := n\<rparr>) = kinds c" "kinds (c\<lparr>results := r\<rparr>) = kinds c"
  "kinds (c\<lparr>action_progress := u\<rparr>) = kinds c" "kinds (c\<lparr>launches := l\<rparr>) = kinds c"
  by (simp_all add: kinds_def fun_eq_iff)

lemma dkeys_dpop: "set (dkeys (dpop d k)) = set (dkeys d) - {k}"
  by (auto simp: dkeys_def dpop_def)

lemma distinct_dpop: "distinct (dkeys d) \<Longrightarrow> distinct (dkeys (dpop d k))"
  by (induction d) (auto simp: dkeys_def dpop_def)

lemma life_simps:
  "open_life [EStarted]" "\<not> open_life []" "closed_life []"
  "open_life ks \<Longrightarrow> open_life (ks @ [EProgress])"
  "open_life ks \<Longrightarrow> k \<in> {ECompleted, EFailed} \<Longrightarrow> closed_life (ks @ [k])"
  by (auto simp: open_life_def closed_life_def)

lemma plan_ok_step: "ledger_step c c' \<Longrightarrow> plan_ok c \<Longrightarrow> plan_ok c'"
  by (induction rule: ledger_step.induct) (auto simp: plan_ok_def)

lemma launches_ok_step: "ledger_step c c' \<Longrightarrow> launches_ok c \<Longrightarrow> launches_ok c'"
proof (induction rule: ledger_step.induct)
  case (Launch l c)
  from Launch.prems have "launch_id ` set (launches c) \<subseteq> consumed_ids c"
    unfolding launches_ok_def by blast
  with Launch.hyps(1) have "launch_id l \<notin> launch_id ` set (launches c)" by blast
  with Launch.prems Launch.hyps(2) show ?case unfolding launches_ok_def by simp
qed (simp_all add: launches_ok_def)

lemma started_ok_step: "ledger_step c c' \<Longrightarrow> started_ok c \<Longrightarrow> started_ok c'"
  by (induction rule: ledger_step.induct)
     (auto simp: started_ok_def distinct_dset dkeys_dset distinct_dpop dkeys_dpop)

lemma events_ok_step: "ledger_step c c' \<Longrightarrow> events_ok c \<Longrightarrow> started_ok c \<Longrightarrow> events_ok c'"
proof (induction rule: ledger_step.induct)
  case (Start c sid a ev t)
  then have "observing c \<Longrightarrow> kinds c sid = []" by (auto simp: events_ok_def)
  with Start show ?case
    by (auto simp: events_ok_def kinds_emit events_emit dkeys_dset life_simps)
next
  case (Report sid c ev)
  then show ?case by (auto simp: events_ok_def kinds_emit events_emit started_ok_def life_simps)
next
  case (Close sid c ev)
  then show ?case
    by (auto simp: events_ok_def kinds_emit events_emit started_ok_def dkeys_dpop life_simps)
qed (auto simp: events_ok_def)

lemma ctx_ok_step: "ledger_step c c' \<Longrightarrow> ctx_ok c \<Longrightarrow> ctx_ok c'"
  using plan_ok_step launches_ok_step started_ok_step events_ok_step unfolding ctx_ok_def by blast

lemma ctx_ok_steps: "ledger_step\<^sup>*\<^sup>* c c' \<Longrightarrow> ctx_ok c \<Longrightarrow> ctx_ok c'"
  by (induction rule: rtranclp_induct) (auto dest: ctx_ok_step)

lemma steps_fixed: "ledger_step\<^sup>*\<^sup>* c c' \<Longrightarrow>
    steps c' = steps c \<and> observing c' = observing c \<and> executor c' = executor c
    \<and> consumed_ids c \<subseteq> consumed_ids c'"
proof (induction rule: rtranclp_induct)
  case (step c' c'')
  from step.hyps(2) have "steps c'' = steps c' \<and> observing c'' = observing c' \<and>
      executor c'' = executor c' \<and> consumed_ids c' \<subseteq> consumed_ids c''"
    by (induction rule: ledger_step.induct) auto
  with step.IH show ?case by auto
qed simp

section \<open>Every method runs as ledger transitions\<close>

definition ledger_run :: "('p, 'h) run_context \<Rightarrow> ('p, 'h) run_context \<Rightarrow> bool" where
  "ledger_run c c' \<longleftrightarrow> (ctx_ok c \<longrightarrow> ledger_step\<^sup>*\<^sup>* c c')"

interpretation ledger: state_preorder ledger_run
  by unfold_locales (auto simp: ledger_run_def dest: ctx_ok_steps intro: rtranclp_trans)

lemma obeys_ledgerI: "(\<And>c. ctx_ok c \<Longrightarrow> ledger_step\<^sup>*\<^sup>* c (snd (m c))) \<Longrightarrow> obeys ledger_run m"
  by (simp add: obeys_def ledger_run_def)

lemma obeys_ledgerD: "obeys ledger_run m \<Longrightarrow> ctx_ok c \<Longrightarrow> ledger_step\<^sup>*\<^sup>* c (snd (m c))"
  by (simp add: obeys_def ledger_run_def)

lemma inert_or_else: "inert_text d \<Longrightarrow> (\<And>s. x = Some s \<Longrightarrow> inert_text s) \<Longrightarrow> inert_text (or_else x d)"
  by (auto simp: or_else_def split: option.splits)

lemma inert_step: "inert_text ''step''"
  by (simp add: inert_text_def is_control_def is_space_def in_range_def code_def)

lemma inert_StepEvent:
  "(case el of None \<Rightarrow> True | Some t \<Rightarrow> 0 \<le> t) \<Longrightarrow> inert_event (StepEvent sid k op tgt rc err el cu tu)"
  unfolding inert_event_def StepEvent_def Let_def
  by (auto simp: sanitize_last_error_def inert_sanitize_text inert_step intro!: inert_or_else
      split: option.splits)

lemma event_for_action_props:
  "kind (event_for_action a k rc err el cu tu) = k"
  "(case el of None \<Rightarrow> True | Some t \<Rightarrow> 0 \<le> t) \<Longrightarrow> inert_event (event_for_action a k rc err el cu tu)"
  by (simp_all add: event_for_action_def Let_def inert_StepEvent) (simp add: StepEvent_def Let_def)

lemma emit_ticks: "emit sid ev (c\<lparr>ticks := n\<rparr>) = (emit sid ev c)\<lparr>ticks := n\<rparr>"
  by (simp add: emit_def)

lemma ticks_emit [simp]: "ticks (emit sid ev c) = ticks c"
  by (simp add: emit_def)

lemma notify_emit: "notify sid ev c = (Inr (), emit sid ev c)"
  by (simp add: notify_def emit_def act_simps)

lemma report_shape:
  assumes "map_of (steps c) sid = Some (ActStep a)"
  shows "\<exists>ev. kind ev = k \<and> inert_event ev \<and>
    report sid st k rc err cu tu c = (Inr (), (emit sid ev c)\<lparr>ticks := Suc (ticks c)\<rparr>)"
proof -
  let ?ev = "event_for_action a k rc err (Some (max 0 (clock c (ticks c) - st))) cu tu"
  have "report sid st k rc err cu tu c = (Inr (), (emit sid ?ev c)\<lparr>ticks := Suc (ticks c)\<rparr>)"
    using assms by (simp add: report_def lookup_action_def abind_def monotonic_def notify_emit
        act_simps emit_ticks)
  then show ?thesis using event_for_action_props by (metis max.cobounded1 option.case(2))
qed

lemma consume_shape:
  "consume sid c = (Inr st, c') \<Longrightarrow> map_of (steps c) sid = Some st \<and> sid \<notin> consumed_ids c
     \<and> c' = c\<lparr>consumed_ids := insert sid (consumed_ids c)\<rparr>"
  "consume sid c = (Inl e, c') \<Longrightarrow> c' = c"
  by (auto simp: consume_def abind_def mark_consumed_def act_simps split: option.splits if_splits)

lemma capture_shape:
  "capture_prepared s c = (Inr s', c') \<Longrightarrow> s' = s \<and> map_of (steps c) (ps_step_id s) = Some (ProcStep s)
     \<and> ps_step_id s \<notin> consumed_ids c
     \<and> c' = c\<lparr>consumed_ids := insert (ps_step_id s) (consumed_ids c)\<rparr>"
  "capture_prepared s c = (Inl e, c') \<Longrightarrow> c' = c"
  by (auto simp: capture_prepared_def Let_def abind_def mark_consumed_def act_simps
      split: if_splits)

lemma launch_run:
  assumes "launch_id l \<notin> consumed_ids c"
    "map_of (steps c) (launch_id l) = Some (ProcStep (launch_step l))
      \<or> (map_of (steps c) (launch_id l) = None \<and> is_executed l)"
  shows "ledger_step\<^sup>*\<^sup>* c (snd (launch_with l f
      (c\<lparr>consumed_ids := insert (launch_id l) (consumed_ids c)\<rparr>)))"
  using Launch[OF assms] by (simp add: launch_with_def)

lemma launch_record_run:
  assumes "launch_id l \<notin> consumed_ids c"
    "map_of (steps c) (launch_id l) = Some (ProcStep (launch_step l))
      \<or> (map_of (steps c) (launch_id l) = None \<and> is_executed l)"
  shows "ledger_step\<^sup>*\<^sup>* c (snd (abind (launch_with l f) (record_result sid)
      (c\<lparr>consumed_ids := insert (launch_id l) (consumed_ids c)\<rparr>)))"
proof -
  let ?c = "c\<lparr>consumed_ids := insert (launch_id l) (consumed_ids c)\<rparr>"
  let ?c' = "snd (launch_with l f ?c)"
  have "ledger_step ?c' (?c'\<lparr>results := dset (results ?c') sid r\<rparr>)" for r by (rule Result)
  with launch_run[OF assms, of f]
  have "ledger_step\<^sup>*\<^sup>* c (?c'\<lparr>results := dset (results ?c') sid r\<rparr>)" for r
    by (meson rtranclp.rtrancl_into_rtrancl)
  with launch_run[OF assms, of f] show ?thesis
    by (cases "f (executor c) (launches c)")
       (simp_all add: abind_def launch_with_def record_result_def act_simps)
qed

lemma obeys_monotonic: "obeys ledger_run monotonic"
  by (rule obeys_ledgerI) (auto simp: monotonic_def intro: Tick)

lemma obeys_consume: "obeys ledger_run (consume sid)"
proof (rule obeys_ledgerI)
  fix c :: "('a, 'b) run_context"
  show "ledger_step\<^sup>*\<^sup>* c (snd (consume sid c))"
  proof (cases "consume sid c")
    case (Pair r c')
    then show ?thesis
      by (cases r) (auto dest!: consume_shape intro: Consume)
  qed
qed

lemma obeys_process_prepared: "obeys ledger_run (process_prepared s)"
proof (rule obeys_ledgerI)
  fix c :: "('a, 'b) run_context"
  show "ledger_step\<^sup>*\<^sup>* c (snd (process_prepared s c))"
  proof (cases "capture_prepared s c")
    case (Pair r c')
    show ?thesis
    proof (cases r)
      case (Inl e)
      with Pair capture_shape(2)[of s c e c'] show ?thesis
        by (simp add: process_prepared_def abind_def)
    next
      case (Inr s')
      with Pair capture_shape(1)[of s c s' c'] show ?thesis
        using launch_record_run[of "Executed s" c]
        by (simp add: process_prepared_def abind_simps(2)[of "capture_prepared s" c])
    qed
  qed
qed

lemma obeys_process_with_deadline: "obeys ledger_run (process_prepared_with_deadline s d)"
proof (rule obeys_ledgerI)
  fix c :: "('a, 'b) run_context"
  show "ledger_step\<^sup>*\<^sup>* c (snd (process_prepared_with_deadline s d c))"
  proof (cases "exec_deadline (executor c)")
    case None
    then show ?thesis by (simp add: process_prepared_with_deadline_def abind_def act_simps)
  next
    case (Some run)
    obtain r c' where cap: "capture_prepared s c = (r, c')" by force
    show ?thesis
    proof (cases r)
      case (Inl e)
      with Some cap capture_shape(2)[of s c e c'] show ?thesis
        by (simp add: process_prepared_with_deadline_def abind_def act_simps)
    next
      case (Inr s')
      with Some cap capture_shape(1)[of s c s' c'] show ?thesis
        using launch_record_run[of "ExecutedUntil s d" c]
        by (simp add: process_prepared_with_deadline_def act_simps
            abind_simps(2)[of "reads (exec_deadline \<circ> executor)" c]
            abind_simps(2)[of "capture_prepared s" c])
    qed
  qed
qed

lemma obeys_process_dynamic: "obeys ledger_run (process_dynamic s)"
proof (rule obeys_ledgerI)
  fix c :: "('a, 'b) run_context"
  show "ledger_step\<^sup>*\<^sup>* c (snd (process_dynamic s c))"
    using launch_record_run[of "Executed s" c]
    by (auto simp: process_dynamic_def Let_def act_simps mark_consumed_def is_executed_def
        abind_simps(2)[OF reads_def] abind_simps(2)[OF modifies_def])
qed

lemma obeys_spawn: "obeys ledger_run (spawn sid)"
proof (rule obeys_ledgerI)
  fix c :: "('a, 'b) run_context"
  assume ok: "ctx_ok c"
  obtain r c' where con: "consume sid c = (r, c')" by force
  show "ledger_step\<^sup>*\<^sup>* c (snd (spawn sid c))"
  proof (cases r)
    case (Inl e)
    with con consume_shape(2)[of sid c e c'] show ?thesis by (simp add: spawn_def abind_def)
  next
    case (Inr st)
    note sh = consume_shape(1)[OF con[unfolded Inr]]
    have sp: "snd (spawn sid c) = (case st of
        ProcStep s \<Rightarrow> snd (launch_with (Spawned s) (\<lambda>ex ls. exec_spawn ex ls s) c')
      | ActStep a \<Rightarrow> c')"
      using con Inr by (simp add: spawn_def abind_def act_simps split: step.splits)
    show ?thesis
    proof (cases st)
      case (ProcStep s)
      from sh ok ProcStep have "ps_step_id s = sid"
        unfolding ctx_ok_def plan_ok_def by (metis step_id.simps(1))
      with sh ProcStep sp show ?thesis using launch_run[of "Spawned s" c] by simp
    next
      case (ActStep a)
      with sh sp show ?thesis by (auto intro!: r_into_rtranclp Consume)
    qed
  qed
qed

lemma obeys_action: "obeys ledger_run (action sid)"
proof (rule obeys_ledgerI)
  fix c :: "('a, 'b) run_context"
  assume ok: "ctx_ok c"
  obtain r c' where con: "consume sid c = (r, c')" by force
  show "ledger_step\<^sup>*\<^sup>* c (snd (action sid c))"
  proof (cases r)
    case (Inl e)
    with con consume_shape(2)[of sid c e c'] show ?thesis by (simp add: action_def abind_def)
  next
    case (Inr st)
    note sh = consume_shape(1)[OF con[unfolded Inr]]
    show ?thesis
    proof (cases st)
      case (ProcStep s)
      with sh con Inr show ?thesis by (auto simp: action_def abind_def act_simps intro: Consume)
    next
      case (ActStep a)
      from sh ok ActStep have sid: "pa_step_id a = sid"
        unfolding ctx_ok_def plan_ok_def by (metis step_id.simps(2))
      let ?ev = "event_for_action a EStarted None None (Some 0) None None"
      let ?c1 = "emit sid ?ev (c\<lparr>consumed_ids := insert sid (consumed_ids c),
          started_actions := dset (started_actions c) sid (clock c (ticks c))\<rparr>)"
      have "snd (action sid c) = ?c1\<lparr>ticks := Suc (ticks ?c1)\<rparr>"
        using sh con Inr ActStep sid
        by (simp add: action_def abind_def act_simps monotonic_def notify_emit) (simp add: emit_def)
      moreover have "ledger_step c ?c1"
        using sh ActStep by (intro Start) (auto simp: event_for_action_props)
      ultimately show ?thesis using Tick[of ?c1] by (metis converse_rtranclp_into_rtranclp r_into_rtranclp)
    qed
  qed
qed

lemma started_action_step:
  assumes "ctx_ok c" "map_of (started_actions c) sid = Some t"
  shows "sid \<in> set (dkeys (started_actions c)) \<and> (\<exists>a. map_of (steps c) sid = Some (ActStep a))"
proof -
  from assms(2) have "sid \<in> set (dkeys (started_actions c))" by (metis map_of_None_dkeys option.distinct(1))
  with assms(1) show ?thesis by (auto simp: ctx_ok_def started_ok_def)
qed

lemma progress_run:
  assumes "ctx_ok c" "map_of (started_actions c) sid = Some t"
  shows "ledger_step\<^sup>*\<^sup>* c (snd (aseq
    (modifies (\<lambda>c. c\<lparr>action_progress := dset (action_progress c) sid v\<rparr>))
    (report sid t EProgress None None cu tu) c))"
proof -
  let ?c1 = "c\<lparr>action_progress := dset (action_progress c) sid v\<rparr>"
  from started_action_step[OF assms] obtain a where
    a: "sid \<in> set (dkeys (started_actions ?c1))" "map_of (steps ?c1) sid = Some (ActStep a)" by auto
  from report_shape[OF a(2)] obtain ev where ev: "kind ev = EProgress" "inert_event ev"
    "report sid t EProgress None None cu tu ?c1 = (Inr (), (emit sid ev ?c1)\<lparr>ticks := Suc (ticks ?c1)\<rparr>)"
    by blast
  have "ledger_step c ?c1" by (rule Units)
  moreover have "ledger_step ?c1 (emit sid ev ?c1)" using a(1) ev(1,2) by (rule Report)
  moreover have "ledger_step (emit sid ev ?c1) ((emit sid ev ?c1)\<lparr>ticks := Suc (ticks ?c1)\<rparr>)"
    using Tick[of "emit sid ev ?c1"] by simp
  ultimately have "ledger_step\<^sup>*\<^sup>* c ((emit sid ev ?c1)\<lparr>ticks := Suc (ticks ?c1)\<rparr>)"
    by (meson converse_rtranclp_into_rtranclp r_into_rtranclp)
  then show ?thesis using ev(3) by (simp add: act_simps abind_def)
qed

lemma obeys_progress: "obeys ledger_run (progress sid cu tu)"
proof (rule obeys_ledgerI)
  fix c :: "('a, 'b) run_context"
  assume ok: "ctx_ok c"
  show "ledger_step\<^sup>*\<^sup>* c (snd (progress sid cu tu c))"
  proof (cases "map_of (started_actions c) sid")
    case None
    then show ?thesis by (simp add: progress_def abind_def act_simps)
  next
    case (Some t)
    have *: "progress sid cu tu c = (case cu of
        None \<Rightarrow> throw (ValueError ''completed_units must be a non-negative number'') c
      | Some u \<Rightarrow>
          if u < 0 then throw (ValueError ''completed_units must be a non-negative number'') c
          else (case tu of
              None \<Rightarrow> aseq
                (modifies (\<lambda>c. c\<lparr>action_progress := dset (action_progress c) sid (u, None)\<rparr>))
                (report sid t EProgress None None (Some u) None) c
            | Some None \<Rightarrow> throw
                (ValueError ''total_units must be greater than or equal to completed_units'') c
            | Some (Some v) \<Rightarrow>
                if v < 0 \<or> v < u then throw
                  (ValueError ''total_units must be greater than or equal to completed_units'') c
                else aseq
                  (modifies (\<lambda>c. c\<lparr>action_progress := dset (action_progress c) sid (u, Some v)\<rparr>))
                  (report sid t EProgress None None (Some u) (Some v)) c))"
      using Some by (simp add: progress_def abind_def reads_def split: option.splits)
    show ?thesis
      unfolding * using progress_run[OF ok Some] by (simp add: throw_def split: option.splits)
  qed
qed

section \<open>Closing the open actions\<close>

text \<open>What both ways of closing an action do to a well-formed context.\<close>

locale action_closer =
  fixes close :: "string \<Rightarrow> ('p, 'h, unit) ctx_act"
  assumes absent: "map_of (started_actions c) sid = None \<Longrightarrow> \<exists>r. close sid c = (r, c)"
    and closes: "ctx_ok c \<Longrightarrow> map_of (started_actions c) sid = Some t \<Longrightarrow>
      \<exists>c'. close sid c = (Inr (), c') \<and> ledger_step\<^sup>*\<^sup>* c c' \<and>
        started_actions c' = dpop (started_actions c) sid \<and> consumed_ids c' = consumed_ids c"
begin

lemma obeys_close: "obeys ledger_run (close sid)"
proof (rule obeys_ledgerI)
  fix c :: "('p, 'h) run_context"
  assume ok: "ctx_ok c"
  show "ledger_step\<^sup>*\<^sup>* c (snd (close sid c))"
  proof (cases "map_of (started_actions c) sid")
    case None
    with absent[of c sid] show ?thesis by auto
  next
    case (Some t)
    with closes[OF ok this] show ?thesis by auto
  qed
qed

lemma close_all:
  assumes "ctx_ok c" "distinct xs" "set xs \<subseteq> set (dkeys (started_actions c))"
  shows "\<exists>c'. for_each close xs c = (Inr (), c') \<and> ledger_step\<^sup>*\<^sup>* c c' \<and>
    set (dkeys (started_actions c')) = set (dkeys (started_actions c)) - set xs \<and>
    consumed_ids c' = consumed_ids c"
  using assms
proof (induction xs arbitrary: c)
  case Nil
  then show ?case by (simp add: ret_def)
next
  case (Cons x xs)
  then obtain t where "map_of (started_actions c) x = Some t"
    by (metis list.set_intros(1) map_of_None_dkeys not_None_eq subsetD)
  from closes[OF Cons.prems(1) this] obtain c1 where c1: "close x c = (Inr (), c1)"
    "ledger_step\<^sup>*\<^sup>* c c1" "started_actions c1 = dpop (started_actions c) x"
    "consumed_ids c1 = consumed_ids c" by blast
  moreover from c1 Cons.prems have "ctx_ok c1" "distinct xs"
    "set xs \<subseteq> set (dkeys (started_actions c1))"
    by (auto simp: dkeys_dpop dest: ctx_ok_steps)
  from Cons.IH[OF this] obtain c' where "for_each close xs c1 = (Inr (), c')"
    "ledger_step\<^sup>*\<^sup>* c1 c'" "consumed_ids c' = consumed_ids c1"
    "set (dkeys (started_actions c')) = set (dkeys (started_actions c1)) - set xs" by blast
  ultimately show ?case
    by (intro exI[of _ c']) (auto simp: aseq_def abind_def dkeys_dpop intro: rtranclp_trans)
qed

lemma close_started:
  assumes "ctx_ok c"
  shows "\<exists>c'. abind (reads (dkeys \<circ> started_actions)) (for_each close) c = (Inr (), c') \<and>
    ledger_step\<^sup>*\<^sup>* c c' \<and> started_actions c' = [] \<and> consumed_ids c' = consumed_ids c"
proof -
  from assms have "distinct (dkeys (started_actions c))" by (simp add: ctx_ok_def started_ok_def)
  from close_all[OF assms this] obtain c' where
    "for_each close (dkeys (started_actions c)) c = (Inr (), c')" "ledger_step\<^sup>*\<^sup>* c c'"
    "set (dkeys (started_actions c')) = {}" "consumed_ids c' = consumed_ids c" by auto
  then show ?thesis by (simp add: abind_def reads_def dkeys_def)
qed

lemma obeys_close_started: "obeys ledger_run (abind (reads (dkeys \<circ> started_actions)) (for_each close))"
  by (intro ledger.obeys_rules obeys_close)

end

lemma close_run:
  assumes "ctx_ok c" "map_of (started_actions c) sid = Some t" "k \<in> {ECompleted, EFailed}"
  defines "c1 \<equiv> c\<lparr>started_actions := dpop (started_actions c) sid,
    action_progress := dpop (action_progress c) sid\<rparr>"
  shows "\<exists>c'. report sid t k rc err cu tu c1 = (Inr (), c') \<and> ledger_step\<^sup>*\<^sup>* c c' \<and>
    started_actions c' = dpop (started_actions c) sid \<and> consumed_ids c' = consumed_ids c"
proof -
  from started_action_step[OF assms(1,2)] obtain a where
    a: "sid \<in> set (dkeys (started_actions c))" "map_of (steps c1) sid = Some (ActStep a)"
    by (auto simp: c1_def)
  from report_shape[OF a(2)] obtain ev where ev: "kind ev = k" "inert_event ev"
    "report sid t k rc err cu tu c1 = (Inr (), (emit sid ev c1)\<lparr>ticks := Suc (ticks c1)\<rparr>)"
    by blast
  let ?c2 = "emit sid ev (c\<lparr>started_actions := dpop (started_actions c) sid\<rparr>)"
  have eq: "?c2\<lparr>action_progress := dpop (action_progress c) sid\<rparr> = emit sid ev c1"
    by (simp add: emit_def c1_def)
  have "ledger_step c ?c2" using a(1) assms(3) ev(1,2) by (intro Close) auto
  moreover have "ledger_step ?c2 (emit sid ev c1)" unfolding eq[symmetric] by (rule Units)
  moreover have "ledger_step (emit sid ev c1) ((emit sid ev c1)\<lparr>ticks := Suc (ticks c1)\<rparr>)"
    using Tick[of "emit sid ev c1"] by simp
  ultimately have "ledger_step\<^sup>*\<^sup>* c ((emit sid ev c1)\<lparr>ticks := Suc (ticks c1)\<rparr>)"
    by (meson converse_rtranclp_into_rtranclp r_into_rtranclp)
  then show ?thesis using ev(3) by (simp add: c1_def)
qed

lemma dpop_absent: "map_of d k = None \<Longrightarrow> dpop d k = d"
  by (induction d) (auto simp: dpop_def split: if_splits)

interpretation completer: action_closer complete_action
proof
  fix c :: "('p, 'h) run_context" and sid
  assume "map_of (started_actions c) sid = None"
  then show "\<exists>r. complete_action sid c = (r, c)"
    by (simp add: complete_action_def abind_def pop_started_def dpop_absent throw_def)
next
  fix c :: "('p, 'h) run_context" and sid t
  assume a: "ctx_ok c" "map_of (started_actions c) sid = Some t"
  show "\<exists>c'. complete_action sid c = (Inr (), c') \<and> ledger_step\<^sup>*\<^sup>* c c' \<and>
        started_actions c' = dpop (started_actions c) sid \<and> consumed_ids c' = consumed_ids c"
    using close_run[OF a, of ECompleted] a(2)
    by (simp add: complete_action_def abind_def pop_started_def pop_progress_def)
qed

abbreviation fail_unit :: "exn \<Rightarrow> string \<Rightarrow> ('p, 'h, unit) ctx_act" where
  "fail_unit e sid \<equiv> abind (fail_action sid e) (\<lambda>_. ret ())"

interpretation failer: action_closer "fail_unit e" for e
proof
  fix c :: "('p, 'h) run_context" and sid
  assume "map_of (started_actions c) sid = None"
  then show "\<exists>r. fail_unit e sid c = (r, c)"
    by (simp add: fail_action_def abind_def pop_started_def dpop_absent ret_def)
next
  fix c :: "('p, 'h) run_context" and sid t
  assume a: "ctx_ok c" "map_of (started_actions c) sid = Some t"
  from close_run[OF a, of EFailed None
      "Some (or_else (sanitize_event_message (Some (str_exn e))) ''interrupted'')" None None]
  show "\<exists>c'. fail_unit e sid c = (Inr (), c') \<and> ledger_step\<^sup>*\<^sup>* c c' \<and>
        started_actions c' = dpop (started_actions c) sid \<and> consumed_ids c' = consumed_ids c"
    using a(2) by (auto simp: fail_action_def abind_def pop_started_def pop_progress_def act_simps)
qed

section \<open>Runs\<close>

lemma obeys_skip_remaining: "obeys ledger_run skip_remaining"
  unfolding skip_remaining_def modifies_def
  by (rule obeys_ledgerI, simp only: snd_conv, rule r_into_rtranclp, rule SkipRest)

lemma obeys_complete: "obeys ledger_run complete"
  unfolding complete_def by (intro ledger.obeys_rules) (simp add: ledger.obeys_throw ledger.obeys_ret)

lemma obeys_prepared: "obeys ledger_run (prepared sid)"
  unfolding prepared_def
  by (intro ledger.obeys_rules) (simp add: ledger.obeys_throw ledger.obeys_ret split: option.split step.split)

lemma obeys_fail_action: "obeys ledger_run (fail_action sid e)"
proof (rule obeys_ledgerI)
  fix c :: "('a, 'b) run_context"
  assume "ctx_ok c"
  then have "ledger_step\<^sup>*\<^sup>* c (snd (fail_unit e sid c))" by (rule obeys_ledgerD[OF failer.obeys_close])
  then show "ledger_step\<^sup>*\<^sup>* c (snd (fail_action sid e c))"
    by (cases "fail_action sid e c"; cases "fst (fail_action sid e c)")
       (simp_all add: abind_def ret_def)
qed

lemma obeys_process: "obeys ledger_run (process sid)"
  unfolding process_def by (intro ledger.obeys_bind obeys_prepared obeys_process_prepared)

lemma obeys_skip: "obeys ledger_run (skip sid)"
  unfolding skip_def by (intro ledger.obeys_bind ledger.obeys_ret obeys_consume)

lemmas obeys_ops = obeys_process obeys_skip obeys_monotonic obeys_consume obeys_process_prepared obeys_process_dynamic
  obeys_process_with_deadline obeys_spawn obeys_action obeys_progress obeys_skip_remaining
  obeys_complete obeys_prepared obeys_fail_action completer.obeys_close
  completer.obeys_close_started failer.obeys_close_started

lemma obeys_answer_with: "obeys ledger_run m \<Longrightarrow> obeys ledger_run (answer_with f m)"
  unfolding answer_with_def by (intro ledger.obeys_bind ledger.obeys_ret)

lemma obeys_perform: "obeys ledger_run (perform op)"
proof (cases op)
  case FinishActions
  then show ?thesis
    by (simp add: completer.obeys_close_started obeys_answer_with finish_actions_def)
next
  case (FailActions e)
  then show ?thesis
    by (simp add: failer.obeys_close_started obeys_answer_with fail_actions_def)
qed (simp_all add: obeys_answer_with obeys_ops ledger.obeys_reads)

lemma obeys_run_callback:
  fixes cb :: "('p, 'h, 'a) callback"
  shows "obeys ledger_run (run_callback cb)"
proof (induction cb)
  case (Call op k)
  show ?case
    unfolding obeys_def
  proof
    fix c :: "('p, 'h) run_context"
    obtain r c' where p: "perform op c = (r, c')" by force
    have "ledger_run c c'" using obeys_perform[of op] p unfolding obeys_def by (metis snd_conv)
    moreover have "ledger_run c' (snd (run_callback (k r) c'))" using Call by (simp add: obeys_def)
    ultimately show "ledger_run c (snd (run_callback (Call op k) c))"
      using p ledger.trans by simp
  qed
qed (simp_all add: ledger.obeys_ret ledger.obeys_throw)

lemma map_of_step_dict:
  "map_of (fold (\<lambda>s d. dset d (step_id s) s) ss d) sid = Some st \<Longrightarrow>
     (st \<in> set ss \<and> step_id st = sid) \<or> map_of d sid = Some st"
  by (induction ss arbitrary: d) (fastforce split: if_splits)+

lemma dkeys_step_dict:
  "set (dkeys (fold (\<lambda>s d. dset d (step_id s) s) ss d)) = set (dkeys d) \<union> step_id ` set ss"
  by (induction ss arbitrary: d) (auto simp: dkeys_dset)

lemma distinct_step_dict:
  "distinct (dkeys d) \<Longrightarrow> distinct (dkeys (fold (\<lambda>s d. dset d (step_id s) s) ss d))"
  by (induction ss arbitrary: d) (auto simp: distinct_dset)

lemma RunContext_ok: "ctx_ok (RunContext ss ex obs clk)"
proof -
  have "step_id st = sid"
    if "map_of (fold (\<lambda>s d. dset d (step_id s) s) ss []) sid = Some st" for sid st
    using map_of_step_dict[OF that] by simp
  then have "plan_ok (RunContext ss ex obs clk)"
    unfolding plan_ok_def RunContext_def run_context.simps
    using distinct_step_dict[of "[]" ss] by (auto simp only: dkeys_def list.map distinct.simps)
  then show ?thesis
    by (simp add: ctx_ok_def launches_ok_def started_ok_def events_ok_def kinds_def
        closed_life_def RunContext_def dkeys_def)
qed

text \<open>What a run does after its callback, on each outcome.\<close>

lemma complete_eq:
  "complete c = (if set (dkeys (steps c)) \<subseteq> consumed_ids c then (Inr (), c)
     else (Inl (OmittedStepError
       (sort (filter (\<lambda>sid. sid \<notin> consumed_ids c) (dkeys (steps c))))), c))"
proof -
  let ?f = "sort (filter (\<lambda>sid. sid \<notin> consumed_ids c) (dkeys (steps c)))"
  have "?f = [] \<longleftrightarrow> set ?f = {}" by (simp only: set_empty)
  also have "\<dots> \<longleftrightarrow> set (dkeys (steps c)) \<subseteq> consumed_ids c" by auto
  finally show ?thesis by (simp add: complete_def abind_def act_simps)
qed

lemma run_command_cases:
  assumes "run_callback (cmd_callback cmd) (RunContext (cmd_steps cmd) (cmd_executor cmd) obs clk) = (r, c1)"
  shows "\<exists>c. ledger_step\<^sup>*\<^sup>* c1 c \<and> started_actions c = [] \<and> consumed_ids c = consumed_ids c1 \<and>
    run_command cmd obs clk =
      (case r of Inl e \<Rightarrow> Inl e
       | Inr x \<Rightarrow> if set (dkeys (steps c1)) \<subseteq> consumed_ids c1 then Inr x
           else Inl (OmittedStepError
             (sort (filter (\<lambda>sid. sid \<notin> consumed_ids c1) (dkeys (steps c1))))), c)"
proof -
  have ok: "ctx_ok c1"
    using obeys_ledgerD[OF obeys_run_callback RunContext_ok] ctx_ok_steps[OF _ RunContext_ok] assms
    by (metis snd_conv)
  show ?thesis
  proof (cases r)
    case (Inl e)
    with failer.close_started[OF ok, of e] assms show ?thesis
      by (auto simp: run_command_def Let_def abind_def act_simps fail_actions_def)
  next
    case (Inr x)
    show ?thesis
    proof (cases "set (dkeys (steps c1)) \<subseteq> consumed_ids c1")
      case True
      with Inr completer.close_started[OF ok] assms show ?thesis
        by (auto simp: run_command_def Let_def abind_def act_simps finish_actions_def complete_eq)
    next
      case False
      with Inr failer.close_started[OF ok, of "OmittedStepError
          (sort (filter (\<lambda>sid. sid \<notin> consumed_ids c1) (dkeys (steps c1))))"] assms
      show ?thesis
        by (auto simp: run_command_def Let_def abind_def act_simps fail_actions_def complete_eq)
    qed
  qed
qed

lemma run_command_reach:
  assumes "run_command cmd obs clk = (r, c)"
  shows "ledger_step\<^sup>*\<^sup>* (RunContext (cmd_steps cmd) (cmd_executor cmd) obs clk) c \<and> started_actions c = []"
proof -
  obtain r1 c1 where cb: "run_callback (cmd_callback cmd)
      (RunContext (cmd_steps cmd) (cmd_executor cmd) obs clk) = (r1, c1)" by force
  from run_command_cases[OF cb] assms
  have "ledger_step\<^sup>*\<^sup>* c1 c" "started_actions c = []" by auto
  moreover have "ledger_step\<^sup>*\<^sup>* (RunContext (cmd_steps cmd) (cmd_executor cmd) obs clk)
      (snd (run_callback (cmd_callback cmd) (RunContext (cmd_steps cmd) (cmd_executor cmd) obs clk)))"
    by (rule obeys_ledgerD[OF obeys_run_callback RunContext_ok])
  ultimately show ?thesis using cb by (simp add: rtranclp_trans)
qed

lemma length_card_distinct: "length xs \<noteq> card (set xs) \<longleftrightarrow> \<not> distinct xs"
  using card_distinct[of xs] distinct_card[of xs] by force

lemma prepared_command_Inr:
  "prepared_command cb ss ex = Inr cmd \<longleftrightarrow>
     distinct (map step_id ss) \<and> cmd = \<lparr>cmd_callback = cb, cmd_steps = ss, cmd_executor = ex\<rparr>"
  unfolding prepared_command_def Let_def length_card_distinct
  by (cases "distinct (map step_id ss)") (auto split: list.split)

text \<open>
  A concrete command for the witnesses: a logical action, one planned process that the callback
  asks for twice (the second request is refused and caught), and a process found at run time.
\<close>

definition sample_step :: "string \<Rightarrow> prepared_step" where
  "sample_step sid = \<lparr>ps_step_id = sid, argv = [''git'', ''status''], sensitive_argv_indices = [],
     cwd = None, environment = [], environment_snapshot = [], environment_overrides = [],
     environment_policy = ''sanitized-inherit'', stdin = None, wrapper_nonce = None,
     secret_config_path = None, public_input_preview = None, timeout = None,
     max_output_bytes = None, max_combined_output_bytes = None, mode = ''captured'',
     secret_values = [], ps_read_only = True, ps_mutating = False, interactive = False,
     long_running = False, text_mode = True, start_new_session = False, inherit_stdio = False,
     private_stdout_value_free = False\<rparr>"

definition sample_plan :: "step list" where
  "sample_plan = [ActStep \<lparr>pa_step_id = ''w'', pa_action = [], description = ''x'', details = JNull,
      pa_read_only = False, pa_mutating = True\<rparr>, ProcStep (sample_step ''g'')]"

definition sample_executor :: "(nat, unit) executor" where
  "sample_executor = \<lparr>exec = \<lambda>ls s. Inr (length ls), exec_spawn = \<lambda>ls s. Inr (),
     exec_deadline = None\<rparr>"

definition sample_callback :: "(nat, unit, nat) callback" where
  "sample_callback = Call (Action ''w'') (\<lambda>_. Call (Process ''g'') (\<lambda>_. Call (Process ''g'')
     (\<lambda>_. Call (ProcessDynamic (sample_step ''d'')) (\<lambda>r.
       case r of Inr (AResult n) \<Rightarrow> Return n | _ \<Rightarrow> Raise (OtherError ''x'')))))"

definition sample_cmd :: "(nat, unit, nat) prepared_cmd" where
  "sample_cmd = \<lparr>cmd_callback = sample_callback, cmd_steps = sample_plan,
     cmd_executor = sample_executor\<rparr>"

lemmas sample_defs = sample_cmd_def sample_callback_def sample_plan_def sample_step_def
  sample_executor_def

lemmas run_simps = RunContext_def run_command_def Let_def abind_def act_simps mark_consumed_def
  consume_def capture_prepared_def process_prepared_def process_dynamic_def process_def prepared_def
  action_def monotonic_def notify_def launch_with_def record_result_def answer_with_def
  complete_def finish_actions_def complete_action_def pop_started_def pop_progress_def report_def
  lookup_action_def dkeys_def dpop_def

lemma sample_prepared: "prepared_command sample_callback sample_plan sample_executor = Inr sample_cmd"
  by (simp add: prepared_command_def sample_cmd_def sample_plan_def sample_step_def Let_def)

text \<open>
  C1: Whatever the callback does, one run of a prepared command starts no step twice, and every
  process it starts is exactly a captured step of the plan or a step discovered at run time whose
  identifier is not in the plan.
\<close>

theorem run_launches_planned:
  assumes "prepared_command cb ss ex = Inr cmd" "run_command cmd obs clk = (r, c)"
  shows "distinct (map launch_id (launches c)) \<and>
    list_all (\<lambda>l. ProcStep (launch_step l) \<in> set ss
      \<or> (launch_id l \<notin> step_id ` set ss \<and> is_executed l)) (launches c)"
proof -
  let ?d = "fold (\<lambda>s d. dset d (step_id s) s) ss []"
  from assms have cmd: "cmd_steps cmd = ss" by (simp add: prepared_command_Inr)
  from run_command_reach[OF assms(2)] have r: "ledger_step\<^sup>*\<^sup>* (RunContext ss (cmd_executor cmd) obs clk) c"
    using cmd by simp
  from ctx_ok_steps[OF r RunContext_ok] have ok: "launches_ok c" by (simp add: ctx_ok_def)
  from steps_fixed[OF r] have d: "steps c = ?d" by (simp add: RunContext_def)
  have "ProcStep (launch_step l) \<in> set ss \<or> (launch_id l \<notin> step_id ` set ss \<and> is_executed l)"
    if "l \<in> set (launches c)" for l
  proof -
    from that ok d consider "map_of ?d (launch_id l) = Some (ProcStep (launch_step l))"
      | "map_of ?d (launch_id l) = None" "is_executed l"
      unfolding launches_ok_def by auto
    then show ?thesis
    proof cases
      case 1
      from map_of_step_dict[OF 1] show ?thesis by simp
    next
      case 2
      then show ?thesis using dkeys_step_dict[of ss "[]"] by (simp add: map_of_None_dkeys dkeys_def)
    qed
  qed
  with ok show ?thesis by (simp add: launches_ok_def list_all_iff)
qed

theorem run_launches_planned_witness:
  "map launch_id (launches (snd (run_command sample_cmd False (\<lambda>_. 0)))) = [''g'', ''d''] \<and>
   distinct (map launch_id (launches (snd (run_command sample_cmd False (\<lambda>_. 0)))))"
proof -
  have "map launch_id (launches (snd (run_command sample_cmd False (\<lambda>_. 0)))) = [''g'', ''d'']"
    by (simp add: sample_defs run_simps)
  with run_launches_planned[OF sample_prepared surjective_pairing] show ?thesis by blast
qed

text \<open>
  C2: A run returns a value only if its callback returned it and every captured step was accounted
  for. A callback that leaves steps unaccounted makes the run raise an omission error naming
  exactly those steps, sorted and without repetition, and an exception of the callback passes
  through unchanged.
\<close>

theorem run_outcome:
  assumes "prepared_command cb ss ex = Inr cmd"
    "run_callback cb (RunContext ss ex obs clk) = (r, c1)"
  shows "fst (run_command cmd obs clk) = (case r of Inl e \<Rightarrow> Inl e
      | Inr x \<Rightarrow> if step_id ` set ss \<subseteq> consumed_ids c1 then Inr x
          else Inl (OmittedStepError (sorted_list_of_set (step_id ` set ss - consumed_ids c1))))"
proof -
  let ?c0 = "RunContext ss ex obs clk"
  from assms have cmd: "cmd = \<lparr>cmd_callback = cb, cmd_steps = ss, cmd_executor = ex\<rparr>"
    by (simp add: prepared_command_Inr)
  have r: "ledger_step\<^sup>*\<^sup>* ?c0 c1"
    using obeys_ledgerD[OF obeys_run_callback RunContext_ok] assms(2) by (metis snd_conv)
  from ctx_ok_steps[OF r RunContext_ok] have d: "distinct (dkeys (steps c1))"
    by (simp add: ctx_ok_def plan_ok_def)
  have keys: "set (dkeys (steps c1)) = step_id ` set ss"
    using steps_fixed[OF r] dkeys_step_dict[of ss "[]"] by (simp add: RunContext_def dkeys_def)
  let ?f = "filter (\<lambda>sid. sid \<notin> consumed_ids c1) (dkeys (steps c1))"
  have "distinct ?f" using d by simp
  then have "sort ?f = sorted_list_of_set (set ?f)"
    by (simp only: sorted_list_of_set_sort_remdups distinct_remdups_id)
  also have "set ?f = step_id ` set ss - consumed_ids c1" using keys by auto
  finally have om: "sort ?f = sorted_list_of_set (step_id ` set ss - consumed_ids c1)" .
  have cb: "run_callback (cmd_callback cmd) (RunContext (cmd_steps cmd) (cmd_executor cmd) obs clk)
      = (r, c1)" using assms(2) cmd by simp
  from run_command_cases[OF cb, unfolded keys om] show ?thesis by auto
qed

theorem run_outcome_witness:
  "fst (run_command sample_cmd False (\<lambda>_. 0)) = Inr 1 \<and>
   fst (run_command \<lparr>cmd_callback = Return 5, cmd_steps = sample_plan, cmd_executor = sample_executor\<rparr>
     False (\<lambda>_. 0)) = Inl (OmittedStepError [''g'', ''w''])"
proof -
  have c: "step_id ` set sample_plan = {''g'', ''w''}"
    by (auto simp: sample_plan_def sample_step_def)
  have "fst (run_callback sample_callback (RunContext sample_plan sample_executor False (\<lambda>_. 0))) = Inr 1"
    by (simp add: sample_defs run_simps)
  moreover have "step_id ` set sample_plan \<subseteq> consumed_ids
      (snd (run_callback sample_callback (RunContext sample_plan sample_executor False (\<lambda>_. 0))))"
    by (simp add: sample_defs run_simps)
  ultimately have "fst (run_command sample_cmd False (\<lambda>_. 0)) = Inr 1"
    using run_outcome[OF sample_prepared surjective_pairing, of False "\<lambda>_. 0"] by simp
  moreover have "prepared_command (Return 5) sample_plan sample_executor =
      Inr \<lparr>cmd_callback = Return 5, cmd_steps = sample_plan, cmd_executor = sample_executor\<rparr>"
    by (simp add: prepared_command_def sample_plan_def sample_step_def Let_def)
  from run_outcome[OF this surjective_pairing, of False "\<lambda>_. 0"]
  have "fst (run_command \<lparr>cmd_callback = Return 5, cmd_steps = sample_plan,
      cmd_executor = sample_executor\<rparr> False (\<lambda>_. 0)) = Inl (OmittedStepError [''g'', ''w''])"
    by (simp add: c ret_def RunContext_def)
  ultimately show ?thesis by simp
qed



lemma count_list_distinct: "distinct xs \<longleftrightarrow> (\<forall>i\<in>set xs. count_list xs i \<le> 1)"
proof (induction xs)
  case (Cons x xs)
  have "x \<notin> set xs \<longleftrightarrow> count_list xs x = 0" by (simp add: count_list_0_iff)
  moreover have "(\<forall>i\<in>set (x # xs). count_list (x # xs) i \<le> 1) \<longleftrightarrow>
      count_list xs x = 0 \<and> (\<forall>i\<in>set xs. i \<noteq> x \<longrightarrow> count_list xs i \<le> 1)" by auto
  ultimately show ?case using Cons by (metis distinct.simps(2) zero_le)
qed simp

text \<open>
  Preparing a command rejects a plan with a repeated identifier, naming the first identifier of
  the plan that occurs again, and accepts every other plan unchanged.
\<close>

theorem prepared_command_duplicate:
  "prepared_command cb ss ex =
     (case find (\<lambda>i. count_list (map step_id ss) i > 1) (map step_id ss) of
        Some i \<Rightarrow> Inl (DuplicateStepError i)
      | None \<Rightarrow> Inr \<lparr>cmd_callback = cb, cmd_steps = ss, cmd_executor = ex\<rparr>)"
proof -
  let ?ids = "map step_id ss"
  have f: "find P xs = (case filter P xs of [] \<Rightarrow> None | i # _ \<Rightarrow> Some i)" for P and xs :: "string list"
    by (induction xs) auto
  have "find (\<lambda>i. count_list ?ids i > 1) ?ids = None \<longleftrightarrow> distinct ?ids"
    using count_list_distinct[of ?ids] by (fastforce simp: find_None_iff not_less)
  then show ?thesis
    unfolding prepared_command_def Let_def length_card_distinct f
    by (cases "distinct ?ids") (auto split: list.splits)
qed

end
