(* ===== verification/Module_Order.thy ===== *)
theory Module_Order
  imports Prelude
begin

text \<open>
  Addon discovery and dependency planning of \<^verbatim>\<open>resources/module.py\<close>: the precedence-resolved
  catalogue, direct dependencies and the install order. What \<^verbatim>\<open>Path.iterdir\<close> and the other
  file-system tests report for each addon root is an argument, and so is the manifest each module
  directory holds (the file read and evaluated by \<^verbatim>\<open>ast.literal_eval\<close>).
\<close>

datatype module_error =
    CannotInspectRoot string
  | InvalidManifest string
  | InvalidDepends string
  | InvalidDependencyName string
  | InvalidModuleName string
  | ModuleNotFound string
  | EmptyRequest
  | DependencyCycle "string list"
  | MissingDependency string string

section \<open>Names\<close>

text \<open>\<^verbatim>\<open>str.isidentifier\<close> on code points below 256.\<close>

definition id_start :: "char \<Rightarrow> bool" where
  "id_start c \<longleftrightarrow> is_alpha c \<or> c = CHR ''_'' \<or> code c \<in> {170, 181, 186}
     \<or> (in_range 192 255 c \<and> code c \<noteq> 215 \<and> code c \<noteq> 247)"

definition id_continue :: "char \<Rightarrow> bool" where
  "id_continue c \<longleftrightarrow> id_start c \<or> is_digit c \<or> code c = 183"

definition isidentifier :: "string \<Rightarrow> bool" where
  "isidentifier s = (case s of [] \<Rightarrow> False | c # cs \<Rightarrow> id_start c \<and> list_all id_continue cs)"

definition kwlist :: "string list" where
  "kwlist = [''False'', ''None'', ''True'', ''and'', ''as'', ''assert'', ''async'', ''await'',
     ''break'', ''class'', ''continue'', ''def'', ''del'', ''elif'', ''else'', ''except'',
     ''finally'', ''for'', ''from'', ''global'', ''if'', ''import'', ''in'', ''is'', ''lambda'',
     ''nonlocal'', ''not'', ''or'', ''pass'', ''raise'', ''return'', ''try'', ''while'', ''with'',
     ''yield'']"

definition valid_name :: "string \<Rightarrow> bool" where
  "valid_name name \<longleftrightarrow> name \<noteq> [] \<and> isidentifier name \<and> name \<notin> set kwlist"

section \<open>The catalogue\<close>

record dir_entry =
  entry_name :: string
  entry_path :: string
  entry_symlink :: bool
  entry_symlink_component :: bool
  entry_is_dir :: bool
  entry_in_root :: bool
  entry_in_worktree :: bool
  manifest_is_file :: bool
  manifest_is_symlink :: bool

type_synonym manifest = "(string, json) dict"

record odoo_module =
  m_name :: string
  m_path :: string
  m_depends :: "string list"
  m_manifest :: manifest
  shadowed_paths :: "string list"

text \<open>\<open>listing root\<close> is \<^term>\<open>None\<close> when \<^verbatim>\<open>iterdir\<close> raises \<^verbatim>\<open>OSError\<close>.\<close>

definition eligible :: "dir_entry \<Rightarrow> bool" where
  "eligible child \<longleftrightarrow> \<not> (\<not> valid_name (entry_name child) \<or> entry_symlink child
     \<or> entry_symlink_component child \<or> \<not> entry_is_dir child \<or> \<not> entry_in_root child
     \<or> \<not> entry_in_worktree child \<or> \<not> manifest_is_file child \<or> manifest_is_symlink child)"

definition add_candidate ::
  "dir_entry \<Rightarrow> (string, string list) dict \<Rightarrow> (string, string list) dict" where
  "add_candidate child d =
     (if eligible child
      then dset d (entry_name child)
        ((case map_of d (entry_name child) of None \<Rightarrow> [] | Some ps \<Rightarrow> ps) @ [entry_path child])
      else d)"

fun candidates_from :: "(string \<Rightarrow> dir_entry list option) \<Rightarrow> string list
    \<Rightarrow> (string, string list) dict \<Rightarrow> (module_error, (string, string list) dict) result" where
  "candidates_from listing [] d = Inr d"
| "candidates_from listing (r # roots) d =
     (case listing r of None \<Rightarrow> Inl (CannotInspectRoot r)
      | Some children \<Rightarrow>
          candidates_from listing roots (fold add_candidate (sort_key entry_name children) d))"

definition candidates :: "(string \<Rightarrow> dir_entry list option) \<Rightarrow> string list
    \<Rightarrow> (module_error, (string, string list) dict) result" where
  "candidates listing roots = candidates_from listing roots []"

definition json_strings :: "json list \<Rightarrow> string list option" where
  "json_strings xs =
     those (map (\<lambda>x. case x of JStr s \<Rightarrow> Some s | _ \<Rightarrow> None) xs)"

definition depends_of :: "manifest \<Rightarrow> string \<Rightarrow> (module_error, string list) result" where
  "depends_of manifest path =
     (case map_of manifest ''depends'' of
        None \<Rightarrow> Inr []
      | Some JNull \<Rightarrow> Inr []
      | Some (JList xs) \<Rightarrow>
          (case json_strings xs of None \<Rightarrow> Inl (InvalidDepends path)
           | Some names \<Rightarrow>
               if list_ex (\<lambda>n. \<not> valid_name n) names then Inl (InvalidDependencyName path)
               else Inr names)
      | Some _ \<Rightarrow> Inl (InvalidDepends path))"

fun catalogue_modules :: "(string \<Rightarrow> (module_error, manifest) result)
    \<Rightarrow> (string, string list) dict \<Rightarrow> (module_error, odoo_module list) result" where
  "catalogue_modules manifest_of [] = Inr []"
| "catalogue_modules manifest_of ((name, paths) # rest) =
     (case paths of [] \<Rightarrow> catalogue_modules manifest_of rest
      | path # shadowed \<Rightarrow>
          rbind (manifest_of path) (\<lambda>manifest.
          rbind (depends_of manifest path) (\<lambda>depends.
          rbind (catalogue_modules manifest_of rest) (\<lambda>ms.
            Inr (\<lparr>m_name = name, m_path = path, m_depends = depends, m_manifest = manifest,
                  shadowed_paths = shadowed\<rparr> # ms)))))"

definition catalogue :: "(string \<Rightarrow> dir_entry list option) \<Rightarrow> (string \<Rightarrow> (module_error, manifest) result)
    \<Rightarrow> string list \<Rightarrow> (module_error, odoo_module list) result" where
  "catalogue listing manifest_of roots =
     rbind (candidates listing roots) (\<lambda>cs.
     rbind (catalogue_modules manifest_of cs) (\<lambda>ms. Inr (sort_key m_name ms)))"

definition by_name :: "odoo_module list \<Rightarrow> (string, odoo_module) dict" where
  "by_name ms = fold (\<lambda>m d. dset d (m_name m) m) ms []"

text \<open>\<^verbatim>\<open>_resolve\<close> with an explicit name, and \<^verbatim>\<open>deps\<close>.\<close>

definition resolve_module :: "string \<Rightarrow> odoo_module list \<Rightarrow> (module_error, odoo_module) result" where
  "resolve_module name ms =
     (if \<not> valid_name name then Inl (InvalidModuleName name)
      else case map_of (by_name ms) name of None \<Rightarrow> Inl (ModuleNotFound name) | Some m \<Rightarrow> Inr m)"

record module_dependency =
  dep_name :: string
  dep_path :: "string option"
  dep_missing :: bool

definition deps :: "string \<Rightarrow> odoo_module list
    \<Rightarrow> (module_error, odoo_module \<times> module_dependency list) result" where
  "deps name ms = rbind (resolve_module name ms) (\<lambda>m. Inr (m, map (\<lambda>d.
     \<lparr>dep_name = d, dep_path = map_option m_path (map_of (by_name ms) d),
      dep_missing = (map_of (by_name ms) d = None)\<rparr>) (m_depends m)))"

section \<open>The install order\<close>

text \<open>
  \<^verbatim>\<open>visit\<close> with its loop over \<open>depends\<close>. \<open>visiting\<close> is restored by the time a call returns, so it is an
  argument; \<open>ordered\<close> and \<open>visited\<close> are the state.
\<close>

type_synonym order_state = "string list \<times> string set"

function visit :: "(string, odoo_module) dict \<Rightarrow> string list \<Rightarrow> string \<Rightarrow> order_state
      \<Rightarrow> (module_error, order_state) result"
  and visit_each :: "(string, odoo_module) dict \<Rightarrow> string list \<Rightarrow> string list \<Rightarrow> order_state
      \<Rightarrow> (module_error, order_state) result" where
  "visit d visiting name (ordered, visited) =
     (if name \<in> visited then Inr (ordered, visited)
      else if name \<in> set visiting
      then Inl (DependencyCycle (dropWhile (\<lambda>x. x \<noteq> name) visiting @ [name]))
      else case map_of d name of
        None \<Rightarrow> Inl (MissingDependency
          (if visiting \<noteq> [] then last visiting else ''requested module'') name)
      | Some m \<Rightarrow> rbind (visit_each d (visiting @ [name]) (m_depends m) (ordered, visited))
          (\<lambda>(ordered', visited'). Inr (ordered' @ [name], insert name visited')))"
| "visit_each d visiting [] st = Inr st"
| "visit_each d visiting (name # names) st =
     rbind (visit d visiting name st) (\<lambda>st'. visit_each d visiting names st')"
  by pat_completeness auto

text \<open>Every nested visit removes one catalogue name from those not being visited.\<close>

termination
proof (relation "measures [
    (\<lambda>x. case x of Inl (d, v, _, _) \<Rightarrow> card (set (dkeys d) - set v)
                 | Inr (d, v, _, _) \<Rightarrow> card (set (dkeys d) - set v)),
    (\<lambda>x. case x of Inl _ \<Rightarrow> 0 | Inr (_, _, ns, _) \<Rightarrow> Suc (length ns))]")
  fix d :: "(string, odoo_module) dict" and v name and ord vis m
  assume "map_of d name = Some m" "name \<notin> set v"
  then have "name \<in> set (dkeys d) - set v" by (metis DiffI map_of_None_dkeys option.distinct(1))
  then have "card (set (dkeys d) - set (v @ [name])) < card (set (dkeys d) - set v)"
    by (intro psubset_card_mono) auto
  then show "(Inr (d, v @ [name], m_depends m, ord, vis), Inl (d, v, name, ord, vis))
    \<in> measures [
    (\<lambda>x. case x of Inl (d, v, _, _) \<Rightarrow> card (set (dkeys d) - set v)
                 | Inr (d, v, _, _) \<Rightarrow> card (set (dkeys d) - set v)),
    (\<lambda>x. case x of Inl _ \<Rightarrow> 0 | Inr (_, _, ns, _) \<Rightarrow> Suc (length ns))]" by simp
qed auto

definition install_order :: "odoo_module list \<Rightarrow> string list \<Rightarrow> (module_error, string list) result" where
  "install_order ms requested =
     (if requested = [] then Inl EmptyRequest
      else rbind (visit_each (by_name ms) [] requested ([], {})) (\<lambda>(ordered, visited). Inr ordered))"

section \<open>Root precedence\<close>

text \<open>The module directories called \<open>name\<close>, in the order of the configured roots.\<close>

definition candidate_paths :: "(string \<Rightarrow> dir_entry list option) \<Rightarrow> string list \<Rightarrow> string \<Rightarrow> string list" where
  "candidate_paths listing roots name = concat (map (\<lambda>r. case listing r of None \<Rightarrow> []
     | Some es \<Rightarrow> map entry_path (filter (\<lambda>e. eligible e \<and> entry_name e = name) es)) roots)"

definition paths_at :: "(string, string list) dict \<Rightarrow> string \<Rightarrow> string list" where
  "paths_at d name = (case map_of d name of None \<Rightarrow> [] | Some ps \<Rightarrow> ps)"

definition candidates_ok :: "(string, string list) dict \<Rightarrow> bool" where
  "candidates_ok d \<longleftrightarrow> distinct (dkeys d) \<and> list_all (\<lambda>(name, ps). ps \<noteq> []) d"

lemma candidates_ok_dset: "candidates_ok d \<Longrightarrow> ps \<noteq> [] \<Longrightarrow> candidates_ok (dset d k ps)"
proof -
  have "list_all P d \<Longrightarrow> P (k, ps) \<Longrightarrow> list_all P (dset d k ps)" for P
    by (induction d k ps rule: dset.induct) auto
  then show "candidates_ok d \<Longrightarrow> ps \<noteq> [] \<Longrightarrow> candidates_ok (dset d k ps)"
    by (simp add: candidates_ok_def distinct_dset)
qed

lemma add_candidates:
  "candidates_ok d \<Longrightarrow> candidates_ok (fold add_candidate es d) \<and>
     paths_at (fold add_candidate es d) name =
       paths_at d name @ map entry_path (filter (\<lambda>e. eligible e \<and> entry_name e = name) es)"
proof (induction es arbitrary: d)
  case (Cons e es)
  have "candidates_ok (add_candidate e d)"
    using Cons.prems by (simp add: add_candidate_def candidates_ok_dset)
  moreover have "paths_at (add_candidate e d) name =
      paths_at d name @ (if eligible e \<and> entry_name e = name then [entry_path e] else [])"
    by (simp add: add_candidate_def paths_at_def split: option.splits)
  ultimately show ?case using Cons.IH by simp
qed simp

lemma candidates_from_paths:
  "candidates_from listing roots d = Inr cs \<Longrightarrow> candidates_ok d \<Longrightarrow>
     candidates_ok cs \<and> paths_at cs name = paths_at d name @ candidate_paths listing roots name"
proof (induction listing roots d rule: candidates_from.induct)
  case (2 listing r roots d)
  from "2.prems"(1) obtain es where es: "listing r = Some es" by (auto split: option.splits)
  have "filter (\<lambda>e. eligible e \<and> entry_name e = name) (sort_key entry_name es) =
      filter (\<lambda>e. eligible e \<and> entry_name e = name) es"
    using arg_cong[OF sort_key_stable[of entry_name name es], of "filter eligible"]
    by (simp add: conj_commute)
  with es 2 add_candidates[OF "2.prems"(2), of "sort_key entry_name es" name] show ?case
    by (simp add: candidate_paths_def)
qed (simp add: candidate_paths_def)

lemma catalogue_modules_spec:
  "catalogue_modules manifest_of cs = Inr ms \<Longrightarrow> candidates_ok cs \<Longrightarrow>
     map m_name ms = dkeys cs \<and>
     (\<forall>m\<in>set ms. map_of cs (m_name m) = Some (m_path m # shadowed_paths m))"
proof (induction manifest_of cs arbitrary: ms rule: catalogue_modules.induct)
  case (2 manifest_of name ps rest)
  then obtain p ps' where ps: "ps = p # ps'" by (cases ps) (auto simp: candidates_ok_def)
  with "2.prems"(1) obtain m ms' where ms: "ms = m # ms'" "m_name m = name" "m_path m = p"
    "shadowed_paths m = ps'" "catalogue_modules manifest_of rest = Inr ms'" by auto
  have "candidates_ok rest" "name \<notin> set (dkeys rest)"
    using "2.prems"(2) by (auto simp: candidates_ok_def dkeys_def)
  note rest = this and IH = "2.IH"(2)[OF ps ms(5) this(1)]
  have "m_name x \<noteq> name" if "x \<in> set ms'" for x
    using IH rest(2) that by (metis imageI list.set_map)
  with IH ms ps show ?case by (simp add: dkeys_def)
qed (simp add: dkeys_def)

text \<open>
  C6: The catalogue lists each discovered module name once, in name order. Its path is the first
  eligible directory of that name in root order and the shadowed paths are the others, in root
  order; no eligible directory is lost.
\<close>

theorem catalogue_precedence:
  assumes "catalogue listing manifest_of roots = Inr ms"
  shows "sorted (map m_name ms) \<and> distinct (map m_name ms) \<and>
    (\<forall>m\<in>set ms. m_path m # shadowed_paths m = candidate_paths listing roots (m_name m)) \<and>
    {name. candidate_paths listing roots name \<noteq> []} = m_name ` set ms"
proof -
  from assms obtain cs ms' where cs: "candidates_from listing roots [] = Inr cs"
    "catalogue_modules manifest_of cs = Inr ms'" "ms = sort_key m_name ms'"
    by (auto simp: catalogue_def candidates_def)
  have "candidates_ok []" by (simp add: candidates_ok_def dkeys_def)
  note spec = candidates_from_paths[OF cs(1) this]
  then have paths: "paths_at cs name = candidate_paths listing roots name" for name
    by (simp add: paths_at_def)
  note ms' = catalogue_modules_spec[OF cs(2) conjunct1[OF spec]]
  have keys: "m_name ` set ms' = set (dkeys cs)" using ms' by (metis list.set_map)
  have "distinct (map m_name ms')" using ms' spec by (simp add: candidates_ok_def)
  then have "distinct (map m_name ms)" unfolding cs(3) by (simp add: distinct_map)
  moreover have "{name. candidate_paths listing roots name \<noteq> []} = set (dkeys cs)"
  proof -
    have "ps \<noteq> []" if "map_of cs name = Some ps" for name ps
      using map_of_SomeD[OF that] spec by (auto simp: candidates_ok_def list_all_iff)
    then show ?thesis
      unfolding paths[symmetric] paths_at_def
      using map_of_None_dkeys[of cs] by (auto split: option.splits)
  qed
  moreover have "m_path m # shadowed_paths m = candidate_paths listing roots (m_name m)"
    if "m \<in> set ms'" for m
    using ms' that paths[of "m_name m"] by (simp add: paths_at_def)
  ultimately show ?thesis using keys cs(3) by auto
qed

definition sample_listing :: "string \<Rightarrow> dir_entry list option" where
  "sample_listing r = Some (map (\<lambda>n. \<lparr>entry_name = n, entry_path = r @ n, entry_symlink = False,
     entry_symlink_component = False, entry_is_dir = True, entry_in_root = True,
     entry_in_worktree = True, manifest_is_file = True, manifest_is_symlink = False\<rparr>)
     (if r = ''/a/'' then [''m'', ''c''] else [''m'', ''class'', ''b'']))"

theorem catalogue_precedence_witness:
  "map_option (map m_path) (case catalogue sample_listing (\<lambda>_. Inr []) [''/a/'', ''/b/''] of
      Inl _ \<Rightarrow> None | Inr ms \<Rightarrow> Some ms) = Some [''/b/b'', ''/a/c'', ''/a/m''] \<and>
   (\<exists>ms. catalogue sample_listing (\<lambda>_. Inr []) [''/a/'', ''/b/''] = Inr ms \<and> sorted (map m_name ms))"
proof -
  have c: "map_option (map m_path) (case catalogue sample_listing (\<lambda>_. Inr []) [''/a/'', ''/b/''] of
      Inl _ \<Rightarrow> None | Inr ms \<Rightarrow> Some ms) = Some [''/b/b'', ''/a/c'', ''/a/m'']" by code_simp
  then obtain ms where "catalogue sample_listing (\<lambda>_. Inr []) [''/a/'', ''/b/''] = Inr ms"
    by (auto split: sum.splits)
  with catalogue_precedence[OF this] c show ?thesis by blast
qed

section \<open>Orders that respect dependencies\<close>

definition dep_edge :: "(string, odoo_module) dict \<Rightarrow> string \<Rightarrow> string \<Rightarrow> bool" where
  "dep_edge d a b \<longleftrightarrow> (case map_of d a of None \<Rightarrow> False | Some m \<Rightarrow> b \<in> set (m_depends m))"

abbreviation dep_reach :: "(string, odoo_module) dict \<Rightarrow> string \<Rightarrow> string \<Rightarrow> bool" where
  "dep_reach d \<equiv> (dep_edge d)\<^sup>*\<^sup>*"

definition dependencies_first :: "(string, odoo_module) dict \<Rightarrow> string list \<Rightarrow> bool" where
  "dependencies_first d ns \<longleftrightarrow> (\<forall>i<length ns.
     case map_of d (ns ! i) of None \<Rightarrow> False | Some m \<Rightarrow> set (m_depends m) \<subseteq> set (take i ns))"

lemma dependencies_first_snoc:
  "dependencies_first d (ns @ [n]) \<longleftrightarrow> dependencies_first d ns \<and>
     (case map_of d n of None \<Rightarrow> False | Some m \<Rightarrow> set (m_depends m) \<subseteq> set ns)"
  by (auto simp: dependencies_first_def nth_append less_Suc_eq split: option.splits)

definition order_ok :: "(string, odoo_module) dict \<Rightarrow> order_state \<Rightarrow> bool" where
  "order_ok d st \<longleftrightarrow> snd st = set (fst st) \<and> distinct (fst st) \<and> dependencies_first d (fst st)"

text \<open>What a successful visit of \<open>ns\<close> below the path \<open>v\<close> adds.\<close>

definition extends :: "(string, odoo_module) dict \<Rightarrow> string list \<Rightarrow> string list
    \<Rightarrow> order_state \<Rightarrow> order_state \<Rightarrow> bool" where
  "extends d v ns st st' \<longleftrightarrow> order_ok d st' \<and> set ns \<subseteq> set (fst st') \<and>
     (\<exists>new. fst st' = fst st @ new \<and> set new \<inter> set v = {} \<and>
        (\<forall>x\<in>set new. \<exists>n\<in>set ns. dep_reach d n x))"

lemma extends_refl: "order_ok d st \<Longrightarrow> set ns \<subseteq> set (fst st) \<Longrightarrow> extends d v ns st st"
  by (simp add: extends_def)

lemma extends_cons:
  assumes "extends d v [n] st st'" "extends d v ns st' st''"
  shows "extends d v (n # ns) st st''"
proof -
  from assms obtain new new' where "fst st' = fst st @ new" "fst st'' = fst st' @ new'"
    "set new \<inter> set v = {}" "set new' \<inter> set v = {}" "\<forall>x\<in>set new. dep_reach d n x"
    "\<forall>x\<in>set new'. \<exists>n\<in>set ns. dep_reach d n x"
    unfolding extends_def by auto
  with assms show ?thesis unfolding extends_def by (auto intro!: exI[of _ "new @ new'"])
qed

lemma extends_visit:
  assumes "extends d (v @ [n]) (m_depends m) st st'" "map_of d n = Some m"
    "n \<notin> set (fst st)" "n \<notin> set v"
  shows "extends d v [n] st (fst st' @ [n], insert n (snd st'))"
proof -
  from assms(1) obtain new where new: "fst st' = fst st @ new" "set new \<inter> set (v @ [n]) = {}"
    "\<forall>x\<in>set new. \<exists>k\<in>set (m_depends m). dep_reach d k x" and ok: "order_ok d st'"
    "set (m_depends m) \<subseteq> set (fst st')"
    unfolding extends_def by blast
  have "dep_reach d n x" if "x \<in> set new" for x
  proof -
    from new(3) that obtain k where "k \<in> set (m_depends m)" "dep_reach d k x" by blast
    with assms(2) show ?thesis
      by (auto simp: dep_edge_def intro: converse_rtranclp_into_rtranclp)
  qed
  moreover have "order_ok d (fst st' @ [n], insert n (snd st'))"
    unfolding order_ok_def fst_conv snd_conv dependencies_first_snoc
    using ok new assms by (auto simp: order_ok_def)
  ultimately show ?thesis
    using new assms(4) unfolding extends_def by (auto intro!: exI[of _ "new @ [n]"])
qed

lemma extends_disjoint: "extends d v ns st st' \<Longrightarrow> set v \<inter> set (fst st) = {} \<Longrightarrow> set v \<inter> set (fst st') = {}"
  unfolding extends_def by auto

lemma visit_extends:
  "visit d v n st = Inr st' \<Longrightarrow> order_ok d st \<Longrightarrow> set v \<inter> set (fst st) = {} \<Longrightarrow> extends d v [n] st st'"
  "visit_each d v ns st = Inr st' \<Longrightarrow> order_ok d st \<Longrightarrow> set v \<inter> set (fst st) = {} \<Longrightarrow> extends d v ns st st'"
proof (induction d v n st and d v ns st arbitrary: st' and st' rule: visit_visit_each.induct)
  case (1 d v n ord vis)
  show ?case
  proof (cases "n \<in> vis")
    case True
    with 1 show ?thesis by (auto simp: order_ok_def intro!: extends_refl)
  next
    case False
    with "1.prems"(1) have nv: "n \<notin> set v" by (auto split: if_splits)
    from False nv "1.prems"(1) obtain m ord' vis' where m: "map_of d n = Some m"
      "visit_each d (v @ [n]) (m_depends m) (ord, vis) = Inr (ord', vis')"
      "st' = (ord' @ [n], insert n vis')"
      by (auto split: option.splits)
    from False "1.prems"(2,3) have "set (v @ [n]) \<inter> set (fst (ord, vis)) = {}"
      by (auto simp: order_ok_def)
    from "1.IH"[OF False nv m(1,2) "1.prems"(2) this]
    show ?thesis using extends_visit[of d v n m "(ord, vis)" "(ord', vis')"] m nv False "1.prems"(2)
      by (auto simp: order_ok_def)
  qed
next
  case (2 d v st)
  then show ?case by (auto intro!: extends_refl)
next
  case (3 d v n ns st)
  then obtain st1 where st1: "visit d v n st = Inr st1" "visit_each d v ns st1 = Inr st'" by auto
  from "3.IH"(1)[OF st1(1) "3.prems"(2,3)] have e: "extends d v [n] st st1" .
  have "order_ok d st1" using e by (simp add: extends_def)
  from "3.IH"(2)[OF st1(2) this extends_disjoint[OF e "3.prems"(3)]]
  show ?case using extends_cons[OF e] by blast
qed

text \<open>
  C4: A returned install order lists distinct modules of the catalogue, every module after all
  modules it depends on; it contains every requested module, and nothing that no requested module
  needs.
\<close>

theorem install_order_correct:
  assumes "install_order ms requested = Inr ordered"
  shows "distinct ordered \<and> dependencies_first (by_name ms) ordered \<and>
    set ordered = {n. \<exists>r\<in>set requested. dep_reach (by_name ms) r n}"
proof -
  let ?d = "by_name ms"
  from assms obtain vis where "visit_each ?d [] requested ([], {}) = Inr (ordered, vis)"
    by (auto simp: install_order_def split: if_splits)
  from visit_extends(2)[OF this] have e: "extends ?d [] requested ([], {}) (ordered, vis)"
    by (simp add: order_ok_def dependencies_first_def)
  then have first: "dependencies_first ?d ordered" by (simp add: extends_def order_ok_def)
  have closed: "dep_reach ?d a b \<Longrightarrow> a \<in> set ordered \<Longrightarrow> b \<in> set ordered" for a b
  proof (induction rule: rtranclp_induct)
    case (step b c)
    then obtain i where i: "i < length ordered" "ordered ! i = b" by (meson in_set_conv_nth)
    with first step.hyps(2) have "c \<in> set (take i ordered)"
      by (auto simp: dependencies_first_def dep_edge_def split: option.splits)
    then show ?case by (rule in_set_takeD)
  qed
  have "set requested \<subseteq> set ordered" using e by (simp add: extends_def)
  with closed have "n \<in> set ordered" if "r \<in> set requested" "dep_reach ?d r n" for r n
    using that by blast
  moreover have "\<exists>r\<in>set requested. dep_reach ?d r n" if "n \<in> set ordered" for n
    using e that by (auto simp: extends_def)
  ultimately show ?thesis using e first by (auto simp: extends_def order_ok_def)
qed

definition sample_modules :: "odoo_module list" where
  "sample_modules = map (\<lambda>(n, ds). \<lparr>m_name = n, m_path = ''/a/'' @ n, m_depends = ds,
     m_manifest = [], shadowed_paths = []\<rparr>)
     [(''base'', []), (''sale'', [''mail'', ''base'']), (''mail'', [''base'']), (''x'', [''y'']), (''y'', [''x'', ''z''])]"

theorem install_order_correct_witness:
  "install_order sample_modules [''sale''] = Inr [''base'', ''mail'', ''sale''] \<and>
   dependencies_first (by_name sample_modules) [''base'', ''mail'', ''sale'']"
proof -
  have o: "install_order sample_modules [''sale''] = Inr [''base'', ''mail'', ''sale'']" by code_simp
  with install_order_correct[OF o] show ?thesis by blast
qed

section \<open>Reported cycles and missing modules are real\<close>

definition real_failure :: "(string, odoo_module) dict \<Rightarrow> string list \<Rightarrow> module_error \<Rightarrow> bool" where
  "real_failure d roots e = (case e of
     DependencyCycle c \<Rightarrow> 2 \<le> length c \<and> hd c = last c \<and> successively (dep_edge d) c
       \<and> (\<exists>r\<in>set roots. dep_reach d r (hd c))
   | MissingDependency parent n \<Rightarrow> map_of d n = None \<and>
       ((parent = ''requested module'' \<and> n \<in> set roots)
        \<or> (dep_edge d parent n \<and> (\<exists>r\<in>set roots. dep_reach d r parent)))
   | _ \<Rightarrow> False)"

definition path_ok :: "(string, odoo_module) dict \<Rightarrow> string list \<Rightarrow> string list \<Rightarrow> bool" where
  "path_ok d roots v \<longleftrightarrow> v \<noteq> [] \<and> hd v \<in> set roots \<and> successively (dep_edge d) v"

lemma path_reach: "path_ok d roots v \<Longrightarrow> x \<in> set v \<Longrightarrow> \<exists>r\<in>set roots. dep_reach d r x"
proof -
  assume p: "path_ok d roots v" and x: "x \<in> set v"
  have "successively (dep_edge d) v \<Longrightarrow> v \<noteq> [] \<Longrightarrow> x \<in> set v \<Longrightarrow> dep_reach d (hd v) x" for v
  proof (induction v)
    case (Cons a v)
    then show ?case
      by (cases v) (auto simp: successively_Cons intro: converse_rtranclp_into_rtranclp)
  qed simp
  with p x show ?thesis by (auto simp: path_ok_def)
qed

lemma successively_dropWhile: "successively P xs \<Longrightarrow> successively P (dropWhile Q xs)"
  by (induction xs) (auto simp: successively_Cons)

lemma path_cycle:
  assumes "path_ok d roots (v @ [n])" "n \<in> set v"
  shows "real_failure d roots (DependencyCycle (dropWhile (\<lambda>x. x \<noteq> n) v @ [n]))"
proof -
  let ?c = "dropWhile (\<lambda>x. x \<noteq> n) v"
  from assms(2) have c: "?c \<noteq> []" "hd ?c = n"
    by (auto simp: dropWhile_eq_Nil_conv) (use hd_dropWhile[of "\<lambda>x. x \<noteq> n" v] in \<open>auto simp: dropWhile_eq_Nil_conv\<close>)
  have "?c @ [n] = dropWhile (\<lambda>x. x \<noteq> n) (v @ [n])" using assms(2) by (auto simp: dropWhile_append)
  then have "successively (dep_edge d) (?c @ [n])"
    using assms(1) successively_dropWhile unfolding path_ok_def by metis
  moreover have "\<exists>r\<in>set roots. dep_reach d r n" using path_reach[OF assms(1)] by simp
  ultimately show ?thesis using c by (auto simp: real_failure_def Suc_le_eq)
qed

lemma path_snoc:
  "path_ok d roots (v @ [n]) \<Longrightarrow> dep_edge d n k \<Longrightarrow> path_ok d roots ((v @ [n]) @ [k])"
  using successively_append_iff[of "dep_edge d" "v @ [n]" "[k]"]
  by (simp add: path_ok_def hd_append split: if_splits)

lemma visit_failure:
  "visit d v n st = Inl e \<Longrightarrow> path_ok d roots (v @ [n]) \<Longrightarrow> real_failure d roots e"
  "visit_each d v ns st = Inl e \<Longrightarrow> (\<forall>n\<in>set ns. path_ok d roots (v @ [n])) \<Longrightarrow> real_failure d roots e"
proof (induction d v n st and d v ns st rule: visit_visit_each.induct)
  case (1 d v n ord vis)
  show ?case
  proof (cases "n \<in> set v")
    case True
    with 1 path_cycle[of d roots v n] show ?thesis by (auto split: if_splits)
  next
    case False
    with "1.prems"(1) have nv: "n \<notin> vis" by (auto split: if_splits)
    show ?thesis
    proof (cases "map_of d n")
      case None
      with nv False "1.prems"(1) have e: "e = MissingDependency (if v \<noteq> [] then last v else ''requested module'') n"
        by simp
      show ?thesis
      proof (cases v rule: rev_cases)
        case Nil
        with e None "1.prems"(2) show ?thesis by (simp add: real_failure_def path_ok_def)
      next
        case (snoc w p)
        with "1.prems"(2) have "dep_edge d p n" by (auto simp: path_ok_def successively_append_iff)
        moreover have "\<exists>r\<in>set roots. dep_reach d r p"
          using path_reach[OF "1.prems"(2), of p] snoc by simp
        ultimately show ?thesis using e None snoc by (simp add: real_failure_def)
      qed
    next
      case (Some m)
      with nv False "1.prems"(1) have f: "visit_each d (v @ [n]) (m_depends m) (ord, vis) = Inl e"
        by auto
      have "\<forall>k\<in>set (m_depends m). path_ok d roots ((v @ [n]) @ [k])"
        using path_snoc[OF "1.prems"(2)] Some by (auto simp: dep_edge_def)
      from "1.IH"[OF nv False Some f this] show ?thesis .
    qed
  qed
next
  case (3 d v n ns st)
  then show ?case by auto
qed simp

text \<open>
  C5: A refused install order is refused for a reason in the catalogue: the reported cycle is a
  closed chain of dependencies that a requested module reaches, and the reported missing module is
  absent and directly required by the named parent or by the request. So an order is returned
  whenever the modules needed are all present and depend on each other without a cycle.
\<close>

theorem install_order_failure:
  assumes "requested \<noteq> []" "install_order ms requested = Inl e"
  shows "real_failure (by_name ms) requested e"
  using assms visit_failure(2)[of "by_name ms" "[]" requested "([], {})" e requested]
  by (auto simp: install_order_def path_ok_def)

theorem install_order_failure_witness:
  "install_order sample_modules [''x''] = Inl (DependencyCycle [''x'', ''y'', ''x'']) \<and>
   real_failure (by_name sample_modules) [''x''] (DependencyCycle [''x'', ''y'', ''x''])"
proof -
  have o: "install_order sample_modules [''x''] = Inl (DependencyCycle [''x'', ''y'', ''x''])"
    by code_simp
  with install_order_failure[OF _ o] show ?thesis by simp
qed

end
