(* ===== verification/Py_Values.thy ===== *)
theory Py_Values
  imports Prelude
begin

text \<open>
  The values of Python's \<^verbatim>\<open>datetime\<close> and \<^verbatim>\<open>uuid\<close> modules that the catalogue stores as text.

  \<^verbatim>\<open>fromisoformat\<close> is modelled on the extended calendar notation, the only one any writer of the
  catalogue uses: a date, one separator character, a time with optional minutes, seconds and
  fraction, and an optional UTC offset. The basic (undashed) and week notations are read as
  undecodable.
\<close>

section \<open>Decimal digits\<close>

definition digit_val :: "char \<Rightarrow> nat" where
  "digit_val c = code c - 48"

definition digit_char :: "nat \<Rightarrow> char" where
  "digit_char n = char_of (48 + n)"

definition digits_val :: "string \<Rightarrow> nat" where
  "digits_val s = foldl (\<lambda>n c. 10 * n + digit_val c) 0 s"

text \<open>\<open>n\<close> in exactly \<open>w\<close> digits, as \<^verbatim>\<open>f"{n:0wd}"\<close> prints it for \<open>n < 10^w\<close>.\<close>

fun pad :: "nat \<Rightarrow> nat \<Rightarrow> string" where
  "pad 0 n = []"
| "pad (Suc w) n = pad w (n div 10) @ [digit_char (n mod 10)]"

text \<open>Reads exactly \<open>w\<close> digits from the front.\<close>

definition take_digits :: "nat \<Rightarrow> string \<Rightarrow> (nat \<times> string) option" where
  "take_digits w s = (if length s < w \<or> \<not> list_all is_digit (take w s) then None
     else Some (digits_val (take w s), drop w s))"

lemma digit_char_props [simp]:
  "n < 10 \<Longrightarrow> is_digit (digit_char n)" "n < 10 \<Longrightarrow> digit_val (digit_char n) = n"
  by (simp_all add: is_digit_def in_range_def code_def digit_char_def digit_val_def)

lemma length_pad [simp]: "length (pad w n) = w"
  by (induction w n rule: pad.induct) auto

lemma pad_digits: "list_all is_digit (pad w n)"
  by (induction w n rule: pad.induct) auto

lemma digits_val_snoc: "digits_val (s @ [c]) = 10 * digits_val s + digit_val c"
  by (simp add: digits_val_def)

lemma digits_val_pad: "n < 10 ^ w \<Longrightarrow> digits_val (pad w n) = n"
proof (induction w n rule: pad.induct)
  case (2 w n)
  then have "n div 10 < 10 ^ w" by (simp add: less_mult_imp_div_less mult.commute)
  with 2 show ?case by (simp add: digits_val_snoc)
qed (simp add: digits_val_def)

lemma take_digits_pad [simp]: "n < 10 ^ w \<Longrightarrow> take_digits w (pad w n @ s) = Some (n, s)"
  by (simp add: take_digits_def pad_digits digits_val_pad)

text \<open>\<^verbatim>\<open>str(n)\<close> of a natural number.\<close>

function show_nat :: "nat \<Rightarrow> string" where
  "show_nat n = (if n < 10 then [digit_char n] else show_nat (n div 10) @ [digit_char (n mod 10)])"
  by auto
termination
  by (relation "measure id") auto

declare show_nat.simps [simp del]

lemma digits_val_show_nat [simp]: "digits_val (show_nat n) = n"
  by (induction n rule: show_nat.induct) (subst show_nat.simps, auto simp: digits_val_snoc, simp add: digits_val_def)

lemma show_nat_digits: "list_all is_digit (show_nat n)"
  by (induction n rule: show_nat.induct) (subst show_nat.simps, auto)

lemma show_nat_neq_Nil [simp]: "show_nat n \<noteq> []"
  by (subst show_nat.simps) auto

lemma hd_show_nat: "0 < n \<Longrightarrow> hd (show_nat n) \<noteq> CHR ''0''"
proof (induction n rule: show_nat.induct)
  case (1 n)
  show ?case
  proof (cases "n < 10")
    case True
    then have "digit_val (hd (show_nat n)) = n" by (subst show_nat.simps) simp
    moreover have "digit_val (CHR ''0'') = 0" by (simp add: digit_val_def code_def)
    ultimately show ?thesis using 1(2) by auto
  next
    case False
    then have "hd (show_nat n) = hd (show_nat (n div 10))" by (subst show_nat.simps) simp
    with 1(1)[OF False] False show ?thesis by simp
  qed
qed

lemma show_nat_zero: "show_nat 0 = ''0''"
  by code_simp

section \<open>Dates and times\<close>

text \<open>\<open>tz\<close> is the UTC offset in microseconds, \<^term>\<open>None\<close> for a naive value.\<close>

record py_datetime =
  year :: nat
  month :: nat
  day :: nat
  hour :: nat
  minute :: nat
  sec :: nat
  microsecond :: nat
  tz :: "int option"

definition is_leap :: "nat \<Rightarrow> bool" where
  "is_leap y \<longleftrightarrow> y mod 4 = 0 \<and> (y mod 100 \<noteq> 0 \<or> y mod 400 = 0)"

definition days_in_month :: "nat \<Rightarrow> nat \<Rightarrow> nat" where
  "days_in_month y m = (if m = 2 then (if is_leap y then 29 else 28)
     else if m \<in> {4, 6, 9, 11} then 30 else 31)"

definition days_before_month :: "nat \<Rightarrow> nat \<Rightarrow> nat" where
  "days_before_month y m = sum_list (map (days_in_month y) [1..<m])"

definition days_before_year :: "nat \<Rightarrow> nat" where
  "days_before_year y = (let k = y - 1 in k * 365 + k div 4 - k div 100 + k div 400)"

definition day_us :: int where "day_us = 86400000000"

definition valid_date :: "nat \<Rightarrow> nat \<Rightarrow> nat \<Rightarrow> bool" where
  "valid_date y m d \<longleftrightarrow> 1 \<le> y \<and> y \<le> 9999 \<and> 1 \<le> m \<and> m \<le> 12 \<and> 1 \<le> d \<and> d \<le> days_in_month y m"

definition valid_datetime :: "py_datetime \<Rightarrow> bool" where
  "valid_datetime t \<longleftrightarrow> valid_date (year t) (month t) (day t) \<and> hour t < 24 \<and> minute t < 60
     \<and> sec t < 60 \<and> microsecond t < 1000000
     \<and> (case tz t of None \<Rightarrow> True | Some z \<Rightarrow> - day_us < z \<and> z < day_us)"

definition wall_us :: "py_datetime \<Rightarrow> int" where
  "wall_us t = int (((((days_before_year (year t) + days_before_month (year t) (month t) + day t) * 24
     + hour t) * 60 + minute t) * 60 + sec t) * 1000000 + microsecond t)"

text \<open>
  The instant, in microseconds since a fixed origin: a naive value is read as UTC
  (\<^verbatim>\<open>replace(tzinfo=UTC)\<close>), an aware one is converted (\<^verbatim>\<open>astimezone(UTC)\<close>).
\<close>

definition utc_us :: "py_datetime \<Rightarrow> int" where
  "utc_us t = wall_us t - (case tz t of None \<Rightarrow> 0 | Some z \<Rightarrow> z)"

section \<open>ISO text\<close>

definition iso_date :: "py_datetime \<Rightarrow> string" where
  "iso_date t = pad 4 (year t) @ ''-'' @ pad 2 (month t) @ ''-'' @ pad 2 (day t)"

definition iso_time :: "nat \<Rightarrow> nat \<Rightarrow> nat \<Rightarrow> nat \<Rightarrow> string" where
  "iso_time h m s us = pad 2 h @ '':'' @ pad 2 m @ '':'' @ pad 2 s
     @ (if us = 0 then [] else ''.'' @ pad 6 us)"

definition iso_offset :: "int option \<Rightarrow> string" where
  "iso_offset z = (case z of None \<Rightarrow> [] | Some z \<Rightarrow>
     let a = nat \<bar>z\<bar>; us = a mod 1000000; s = a div 1000000 mod 60; m = a div 60000000 mod 60;
         h = a div 3600000000
     in (if z < 0 then CHR ''-'' else CHR ''+'') # pad 2 h @ '':'' @ pad 2 m
        @ (if s = 0 \<and> us = 0 then [] else '':'' @ pad 2 s @ (if us = 0 then [] else ''.'' @ pad 6 us)))"

text \<open>\<^verbatim>\<open>datetime.isoformat()\<close>, and the text of SQLite's \<^verbatim>\<open>datetime('now')\<close>.\<close>

definition isoformat :: "py_datetime \<Rightarrow> string" where
  "isoformat t = iso_date t @ ''T'' @ iso_time (hour t) (minute t) (sec t) (microsecond t) @ iso_offset (tz t)"

definition sqlite_datetime :: "py_datetime \<Rightarrow> string" where
  "sqlite_datetime t = iso_date t @ '' '' @ iso_time (hour t) (minute t) (sec t) 0"

text \<open>A fraction of any length at least one; digits beyond microseconds are dropped.\<close>

definition parse_fraction :: "string \<Rightarrow> nat option" where
  "parse_fraction s = (if s = [] \<or> \<not> list_all is_digit s then None
     else Some (digits_val (take 6 (s @ ''00000''))))"

text \<open>\<^verbatim>\<open>HH[:MM[:SS[.f]]]\<close>, the whole string.\<close>

definition parse_hms :: "string \<Rightarrow> (nat \<times> nat \<times> nat \<times> nat) option" where
  "parse_hms s = (case take_digits 2 s of None \<Rightarrow> None | Some (h, s1) \<Rightarrow>
     (case s1 of [] \<Rightarrow> Some (h, 0, 0, 0)
      | c # s2 \<Rightarrow> if c \<noteq> CHR '':'' then None else
        (case take_digits 2 s2 of None \<Rightarrow> None | Some (m, s3) \<Rightarrow>
          (case s3 of [] \<Rightarrow> Some (h, m, 0, 0)
           | c' # s4 \<Rightarrow> if c' \<noteq> CHR '':'' then None else
             (case take_digits 2 s4 of None \<Rightarrow> None | Some (se, s5) \<Rightarrow>
               (case s5 of [] \<Rightarrow> Some (h, m, se, 0)
                | c'' # s6 \<Rightarrow> if c'' \<noteq> CHR ''.'' \<and> c'' \<noteq> CHR '','' then None else
                  (case parse_fraction s6 of None \<Rightarrow> None | Some us \<Rightarrow> Some (h, m, se, us))))))))"

definition parse_offset :: "string \<Rightarrow> int option option" where
  "parse_offset s = (case s of [] \<Rightarrow> Some None
     | c # cs \<Rightarrow> if c = CHR ''Z'' then (if cs = [] then Some (Some 0) else None)
        else (case parse_hms cs of None \<Rightarrow> None | Some (h, m, s, us) \<Rightarrow>
          let a = int (((h * 60 + m) * 60 + s) * 1000000 + us) in
          if m < 60 \<and> s < 60 \<and> a < day_us
          then Some (Some (if c = CHR ''-'' then - a else a)) else None))"

definition is_tz_start :: "char \<Rightarrow> bool" where
  "is_tz_start c \<longleftrightarrow> c = CHR ''+'' \<or> c = CHR ''-'' \<or> c = CHR ''Z''"

definition parse_time :: "string \<Rightarrow> (nat \<times> nat \<times> nat \<times> nat \<times> int option) option" where
  "parse_time s = (case parse_hms (takeWhile (\<lambda>c. \<not> is_tz_start c) s) of None \<Rightarrow> None
     | Some (h, m, se, us) \<Rightarrow>
       (case parse_offset (dropWhile (\<lambda>c. \<not> is_tz_start c) s) of None \<Rightarrow> None
        | Some z \<Rightarrow> if h < 24 \<and> m < 60 \<and> se < 60 then Some (h, m, se, us, z) else None))"

definition parse_date :: "string \<Rightarrow> ((nat \<times> nat \<times> nat) \<times> string) option" where
  "parse_date s = (case take_digits 4 s of Some (y, c # s1) \<Rightarrow>
       if c \<noteq> CHR ''-'' then None else
       (case take_digits 2 s1 of Some (m, c' # s2) \<Rightarrow>
          if c' \<noteq> CHR ''-'' then None else
          (case take_digits 2 s2 of Some (d, s3) \<Rightarrow>
             if valid_date y m d then Some ((y, m, d), s3) else None
           | None \<Rightarrow> None)
        | _ \<Rightarrow> None)
     | _ \<Rightarrow> None)"

definition fromisoformat :: "string \<Rightarrow> py_datetime option" where
  "fromisoformat s = (case parse_date s of None \<Rightarrow> None
     | Some ((y, m, d), []) \<Rightarrow> Some \<lparr>year = y, month = m, day = d, hour = 0, minute = 0, sec = 0,
         microsecond = 0, tz = None\<rparr>
     | Some ((y, m, d), _ # rest) \<Rightarrow> (case parse_time rest of None \<Rightarrow> None
         | Some (h, mi, se, us, z) \<Rightarrow> Some \<lparr>year = y, month = m, day = d, hour = h, minute = mi,
             sec = se, microsecond = us, tz = z\<rparr>))"

section \<open>Reading back what was written\<close>

lemma pad_no_tz: "c \<in> set (pad w n) \<Longrightarrow> \<not> is_tz_start c"
  using pad_digits[of w n]
  by (auto simp: list_all_iff is_tz_start_def is_digit_def in_range_def code_def)

lemma iso_time_no_tz: "c \<in> set (iso_time h m s us) \<Longrightarrow> \<not> is_tz_start c"
  by (auto simp: iso_time_def is_tz_start_def dest!: pad_no_tz split: if_splits)

lemma parse_fraction_pad: "us < 1000000 \<Longrightarrow> parse_fraction (pad 6 us) = Some us"
proof -
  have "pad 6 us \<noteq> []" by (metis length_pad list.size(3) zero_neq_numeral)
  then show "us < 1000000 \<Longrightarrow> parse_fraction (pad 6 us) = Some us"
    by (simp add: parse_fraction_def pad_digits digits_val_pad)
qed

lemma parse_hms_iso_time:
  "h < 100 \<Longrightarrow> m < 100 \<Longrightarrow> s < 100 \<Longrightarrow> us < 1000000 \<Longrightarrow> parse_hms (iso_time h m s us) = Some (h, m, s, us)"
  using take_digits_pad[of s 2 "[]"] take_digits_pad[of s 2]
  by (simp add: parse_hms_def iso_time_def parse_fraction_pad)

lemma parse_hms_short: "h < 100 \<Longrightarrow> m < 100 \<Longrightarrow> parse_hms (pad 2 h @ '':'' @ pad 2 m) = Some (h, m, 0, 0)"
  using take_digits_pad[of m 2 "[]"] by (simp add: parse_hms_def)

lemma offset_split:
  fixes z :: int
  assumes "- day_us < z" "z < day_us"
  defines "a \<equiv> nat \<bar>z\<bar>"
  shows "a div 3600000000 < 24" "a div 60000000 mod 60 < 60" "a div 1000000 mod 60 < 60"
    "a mod 1000000 < 1000000"
    "(((a div 3600000000) * 60 + a div 60000000 mod 60) * 60 + a div 1000000 mod 60) * 1000000
       + a mod 1000000 = a"
proof -
  have "a < 86400000000" using assms by (simp add: day_us_def)
  then show "a div 3600000000 < 24" by (simp add: less_mult_imp_div_less)
  have "a div 60000000 = a div 1000000 div 60" "a div 3600000000 = a div 1000000 div 60 div 60"
    by (simp_all add: div_mult2_eq[symmetric])
  then show "(((a div 3600000000) * 60 + a div 60000000 mod 60) * 60 + a div 1000000 mod 60) * 1000000
       + a mod 1000000 = a" by (simp only: div_mult_mod_eq)
qed simp_all

lemma parse_iso_offset:
  assumes "case z of None \<Rightarrow> True | Some z \<Rightarrow> - day_us < z \<and> z < day_us"
  shows "parse_offset (iso_offset z) = Some z"
proof (cases z)
  case None
  then show ?thesis by (simp add: parse_offset_def iso_offset_def)
next
  case (Some x)
  with assms have x: "- day_us < x" "x < day_us" by auto
  define a where "a = nat \<bar>x\<bar>"
  let ?h = "a div 3600000000" and ?m = "a div 60000000 mod 60" and ?s = "a div 1000000 mod 60"
    and ?us = "a mod 1000000"
  note b = offset_split[OF x, folded a_def]
  let ?c = "if x < 0 then CHR ''-'' else CHR ''+''"
  let ?body = "pad 2 ?h @ '':'' @ pad 2 ?m
      @ (if ?s = 0 \<and> ?us = 0 then [] else '':'' @ pad 2 ?s @ (if ?us = 0 then [] else ''.'' @ pad 6 ?us))"
  have off: "iso_offset z = ?c # ?body" unfolding iso_offset_def Some a_def Let_def by simp
  have hms: "parse_hms ?body = Some (?h, ?m, ?s, ?us)"
  proof (cases "?s = 0 \<and> ?us = 0")
    case True
    with b(1,2) show ?thesis using parse_hms_short[of ?h ?m] by simp
  next
    case False
    have "?body = iso_time ?h ?m ?s ?us" using False unfolding iso_time_def by simp
    moreover have "?h < 100" "?m < 100" "?s < 100" using b(1-3) by linarith+
    ultimately show ?thesis using parse_hms_iso_time[of ?h ?m ?s ?us] b(4) by simp
  qed
  have "int a < day_us" using x a_def by simp
  moreover have "?c \<noteq> CHR ''Z''" by simp
  ultimately show ?thesis
    unfolding off parse_offset_def list.case hms option.case prod.case Let_def b(5)
    using b(2,3) Some a_def by auto
qed

lemma iso_offset_hd: "iso_offset z = [] \<or> is_tz_start (hd (iso_offset z))"
  by (auto simp: iso_offset_def is_tz_start_def Let_def split: option.splits)

lemma takeWhile_until: "(\<And>c. c \<in> set xs \<Longrightarrow> P c) \<Longrightarrow> ys = [] \<or> \<not> P (hd ys) \<Longrightarrow>
    takeWhile P (xs @ ys) = xs \<and> dropWhile P (xs @ ys) = ys"
  by (induction xs) (cases ys; auto)+

lemma parse_time_iso:
  assumes "h < 24" "m < 60" "s < 60" "us < 1000000"
    "case z of None \<Rightarrow> True | Some z \<Rightarrow> - day_us < z \<and> z < day_us"
  shows "parse_time (iso_time h m s us @ iso_offset z) = Some (h, m, s, us, z)"
proof -
  have "takeWhile (\<lambda>c. \<not> is_tz_start c) (iso_time h m s us @ iso_offset z) = iso_time h m s us \<and>
      dropWhile (\<lambda>c. \<not> is_tz_start c) (iso_time h m s us @ iso_offset z) = iso_offset z"
    using iso_offset_hd[of z] iso_time_no_tz by (intro takeWhile_until) auto
  then show ?thesis
    using assms parse_hms_iso_time[of h m s us] parse_iso_offset[OF assms(5)]
    by (simp add: parse_time_def)
qed

lemma parse_date_iso:
  "valid_date (year t) (month t) (day t) \<Longrightarrow>
     parse_date (iso_date t @ s) = Some ((year t, month t, day t), s)"
proof -
  assume v: "valid_date (year t) (month t) (day t)"
  then have "day t \<le> 31"
    by (auto simp: valid_date_def days_in_month_def split: if_splits)
  with v have "year t < 10 ^ 4" "month t < 10 ^ 2" "day t < 10 ^ 2" by (auto simp: valid_date_def)
  with v show ?thesis by (simp add: parse_date_def iso_date_def)
qed

lemma fromisoformat_isoformat:
  assumes "valid_datetime t"
  shows "fromisoformat (isoformat t) = Some t"
  using assms parse_time_iso[of "hour t" "minute t" "sec t" "microsecond t" "tz t"]
    parse_date_iso[of t "''T'' @ iso_time (hour t) (minute t) (sec t) (microsecond t) @ iso_offset (tz t)"]
  by (simp add: fromisoformat_def isoformat_def valid_datetime_def)

lemma fromisoformat_sqlite:
  assumes "valid_datetime t"
  shows "fromisoformat (sqlite_datetime t) = Some (t\<lparr>microsecond := 0, tz := None\<rparr>)"
  using assms parse_time_iso[of "hour t" "minute t" "sec t" 0 None]
    parse_date_iso[of t "'' '' @ iso_time (hour t) (minute t) (sec t) 0"]
  by (simp add: fromisoformat_def sqlite_datetime_def valid_datetime_def iso_offset_def)

section \<open>UUIDs\<close>

definition hex_value :: "char \<Rightarrow> nat option" where
  "hex_value c = (if is_digit c then Some (code c - 48)
     else if in_range 97 102 c then Some (code c - 87)
     else if in_range 65 70 c then Some (code c - 55) else None)"

text \<open>\<^verbatim>\<open>s.replace(pat, '')\<close> for a non-empty pattern.\<close>

fun drop_all :: "string \<Rightarrow> string \<Rightarrow> nat \<Rightarrow> string" where
  "drop_all pat [] skip = []"
| "drop_all pat (c # cs) (Suc k) = drop_all pat cs k"
| "drop_all pat (c # cs) 0 =
     (if startswith (c # cs) pat then drop_all pat cs (length pat - 1) else c # drop_all pat cs 0)"

text \<open>
  \<^verbatim>\<open>int(s, 16)\<close>: surrounding white space, a sign, a \<^verbatim>\<open>0x\<close> prefix, and single underscores between
  digits are accepted.
\<close>

fun hex_digits :: "nat \<Rightarrow> bool \<Rightarrow> string \<Rightarrow> nat option" where
  "hex_digits acc ok [] = (if ok then Some acc else None)"
| "hex_digits acc ok (c # cs) =
     (if c = CHR ''_'' then (if ok then hex_digits acc False cs else None)
      else case hex_value c of None \<Rightarrow> None | Some v \<Rightarrow> hex_digits (16 * acc + v) True cs)"

definition strip_0x :: "string \<Rightarrow> string" where
  "strip_0x s = (if length s \<ge> 2 \<and> hd s = CHR ''0'' \<and> s ! 1 \<in> {CHR ''x'', CHR ''X''}
     then (case drop 2 s of [] \<Rightarrow> [] | c # cs \<Rightarrow> if c = CHR ''_'' then cs else c # cs) else s)"

definition py_int16 :: "string \<Rightarrow> int option" where
  "py_int16 s = (case strip_ws s of [] \<Rightarrow> None
     | c # cs \<Rightarrow> if c = CHR ''-'' then map_option (\<lambda>n. - int n) (hex_digits 0 False (strip_0x cs))
         else if c = CHR ''+'' then map_option int (hex_digits 0 False (strip_0x cs))
         else map_option int (hex_digits 0 False (strip_0x (c # cs))))"

text \<open>\<^verbatim>\<open>uuid.UUID(text)\<close> and \<^verbatim>\<open>str(uuid)\<close>; a UUID is its 128-bit value.\<close>

definition uuid_of_text :: "string \<Rightarrow> nat option" where
  "uuid_of_text t =
     (let h = drop_all ''uuid:'' (drop_all ''urn:'' t 0) 0;
          h = filter (\<lambda>c. c \<noteq> CHR ''-'') (strip (\<lambda>c. c \<in> {CHR ''{'', CHR ''}''}) h)
      in if length h \<noteq> 32 then None
         else case py_int16 h of None \<Rightarrow> None
         | Some n \<Rightarrow> if 0 \<le> n \<and> n < 2 ^ 128 then Some (nat n) else None)"

definition hex_char :: "nat \<Rightarrow> char" where
  "hex_char n = (if n < 10 then char_of (48 + n) else char_of (87 + n))"

fun hex_pad :: "nat \<Rightarrow> nat \<Rightarrow> string" where
  "hex_pad 0 n = []"
| "hex_pad (Suc w) n = hex_pad w (n div 16) @ [hex_char (n mod 16)]"

definition dash_uuid :: "string \<Rightarrow> string" where
  "dash_uuid h = take 8 h @ ''-'' @ take 4 (drop 8 h) @ ''-'' @ take 4 (drop 12 h) @ ''-''
     @ take 4 (drop 16 h) @ ''-'' @ drop 20 h"

definition uuid_text :: "nat \<Rightarrow> string" where
  "uuid_text n = dash_uuid (hex_pad 32 n)"

lemma length_hex_pad [simp]: "length (hex_pad w n) = w"
  by (induction w n rule: hex_pad.induct) auto

lemma hex_char_value [simp]: "n < 16 \<Longrightarrow> hex_value (hex_char n) = Some n"
  by (auto simp: hex_value_def hex_char_def is_digit_def in_range_def code_def)

lemma hex_char_inverse:
  assumes "hex_value c = Some v" "lower_char c = c"
  shows "hex_char v = c \<and> v < 16"
proof -
  consider "48 \<le> code c" "code c \<le> 57" "v = code c - 48" | "97 \<le> code c" "code c \<le> 102" "v = code c - 87"
    | "65 \<le> code c" "code c \<le> 70"
    using assms(1) by (auto simp: hex_value_def is_digit_def in_range_def split: if_splits)
  then show ?thesis
  proof cases
    case 3
    then have "is_upper c" by (simp add: is_upper_def in_range_def)
    then have "code (lower_char c) = code c + 32" using 3 by (simp add: lower_char_def code_def)
    with assms(2) show ?thesis by simp
  next
    case 1
    then have "v < 10" "48 + v = code c" by linarith+
    then show ?thesis by (simp add: hex_char_def code_def)
  next
    case 2
    then have "\<not> v < 10" "v < 16" "87 + v = code c" by linarith+
    then show ?thesis by (simp add: hex_char_def code_def)
  qed
qed

text \<open>Lower-case hexadecimal text without dashes, and its value.\<close>

definition hex_text :: "string \<Rightarrow> bool" where
  "hex_text h \<longleftrightarrow> list_all (\<lambda>c. hex_value c \<noteq> None \<and> lower_char c = c) h"

definition hex_number :: "string \<Rightarrow> nat" where
  "hex_number h = foldl (\<lambda>n c. 16 * n + the (hex_value c)) 0 h"

lemma hex_digits_number:
  "list_all (\<lambda>c. hex_value c \<noteq> None) h \<Longrightarrow> h \<noteq> [] \<or> ok \<Longrightarrow>
     hex_digits acc ok h = Some (foldl (\<lambda>n c. 16 * n + the (hex_value c)) acc h)"
proof (induction h arbitrary: acc ok)
  case (Cons c h)
  then have "c \<noteq> CHR ''_''"
    by (auto simp: hex_value_def is_digit_def in_range_def code_def split: if_splits)
  with Cons show ?case by auto
qed simp

lemma hex_pad_number: "hex_text h \<Longrightarrow> hex_pad (length h) (hex_number h) = h"
proof (induction h rule: rev_induct)
  case (snoc c h)
  then obtain v where v: "hex_value c = Some v" "lower_char c = c" by (auto simp: hex_text_def)
  have "hex_number (h @ [c]) = 16 * hex_number h + v" using v by (simp add: hex_number_def)
  with hex_char_inverse[OF v] snoc show ?case by (simp add: hex_text_def)
qed simp

lemma hex_number_less: "list_all (\<lambda>c. hex_value c \<noteq> None) h \<Longrightarrow> hex_number h < 16 ^ length h"
proof (induction h rule: rev_induct)
  case (snoc c h)
  then obtain v where v: "hex_value c = Some v" by auto
  then have "v < 16"
    by (auto simp: hex_value_def is_digit_def in_range_def split: if_splits)
  moreover have "hex_number (h @ [c]) = 16 * hex_number h + v" using v by (simp add: hex_number_def)
  ultimately show ?case using snoc by simp
qed (simp add: hex_number_def)

lemma hex_pad_text: "n < 16 ^ w \<Longrightarrow> hex_text (hex_pad w n) \<and> hex_number (hex_pad w n) = n"
proof (induction w n rule: hex_pad.induct)
  case (2 w n)
  then have "n div 16 < 16 ^ w" by (simp add: less_mult_imp_div_less mult.commute)
  moreover have "lower_char (hex_char (n mod 16)) = hex_char (n mod 16)"
  proof -
    have "n mod 16 < 16" by simp
    then show ?thesis by (auto simp: lower_char_def hex_char_def is_upper_def in_range_def code_def)
  qed
  ultimately show ?case using 2 by (simp add: hex_text_def hex_number_def)
qed (simp add: hex_text_def hex_number_def)

lemma drop_all_absent: "pat \<noteq> [] \<Longrightarrow> hd pat \<notin> set s \<Longrightarrow> drop_all pat s 0 = s"
proof (induction s)
  case (Cons c s)
  then have "\<not> startswith (c # s) pat" by (cases pat) (auto simp: startswith_def)
  with Cons show ?case by simp
qed simp

lemma hex_value_plain:
  "hex_value c \<noteq> None \<Longrightarrow> c \<notin> {CHR ''u'', CHR ''{'', CHR ''}'', CHR ''-'', CHR ''+'', CHR ''x'', CHR ''X''}
     \<and> \<not> is_space c"
  by (auto simp: hex_value_def is_digit_def is_space_def in_range_def code_def split: if_splits)

text \<open>The textual form \<^verbatim>\<open>8-4-4-4-12\<close> in lower case.\<close>

definition canonical_uuid :: "string \<Rightarrow> bool" where
  "canonical_uuid t \<longleftrightarrow> length t = 36 \<and> dash_uuid (filter (\<lambda>c. c \<noteq> CHR ''-'') t) = t
     \<and> hex_text (filter (\<lambda>c. c \<noteq> CHR ''-'') t)"

lemma filter_dash_uuid: "CHR ''-'' \<notin> set h \<Longrightarrow> filter (\<lambda>c. c \<noteq> CHR ''-'') (dash_uuid h) = h"
proof -
  assume d: "CHR ''-'' \<notin> set h"
  have f: "filter (\<lambda>c. c \<noteq> CHR ''-'') g = g" if "set g \<subseteq> set h" for g
    using d that by (auto intro!: filter_True)
  have "filter (\<lambda>c. c \<noteq> CHR ''-'') (dash_uuid h) =
      take 8 h @ take 4 (drop 8 h) @ take 4 (drop 12 h) @ take 4 (drop 16 h) @ drop 20 h"
    by (simp add: dash_uuid_def f set_take_subset set_drop_subset subset_trans[OF set_take_subset])
  also have "\<dots> = h"
    using append_take_drop_id[of 8 h] append_take_drop_id[of 4 "drop 8 h"]
      append_take_drop_id[of 4 "drop 12 h"] append_take_drop_id[of 4 "drop 16 h"]
    by (simp add: drop_drop)
  finally show ?thesis .
qed

lemma length_dash_uuid: "length (dash_uuid h) = length h + 4"
  by (simp add: dash_uuid_def min_def)

lemma hex_text_no_dash: "hex_text h \<Longrightarrow> CHR ''-'' \<notin> set h"
  unfolding hex_text_def list_all_iff using hex_value_plain by blast

lemma uuid_of_hex:
  assumes "\<And>c. c \<in> set t \<Longrightarrow> hex_value c \<noteq> None \<or> c = CHR ''-''"
    "length (filter (\<lambda>c. c \<noteq> CHR ''-'') t) = 32"
  shows "uuid_of_text t = Some (hex_number (filter (\<lambda>c. c \<noteq> CHR ''-'') t))"
proof -
  let ?h = "filter (\<lambda>c. c \<noteq> CHR ''-'') t"
  have "c \<noteq> CHR ''u'' \<and> c \<noteq> CHR ''{'' \<and> c \<noteq> CHR ''}''" if "c \<in> set t" for c
  proof (cases "hex_value c = None")
    case True
    with assms(1)[OF that] have "c = CHR ''-''" by blast
    then show ?thesis by simp
  next
    case False
    then show ?thesis using hex_value_plain[OF False] by blast
  qed
  then have u: "CHR ''u'' \<notin> set t" and br: "\<forall>c\<in>set t. c \<noteq> CHR ''{'' \<and> c \<noteq> CHR ''}''" by blast+
  have "drop_all ''uuid:'' (drop_all ''urn:'' t 0) 0 = t" using u by (simp add: drop_all_absent)
  moreover have "strip (\<lambda>c. c \<in> {CHR ''{'', CHR ''}''}) t = t"
    using br hd_in_set[of t] last_in_set[of t] by (intro strip_eq) blast
  ultimately have h: "uuid_of_text t = (if length ?h \<noteq> 32 then None
      else case py_int16 ?h of None \<Rightarrow> None
         | Some n \<Rightarrow> if 0 \<le> n \<and> n < 2 ^ 128 then Some (nat n) else None)"
    by (simp only: uuid_of_text_def Let_def)
  have hx: "hex_value c \<noteq> None" if "c \<in> set ?h" for c using assms(1) that by auto
  obtain c cs where cs: "?h = c # cs" using assms(2) by (cases ?h) auto
  have ws: "strip_ws ?h = ?h"
  proof -
    have "\<not> is_space x" if "x \<in> set ?h" for x using hx[OF that] hex_value_plain by blast
    moreover have "hd ?h \<in> set ?h" "last ?h \<in> set ?h" using cs by (metis list.distinct(1) hd_in_set last_in_set)+
    ultimately show ?thesis unfolding strip_ws_def by (intro strip_eq) blast
  qed
  have c: "c \<noteq> CHR ''-''" "c \<noteq> CHR ''+''" using hx[of c] hex_value_plain[of c] cs by auto
  have "strip_0x ?h = ?h"
  proof -
    have "?h ! 1 \<in> set ?h" using assms(2) by (intro nth_mem) simp
    then have "?h ! 1 \<notin> {CHR ''x'', CHR ''X''}" using hx hex_value_plain by blast
    then show ?thesis unfolding strip_0x_def by (simp only: simp_thms if_False)
  qed
  then have "py_int16 ?h = map_option int (hex_digits 0 False ?h)"
    unfolding py_int16_def ws using c by (simp add: cs)
  moreover have "hex_digits 0 False ?h = Some (hex_number ?h)"
    unfolding hex_number_def using hx cs by (intro hex_digits_number) (auto simp: list_all_iff)
  moreover have "hex_number ?h < 2 ^ 128"
    using hex_number_less[of ?h] hx assms(2) by (simp add: list_all_iff)
  then have "int (hex_number ?h) < 2 ^ 128" by (metis of_nat_less_iff of_nat_numeral of_nat_power)
  ultimately show ?thesis using h assms(2) by simp
qed

lemma canonical_uuid_iff: "canonical_uuid t \<longleftrightarrow> (\<exists>n < 2 ^ 128. t = uuid_text n)"
proof
  assume c: "canonical_uuid t"
  let ?h = "filter (\<lambda>c. c \<noteq> CHR ''-'') t"
  have len: "length ?h = 32"
  proof -
    have "length t = length (dash_uuid ?h)" using c unfolding canonical_uuid_def by argo
    then show ?thesis using c unfolding canonical_uuid_def length_dash_uuid by linarith
  qed
  have "hex_number ?h < 16 ^ 32"
    using hex_number_less[of ?h] c len by (auto simp: canonical_uuid_def hex_text_def list_all_iff)
  moreover have "t = uuid_text (hex_number ?h)"
    using c hex_pad_number[of ?h] len by (simp add: canonical_uuid_def uuid_text_def)
  ultimately show "\<exists>n < 2 ^ 128. t = uuid_text n" by (intro exI[of _ "hex_number ?h"]) simp
next
  assume "\<exists>n < 2 ^ 128. t = uuid_text n"
  then obtain n :: nat where n: "n < 16 ^ 32" "t = uuid_text n" by auto
  note h = hex_pad_text[OF n(1)]
  have "filter (\<lambda>c. c \<noteq> CHR ''-'') t = hex_pad 32 n"
    unfolding n(2) uuid_text_def using h hex_text_no_dash by (intro filter_dash_uuid) blast
  then show "canonical_uuid t"
    using h n(2) by (simp add: canonical_uuid_def uuid_text_def dash_uuid_def)
qed

lemma uuid_text_roundtrip: "n < 2 ^ 128 \<Longrightarrow> uuid_of_text (uuid_text n) = Some n"
proof -
  assume "n < 2 ^ 128"
  then have n: "n < 16 ^ 32" by simp
  note h = hex_pad_text[OF n]
  have f: "filter (\<lambda>c. c \<noteq> CHR ''-'') (uuid_text n) = hex_pad 32 n"
    unfolding uuid_text_def using h hex_text_no_dash by (intro filter_dash_uuid) blast
  have "hex_value c \<noteq> None \<or> c = CHR ''-''" if "c \<in> set (uuid_text n)" for c
  proof (cases "c = CHR ''-''")
    case False
    with that have "c \<in> set (filter (\<lambda>c. c \<noteq> CHR ''-'') (uuid_text n))" by simp
    with f h show ?thesis by (auto simp: hex_text_def list_all_iff)
  qed simp
  from uuid_of_hex[OF this] f h show ?thesis by simp
qed

end
