(* ===== verification/Json.thy ===== *)
theory Json
  imports Py_Values
begin

text \<open>
  Python's \<^verbatim>\<open>json\<close> module as the catalogue uses it: \<^verbatim>\<open>json.dumps\<close> with sorted keys and compact separators,
  with ASCII output or with \<^verbatim>\<open>ensure_ascii=False\<close>, and \<^verbatim>\<open>json.loads\<close>, as it is or with hooks that refuse
  repeated keys and the constants \<^verbatim>\<open>NaN\<close> and \<^verbatim>\<open>Infinity\<close>. What is printed is read back, for every way to
  print strings that meets the contract of the locale \<open>string_printer\<close>.

  A text that stands for code points beyond 255 (an escape above \<^verbatim>\<open>\u00ff\<close>) is outside the range of
  the model and read as undecodable. The decimal text of a float is the argument \<open>frepr\<close>; floats are
  read exactly. Limits on the nesting depth and on the number of digits of an integer are not
  modelled.
\<close>

section \<open>Printing\<close>

definition json_escape :: "char \<Rightarrow> string" where
  "json_escape c =
     (if c = DQ then [BS, DQ] else if c = BS then [BS, BS]
      else if c = LF then [BS, CHR ''n''] else if c = CR then [BS, CHR ''r''] else if c = TAB then [BS, CHR ''t'']
      else if c = CHR 0x0C then [BS, CHR ''f''] else if c = CHR 0x08 then [BS, CHR ''b'']
      else if in_range 32 126 c then [c] else [BS, CHR ''u''] @ hex_pad 4 (code c))"

definition dumps_string :: "string \<Rightarrow> string" where
  "dumps_string s = [DQ] @ concat (map json_escape s) @ [DQ]"

text \<open>The same with \<^verbatim>\<open>ensure_ascii=False\<close>.\<close>

definition raw_escape :: "char \<Rightarrow> string" where
  "raw_escape c =
     (if c = DQ then [BS, DQ] else if c = BS then [BS, BS]
      else if c = LF then [BS, CHR ''n''] else if c = CR then [BS, CHR ''r''] else if c = TAB then [BS, CHR ''t'']
      else if c = CHR 0x0C then [BS, CHR ''f''] else if c = CHR 0x08 then [BS, CHR ''b'']
      else if in_range 0 31 c then [BS, CHR ''u''] @ hex_pad 4 (code c) else [c])"

definition raw_string :: "string \<Rightarrow> string" where
  "raw_string s = [DQ] @ concat (map raw_escape s) @ [DQ]"

definition show_int :: "int \<Rightarrow> string" where
  "show_int n = (if n < 0 then ''-'' @ show_nat (nat (- n)) else show_nat (nat n))"

fun print_json :: "(string \<Rightarrow> string) \<Rightarrow> (rat \<Rightarrow> string) \<Rightarrow> json \<Rightarrow> string"
  and print_items :: "(string \<Rightarrow> string) \<Rightarrow> (rat \<Rightarrow> string) \<Rightarrow> json list \<Rightarrow> string list"
  and print_fields :: "(string \<Rightarrow> string) \<Rightarrow> (rat \<Rightarrow> string) \<Rightarrow> (string \<times> json) list \<Rightarrow> (string \<times> string) list" where
  "print_json q frepr JNull = ''null''"
| "print_json q frepr (JBool b) = (if b then ''true'' else ''false'')"
| "print_json q frepr (JInt n) = show_int n"
| "print_json q frepr (JFloat x) = frepr x"
| "print_json q frepr (JSpecial t) = t"
| "print_json q frepr (JStr s) = q s"
| "print_json q frepr (JList items) = ''['' @ join_with '','' (print_items q frepr items) @ '']''"
| "print_json q frepr (JObj fs) = ''{'' @ join_with '','' (map snd (sort_key fst (print_fields q frepr fs))) @ ''}''"
| "print_items q frepr [] = []"
| "print_items q frepr (v # vs) = print_json q frepr v # print_items q frepr vs"
| "print_fields q frepr [] = []"
| "print_fields q frepr ((k, v) # fs) = (k, q k @ '':'' @ print_json q frepr v) # print_fields q frepr fs"

abbreviation dumps :: "(rat \<Rightarrow> string) \<Rightarrow> json \<Rightarrow> string" where
  "dumps \<equiv> print_json dumps_string"

abbreviation dumps_raw :: "(rat \<Rightarrow> string) \<Rightarrow> json \<Rightarrow> string" where
  "dumps_raw \<equiv> print_json raw_string"

section \<open>Reading\<close>

definition json_space :: "char \<Rightarrow> bool" where
  "json_space c \<longleftrightarrow> c \<in> {CHR '' '', TAB, LF, CR}"

definition skip_space :: "string \<Rightarrow> string" where
  "skip_space s = dropWhile json_space s"

definition read_hex4 :: "string \<Rightarrow> (char \<times> string) option" where
  "read_hex4 s = (case s of a # b # c # d # rest \<Rightarrow>
       (case (hex_value a, hex_value b, hex_value c, hex_value d) of
          (Some x, Some y, Some z, Some w) \<Rightarrow>
            (let n = 4096 * x + 256 * y + 16 * z + w in if n < 256 then Some (char_of n, rest) else None)
        | _ \<Rightarrow> None)
     | _ \<Rightarrow> None)"

definition simple_escape :: "char \<Rightarrow> char option" where
  "simple_escape c = (if c \<in> {DQ, BS, CHR ''/''} then Some c else if c = CHR ''n'' then Some LF else if c = CHR ''r'' then Some CR
     else if c = CHR ''t'' then Some TAB else if c = CHR ''f'' then Some (CHR 0x0C) else if c = CHR ''b'' then Some (CHR 0x08) else None)"

text \<open>The text after the opening quote, one code point per unit of fuel.\<close>

fun read_string :: "nat \<Rightarrow> string \<Rightarrow> (string \<times> string) option" where
  "read_string 0 s = None"
| "read_string (Suc fuel) cs = (case cs of [] \<Rightarrow> None | c # s \<Rightarrow>
      if c = DQ then Some ([], s)
      else if in_range 0 31 c then None
      else if c \<noteq> BS then map_option (\<lambda>(t, r). (c # t, r)) (read_string fuel s)
      else case s of [] \<Rightarrow> None
        | e # s' \<Rightarrow> (case (if e = CHR ''u'' then read_hex4 s' else map_option (\<lambda>x. (x, s')) (simple_escape e)) of
            None \<Rightarrow> None
          | Some (x, r) \<Rightarrow> map_option (\<lambda>(t, r'). (x # t, r')) (read_string fuel r)))"

text \<open>\<^verbatim>\<open>(-?(?:0|[1-9][0-9]*))(\.[0-9]+)?([eE][-+]?[0-9]+)?\<close>: the integer part, the fraction, the exponent.\<close>

definition split_sign :: "string \<Rightarrow> bool \<times> string" where
  "split_sign s = (case s of c # r \<Rightarrow> if c = CHR ''-'' then (True, r) else (False, s) | [] \<Rightarrow> (False, s))"

definition read_integer :: "string \<Rightarrow> (int \<times> string) option" where
  "read_integer s = (let (neg, r) = split_sign s; sg = (\<lambda>n. if neg then - int n else int n) in
     case r of [] \<Rightarrow> None
     | c # r' \<Rightarrow> if c = CHR ''0'' then Some (0, r')
         else if is_digit c then Some (sg (digits_val (takeWhile is_digit r)), dropWhile is_digit r)
         else None)"

definition read_fraction :: "string \<Rightarrow> (string \<times> string) option" where
  "read_fraction s = (case s of c # d # r \<Rightarrow> if c = CHR ''.'' \<and> is_digit d
       then Some (takeWhile is_digit (d # r), dropWhile is_digit (d # r)) else None
     | _ \<Rightarrow> None)"

definition read_exponent :: "string \<Rightarrow> (int \<times> string) option" where
  "read_exponent s = (case s of c # r \<Rightarrow>
       if c \<noteq> CHR ''e'' \<and> c \<noteq> CHR ''E'' then None
       else (let neg = (case r of d # _ \<Rightarrow> d = CHR ''-'' | [] \<Rightarrow> False);
                 r = (case r of d # r' \<Rightarrow> if d \<in> set ''+-'' then r' else r | [] \<Rightarrow> r);
                 ds = takeWhile is_digit r
             in if ds = [] then None else Some (if neg then - int (digits_val ds) else int (digits_val ds), dropWhile is_digit r))
     | [] \<Rightarrow> None)"

definition decimal :: "bool \<Rightarrow> int \<Rightarrow> string \<Rightarrow> int \<Rightarrow> rat" where
  "decimal neg n fr e =
     (let m = \<bar>of_int n\<bar> + of_nat (digits_val fr) / 10 ^ length fr;
          m = (if 0 \<le> e then m * 10 ^ nat e else m / 10 ^ nat (- e)) in if neg then - m else m)"

definition read_number :: "string \<Rightarrow> (json \<times> string) option" where
  "read_number s = (case read_integer s of None \<Rightarrow> None
     | Some (n, r) \<Rightarrow>
         (let (fr, r1) = (case read_fraction r of None \<Rightarrow> ([], r) | Some p \<Rightarrow> p);
              (ex, r2) = (case read_exponent r1 of None \<Rightarrow> (None, r1) | Some (e, r2) \<Rightarrow> (Some e, r2))
          in if fr = [] \<and> ex = None then Some (JInt n, r)
             else Some (JFloat (decimal (fst (split_sign s)) n fr (case ex of None \<Rightarrow> 0 | Some e \<Rightarrow> e)), r2)))"

definition read_literal :: "bool \<Rightarrow> string \<Rightarrow> (json \<times> string) option" where
  "read_literal strict s =
     (if startswith s ''null'' then Some (JNull, drop 4 s)
      else if startswith s ''true'' then Some (JBool True, drop 4 s)
      else if startswith s ''false'' then Some (JBool False, drop 5 s)
      else case read_number s of Some r \<Rightarrow> Some r
        | None \<Rightarrow> if strict then None
            else if startswith s ''NaN'' then Some (JSpecial ''NaN'', drop 3 s)
            else if startswith s ''Infinity'' then Some (JSpecial ''Infinity'', drop 8 s)
            else if startswith s ''-Infinity'' then Some (JSpecial ''-Infinity'', drop 9 s) else None)"

text \<open>
  \<open>scan_once\<close>, the items of an array after its bracket or a comma, and the fields of an object after its
  brace or a comma, with the dictionary built so far. A strict reader refuses a repeated key and the
  constants that are not JSON. Every call consumes a character, so the length
  of the text is enough fuel.
\<close>

fun scan_once :: "bool \<Rightarrow> nat \<Rightarrow> string \<Rightarrow> (json \<times> string) option"
  and scan_items :: "bool \<Rightarrow> nat \<Rightarrow> string \<Rightarrow> (json list \<times> string) option"
  and scan_fields :: "bool \<Rightarrow> nat \<Rightarrow> (string, json) dict \<Rightarrow> string \<Rightarrow> ((string, json) dict \<times> string) option" where
  "scan_once strict 0 s = None"
| "scan_once strict (Suc fuel) cs = (case cs of [] \<Rightarrow> None | c # s \<Rightarrow>
      if c = DQ then map_option (\<lambda>(t, r). (JStr t, r)) (read_string fuel s)
      else if c = CHR ''{'' then
        (case skip_space s of [] \<Rightarrow> None
         | d # r \<Rightarrow> if d = CHR ''}'' then Some (JObj [], r)
             else map_option (\<lambda>(fs, r). (JObj fs, r)) (scan_fields strict fuel [] (d # r)))
      else if c = CHR ''['' then
        (case skip_space s of [] \<Rightarrow> None
         | d # r \<Rightarrow> if d = CHR '']'' then Some (JList [], r)
             else map_option (\<lambda>(vs, r). (JList vs, r)) (scan_items strict fuel (d # r)))
      else read_literal strict (c # s))"
| "scan_items strict 0 s = None"
| "scan_items strict (Suc fuel) s = (case scan_once strict fuel s of None \<Rightarrow> None
     | Some (v, r) \<Rightarrow> (case skip_space r of [] \<Rightarrow> None
         | d # r' \<Rightarrow> if d = CHR '']'' then Some ([v], r')
             else if d = CHR '','' then map_option (\<lambda>(vs, r''). (v # vs, r'')) (scan_items strict fuel (skip_space r'))
             else None))"
| "scan_fields strict 0 d s = None"
| "scan_fields strict (Suc fuel) d cs = (case cs of [] \<Rightarrow> None | c # s \<Rightarrow>
      if c \<noteq> DQ then None
      else case read_string fuel s of None \<Rightarrow> None
        | Some (k, r) \<Rightarrow> (case skip_space r of [] \<Rightarrow> None
            | e # r1 \<Rightarrow> if e \<noteq> CHR '':'' then None
                else case scan_once strict fuel (skip_space r1) of None \<Rightarrow> None
                  | Some (v, r2) \<Rightarrow> (if strict \<and> k \<in> set (dkeys d) then None else let d = dset d k v in case skip_space r2 of [] \<Rightarrow> None
                      | e # r3 \<Rightarrow> if e = CHR ''}'' then Some (d, r3)
                          else if e = CHR '','' then scan_fields strict fuel d (skip_space r3) else None)))"

definition loads_with :: "bool \<Rightarrow> string \<Rightarrow> json option" where
  "loads_with strict s = (case scan_once strict (Suc (length s)) (skip_space s) of None \<Rightarrow> None
     | Some (v, r) \<Rightarrow> if skip_space r = [] then Some v else None)"

abbreviation loads :: "string \<Rightarrow> json option" where
  "loads \<equiv> loads_with False"

section \<open>What is printed is read back\<close>

text \<open>Values without floats and with distinct keys, and their form with sorted keys.\<close>

fun plain_json :: "json \<Rightarrow> bool" where
  "plain_json (JFloat x) = False"
| "plain_json (JSpecial t) = False"
| "plain_json (JList items) = list_all plain_json items"
| "plain_json (JObj fs) = (distinct (map fst fs) \<and> list_all (\<lambda>(k, v). plain_json v) fs)"
| "plain_json v = True"

fun sorted_json :: "json \<Rightarrow> json" where
  "sorted_json (JList items) = JList (map sorted_json items)"
| "sorted_json (JObj fs) = JObj (sort_key fst (map (\<lambda>(k, v). (k, sorted_json v)) fs))"
| "sorted_json v = v"

lemma print_items_map: "print_items q frepr vs = map (print_json q frepr) vs"
  by (induction vs) auto

lemma print_fields_map: "print_fields q frepr fs = map (\<lambda>(k, v). (k, q k @ '':'' @ print_json q frepr v)) fs"
  by (induction fs) auto

lemma insort_key_map: "(\<And>x. fst (g x) = fst x) \<Longrightarrow> insort_key fst (g x) (map g xs) = map g (insort_key fst x xs)"
  by (induction xs) auto

lemma sort_key_map: "(\<And>x. fst (g x) = fst x) \<Longrightarrow> sort_key fst (map g xs) = map g (sort_key fst xs)"
  by (induction xs) (auto simp: insort_key_map)

lemma read_hex4_pad: "n < 256 \<Longrightarrow> read_hex4 (hex_pad 4 n @ r) = Some (char_of n, r)"
proof -
  assume n: "n < 256"
  have four: "hex_pad 4 n = hex_pad (Suc (Suc (Suc (Suc 0)))) n" by (rule arg_cong[where f = "\<lambda>k. hex_pad k n"]) simp
  have "hex_pad 4 n = [hex_char (n div 16 div 16 div 16 mod 16), hex_char (n div 16 div 16 mod 16), hex_char (n div 16 mod 16), hex_char (n mod 16)]"
    using four by (simp only: hex_pad.simps append.simps)
  moreover have "n div 16 < 16" using n by (simp add: less_mult_imp_div_less)
  ultimately show ?thesis using n by (simp add: read_hex4_def Let_def)
qed

text \<open>Escapes are read back one by one.\<close>

definition escapes :: "(char \<Rightarrow> string) \<Rightarrow> bool" where
  "escapes e \<longleftrightarrow> (\<forall>c fuel r. e c \<noteq> [] \<and>
     read_string (Suc fuel) (e c @ r) = map_option (\<lambda>(t, r'). (c # t, r')) (read_string fuel r))"

lemma escapes_json: "escapes json_escape" "escapes raw_escape"
proof -
  have u: "read_string (Suc fuel) (BS # CHR ''u'' # hex_pad 4 (code c) @ r) = map_option (\<lambda>(t, r'). (c # t, r')) (read_string fuel r)" for c fuel r
    using read_hex4_pad[of "code c" r] by (simp add: in_range_def code_def)
  have p: "in_range 32 126 c \<Longrightarrow> \<not> in_range 0 31 c" for c by (auto simp: in_range_def)
  show "escapes json_escape"
    using u p by (auto simp: escapes_def json_escape_def simple_escape_def in_range_def code_def)
  show "escapes raw_escape"
    using u by (auto simp: escapes_def raw_escape_def simple_escape_def in_range_def code_def)
qed

lemma read_string_escapes:
  assumes "escapes e" "length s < fuel"
  shows "read_string fuel (concat (map e s) @ DQ # r) = Some (s, r)"
  using assms(2)
proof (induction s arbitrary: fuel)
  case Nil
  then obtain f where "fuel = Suc f" by (cases fuel) auto
  then show ?case by simp
next
  case (Cons c s)
  then obtain f where f: "fuel = Suc f" "length s < f" by (cases fuel) auto
  with Cons.IH[of f] show ?case using assms(1) by (simp add: escapes_def)
qed

lemma length_escapes: "escapes e \<Longrightarrow> length s \<le> length (concat (map e s))"
proof (induction s)
  case (Cons c s)
  have "1 \<le> length (e c)" using Cons.prems by (simp add: escapes_def Suc_le_eq)
  with Cons show ?case by simp
qed simp

text \<open>What may follow a value.\<close>

definition stops :: "string \<Rightarrow> bool" where
  "stops r \<longleftrightarrow> r = [] \<or> hd r \<in> {CHR '','', CHR '']'', CHR ''}''}"

lemma stops_head:
  assumes "stops (c # r)"
  shows "\<not> is_digit c" "c \<noteq> CHR ''.''" "c \<noteq> CHR ''e''" "c \<noteq> CHR ''E''"
  using assms by (auto simp: stops_def is_digit_def in_range_def code_def)

lemma stops_facts:
  assumes "stops r"
  shows "list_all is_digit ds \<Longrightarrow> takeWhile is_digit (ds @ r) = ds"
    and "list_all is_digit ds \<Longrightarrow> dropWhile is_digit (ds @ r) = r"
    and "read_fraction r = None" "read_exponent r = None"
  using assms stops_head
  by (cases r; simp add: list_all_iff read_fraction_def read_exponent_def split: list.split)+

lemma read_integer_show: "stops r \<Longrightarrow> read_integer (show_int n @ r) = Some (n, r)"
proof -
  assume r: "stops r"
  have nat: "read_integer (p @ show_nat m @ r) = Some (if p = [] then int m else - int m, r)" if "p \<in> {[], ''-''}" "p = [] \<or> 0 < m" for p m
  proof -
    obtain c cs where c: "show_nat m = c # cs" by (cases "show_nat m") auto
    have d: "is_digit c" "list_all is_digit (c # cs)" using show_nat_digits[of m] c by simp_all
    have sg: "split_sign (p @ show_nat m @ r) = (p \<noteq> [], show_nat m @ r)"
      using that(1) c d by (auto simp: split_sign_def is_digit_def in_range_def code_def)
    show ?thesis
    proof (cases "m = 0")
      case True
      then show ?thesis using sg that(2) by (simp add: read_integer_def show_nat_zero)
    next
      case False
      then have "c \<noteq> CHR ''0''" using hd_show_nat[of m] c by simp
      moreover have "takeWhile is_digit (c # cs @ r) = c # cs" "dropWhile is_digit (c # cs @ r) = r"
        using stops_facts(1,2)[OF r d(2)] by simp_all
      moreover have "digits_val (c # cs) = m" using c digits_val_show_nat[of m] by simp
      ultimately show ?thesis using sg c d(1) by (simp add: read_integer_def Let_def)
    qed
  qed
  from nat[of "''-''" "nat (- n)"] nat[of "[]" "nat n"] show ?thesis by (auto simp: show_int_def)
qed

lemma show_int_hd: "\<exists>c cs. show_int n = c # cs \<and> (c = CHR ''-'' \<or> is_digit c)"
proof -
  obtain c cs where "show_nat (nat n) = c # cs" by (cases "show_nat (nat n)") auto
  with show_nat_digits[of "nat n"] show ?thesis by (auto simp: show_int_def)
qed

lemma read_literal_int: "stops r \<Longrightarrow> read_literal strict (show_int n @ r) = Some (JInt n, r)"
proof -
  assume r: "stops r"
  obtain c cs where c: "show_int n = c # cs" "c = CHR ''-'' \<or> is_digit c" using show_int_hd by blast
  then have "c \<notin> {CHR ''n'', CHR ''t'', CHR ''f''}" by (auto simp: is_digit_def in_range_def code_def)
  then have "\<not> startswith (show_int n @ r) ''null''" "\<not> startswith (show_int n @ r) ''true''" "\<not> startswith (show_int n @ r) ''false''"
    using c by (auto simp: startswith_def)
  moreover have "read_number (show_int n @ r) = Some (JInt n, r)"
    using read_integer_show[OF r, of n] stops_facts(3,4)[OF r] by (simp add: read_number_def Let_def)
  ultimately show ?thesis by (simp add: read_literal_def)
qed

section \<open>Structured values\<close>

lemma skip_space_nonspace: "s = [] \<or> \<not> json_space (hd s) \<Longrightarrow> skip_space s = s"
  by (cases s) (auto simp: skip_space_def)

lemma skip_space_mark [simp]:
  "skip_space (CHR '','' # r) = CHR '','' # r" "skip_space (CHR '']'' # r) = CHR '']'' # r"
  "skip_space (CHR ''}'' # r) = CHR ''}'' # r" "skip_space (CHR '':'' # r) = CHR '':'' # r" "skip_space (DQ # r) = DQ # r"
  "skip_space [] = []"
  by (simp_all add: skip_space_def json_space_def)

lemma dset_new: "k \<notin> set (map fst d) \<Longrightarrow> dset d k v = d @ [(k, v)]"
  by (induction d) auto

locale string_printer =
  fixes q :: "string \<Rightarrow> string"
  assumes quoted: "\<exists>t. q s = DQ # t"
    and read_back: "length (q s) \<le> fuel \<Longrightarrow> read_string fuel (tl (q s) @ r) = Some (s, r)"
begin

lemma dumps_hd:
  assumes "plain_json v"
  shows "\<exists>c cs. print_json q frepr v = c # cs \<and> \<not> json_space c \<and> c \<noteq> CHR '']'' \<and> c \<noteq> CHR ''}''"
proof (cases v)
  case (JInt n)
  obtain c cs where "show_int n = c # cs" "c = CHR ''-'' \<or> is_digit c" using show_int_hd by blast
  with JInt show ?thesis by (auto simp: json_space_def is_digit_def in_range_def code_def)
next
  case (JStr t)
  then show ?thesis using quoted[of t] by (auto simp: json_space_def)
qed (use assms in \<open>auto simp: json_space_def\<close>)

lemma scan_string: "length (q s) \<le> fuel \<Longrightarrow> scan_once strict (Suc fuel) (q s @ r) = Some (JStr s, r)"
  using quoted[of s] read_back[of s fuel r] by auto

lemma scan_int:
  assumes "stops r"
  shows "scan_once strict (Suc fuel) (show_int n @ r) = Some (JInt n, r)"
proof -
  obtain c cs where c: "show_int n = c # cs" "c = CHR ''-'' \<or> is_digit c" using show_int_hd by blast
  then have "c \<noteq> DQ" "c \<noteq> CHR ''{''" "c \<noteq> CHR ''[''" by (auto simp: is_digit_def in_range_def code_def)
  with read_literal_int[OF assms, of strict n] c(1) show ?thesis by simp
qed

definition reads_back :: "bool \<Rightarrow> (rat \<Rightarrow> string) \<Rightarrow> json \<Rightarrow> bool" where
  "reads_back strict frepr v \<longleftrightarrow> (\<forall>fuel r. stops r \<longrightarrow> length (print_json q frepr v) \<le> fuel \<longrightarrow>
     scan_once strict (Suc fuel) (print_json q frepr v @ r) = Some (sorted_json v, r))"

lemma scan_items_dumps:
  assumes "\<And>v. v \<in> set vs \<Longrightarrow> plain_json v \<and> reads_back strict frepr v" "vs \<noteq> []"
    "length (join_with '','' (map (print_json q frepr) vs)) < fuel"
  shows "scan_items strict (Suc fuel) (join_with '','' (map (print_json q frepr) vs) @ CHR '']'' # r) = Some (map sorted_json vs, r)"
  using assms
proof (induction vs arbitrary: fuel)
  case (Cons v vs)
  obtain f where f: "fuel = Suc f" using Cons.prems(3) by (cases fuel) auto
  have v: "scan_once strict (Suc f) (print_json q frepr v @ r') = Some (sorted_json v, r')" if "stops r'" for r'
    using Cons.prems(1)[of v] Cons.prems(3) that f by (cases vs) (auto simp: reads_back_def)
  show ?case
  proof (cases vs)
    case Nil
    then show ?thesis using v[of "CHR '']'' # r"] f by (simp add: stops_def)
  next
    case (Cons w ws)
    obtain c cs where c: "print_json q frepr w = c # cs" "\<not> json_space c" using dumps_hd[of w frepr] Cons.prems(1)[of w] Cons by auto
    have "scan_items strict (Suc f) (join_with '','' (map (print_json q frepr) vs) @ CHR '']'' # r) = Some (map sorted_json vs, r)"
      by (rule Cons.IH) (use Cons.prems Cons f in auto)
    moreover have "skip_space (join_with '','' (map (print_json q frepr) vs) @ CHR '']'' # r) = join_with '','' (map (print_json q frepr) vs) @ CHR '']'' # r"
      by (rule skip_space_nonspace) (use Cons c in \<open>cases ws; simp\<close>)
    ultimately show ?thesis
      using v[of "CHR '','' # join_with '','' (map (print_json q frepr) vs) @ CHR '']'' # r"] f Cons by (simp add: stops_def)
  qed
qed simp

abbreviation (input) field_text :: "(rat \<Rightarrow> string) \<Rightarrow> string \<times> json \<Rightarrow> string" where
  "field_text frepr f \<equiv> q (fst f) @ '':'' @ print_json q frepr (snd f)"

lemma fields_head: "fs \<noteq> [] \<Longrightarrow> \<exists>t. join_with '','' (map (field_text frepr) fs) = DQ # t"
proof (cases fs)
  case (Cons f gs)
  then show ?thesis using quoted[of "fst f"] by (cases gs) auto
qed simp

lemma scan_fields_dumps:
  assumes "\<And>f. f \<in> set fs \<Longrightarrow> plain_json (snd f) \<and> reads_back strict frepr (snd f)" "fs \<noteq> []"
    "length (join_with '','' (map (field_text frepr) fs)) < fuel" "distinct (map fst d @ map fst fs)"
  shows "scan_fields strict (Suc fuel) d (join_with '','' (map (field_text frepr) fs) @ CHR ''}'' # r) =
    Some (d @ map (\<lambda>f. (fst f, sorted_json (snd f))) fs, r)"
  using assms
proof (induction fs arbitrary: fuel d)
  case (Cons f fs)
  obtain k v where kv: "f = (k, v)" by force
  obtain g where g: "fuel = Suc g" using Cons.prems(3) by (cases fuel) auto
  let ?rest = "\<lambda>_. if fs = [] then CHR ''}'' # r else CHR '','' # join_with '','' (map (field_text frepr) fs) @ CHR ''}'' # r"
  have split_text: "join_with '','' (map (field_text frepr) (f # fs)) @ CHR ''}'' # r = q k @ CHR '':'' # print_json q frepr v @ ?rest ()"
    using kv by (cases fs) auto
  have len: "length (q k) + 1 + length (print_json q frepr v) < fuel"
    using Cons.prems(3) kv by (cases fs) auto
  obtain t where t: "q k = DQ # t" using quoted by blast
  have k: "read_string fuel (t @ r') = Some (k, r')" for r' using read_back[of k fuel r'] len t by simp
  obtain c cs where c: "print_json q frepr v = c # cs" "\<not> json_space c" using dumps_hd[of v frepr] Cons.prems(1)[of f] kv by auto
  have v: "scan_once strict fuel (print_json q frepr v @ ?rest ()) = Some (sorted_json v, ?rest ())"
    using Cons.prems(1)[of f] kv len t unfolding g reads_back_def by (auto simp: stops_def)
  have d: "dset d k (sorted_json v) = d @ [(k, sorted_json v)]" "k \<notin> set (dkeys d)"
    using Cons.prems(4) kv by (auto simp: dkeys_def intro!: dset_new)
  have skip: "skip_space (print_json q frepr v @ ?rest ()) = print_json q frepr v @ ?rest ()" using c by (intro skip_space_nonspace) simp
  have step: "scan_fields strict (Suc fuel) d (q k @ CHR '':'' # print_json q frepr v @ ?rest ()) =
      (if fs = [] then Some (d @ [(k, sorted_json v)], r)
       else scan_fields strict fuel (d @ [(k, sorted_json v)]) (skip_space (join_with '','' (map (field_text frepr) fs) @ CHR ''}'' # r)))"
    using k v d skip t by (simp add: Let_def)
  show ?case
  proof (cases "fs = []")
    case True
    then show ?thesis using step split_text kv by simp
  next
    case False
    have "scan_fields strict (Suc g) (d @ [(k, sorted_json v)]) (join_with '','' (map (field_text frepr) fs) @ CHR ''}'' # r) =
        Some ((d @ [(k, sorted_json v)]) @ map (\<lambda>f. (fst f, sorted_json (snd f))) fs, r)"
      by (rule Cons.IH) (use Cons.prems False kv g in \<open>auto simp: neq_Nil_conv\<close>)
    moreover have "skip_space (join_with '','' (map (field_text frepr) fs) @ CHR ''}'' # r) = join_with '','' (map (field_text frepr) fs) @ CHR ''}'' # r"
      using fields_head[OF False, of frepr] by auto
    ultimately show ?thesis using step split_text kv g False by simp
  qed
qed simp

lemma dumps_object: "print_json q frepr (JObj fs) = ''{'' @ join_with '','' (map (field_text frepr) (sort_key fst fs)) @ ''}''"
proof -
  have "sort_key fst (print_fields q frepr fs) = map (\<lambda>f. (fst f, field_text frepr f)) (sort_key fst fs)"
    using sort_key_map[of "\<lambda>f. (fst f, field_text frepr f)" fs] by (simp add: print_fields_map case_prod_unfold)
  then show ?thesis by (simp add: comp_def)
qed

lemma scan_dumps: "plain_json v \<Longrightarrow> reads_back strict frepr v"
proof (induction v)
  case JNull
  then show ?case by (simp add: reads_back_def read_literal_def startswith_def)
next
  case (JBool b)
  then show ?case by (simp add: reads_back_def read_literal_def startswith_def)
next
  case (JInt n)
  then show ?case by (simp add: reads_back_def scan_int del: scan_once.simps)
next
  case (JStr s)
  then show ?case by (auto simp: reads_back_def scan_string simp del: scan_once.simps)
next
  case (JList items)
  show ?case
  proof (cases items)
    case Nil
    then show ?thesis by (simp add: reads_back_def print_items_map)
  next
    case (Cons w ws)
    obtain c cs where c: "print_json q frepr w = c # cs" "\<not> json_space c" "c \<noteq> CHR '']''"
      using dumps_hd[of w frepr] JList.prems Cons by auto
    then have head: "skip_space (join_with '','' (map (print_json q frepr) items) @ r') = join_with '','' (map (print_json q frepr) items) @ r'"
      "\<exists>t. join_with '','' (map (print_json q frepr) items) = c # t" for r'
      using Cons by (cases ws; simp add: skip_space_def)+
    have "scan_items strict fuel (join_with '','' (map (print_json q frepr) items) @ CHR '']'' # r) = Some (map sorted_json items, r)"
      if "length (join_with '','' (map (print_json q frepr) items)) + 2 \<le> fuel" for fuel r
      using scan_items_dumps[of items strict frepr "fuel - 1" r] JList that Cons by (cases fuel) (auto simp: list_all_iff)
    with head c(3) show ?thesis by (auto simp: reads_back_def print_items_map)
  qed
next
  case (JObj fs)
  let ?gs = "sort_key fst fs"
  have gs: "plain_json (snd f) \<and> reads_back strict frepr (snd f)" if "f \<in> set ?gs" for f
  proof -
    obtain k v where f: "f = (k, v)" by force
    have "plain_json v" using JObj.prems that f by (fastforce simp: list_all_iff)
    moreover have "f \<in> set fs" using that by simp
    ultimately show ?thesis using JObj.IH[of f v] f by simp
  qed
  have sorted: "sort_key fst (map (\<lambda>(k, v). (k, sorted_json v)) fs) = map (\<lambda>f. (fst f, sorted_json (snd f))) ?gs"
    using sort_key_map[of "\<lambda>f. (fst f, sorted_json (snd f))" fs] by (simp add: case_prod_unfold)
  have dist: "distinct (map fst ?gs)" using JObj.prems by (metis distinct_map distinct_sort inj_on_def plain_json.simps(4) set_sort)
  show ?case
  proof (cases "fs = []")
    case True
    then show ?thesis by (simp add: reads_back_def)
  next
    case False
    then have ne: "?gs \<noteq> []" by (metis set_empty set_sort)
    have head: "\<exists>t. join_with '','' (map (field_text frepr) ?gs) = DQ # t" by (rule fields_head[OF ne])
    have "scan_fields strict fuel [] (join_with '','' (map (field_text frepr) ?gs) @ CHR ''}'' # r) =
        Some (map (\<lambda>f. (fst f, sorted_json (snd f))) ?gs, r)"
      if "length (join_with '','' (map (field_text frepr) ?gs)) + 2 \<le> fuel" for fuel r
      using scan_fields_dumps[of ?gs strict frepr "fuel - 1" "[]" r] gs ne dist that by (cases fuel) auto
    with head show ?thesis unfolding reads_back_def dumps_object sorted_json.simps sorted by auto
  qed
qed simp_all

lemma loads_print:
  assumes "plain_json v"
  shows "loads_with strict (print_json q frepr v) = Some (sorted_json v)"
proof -
  obtain c cs where "print_json q frepr v = c # cs" "\<not> json_space c" using dumps_hd[OF assms] by blast
  then have "skip_space (print_json q frepr v) = print_json q frepr v" by (simp add: skip_space_def)
  moreover have "scan_once strict (Suc (length (print_json q frepr v))) (print_json q frepr v) = Some (sorted_json v, [])"
    using scan_dumps[OF assms, of strict frepr, unfolded reads_back_def, rule_format, of "[]" "length (print_json q frepr v)"] by (simp add: stops_def)
  ultimately show ?thesis by (simp add: loads_with_def)
qed

end

lemma read_back_escapes:
  assumes "escapes e" "length ([DQ] @ concat (map e s) @ [DQ]) \<le> fuel"
  shows "read_string fuel (concat (map e s) @ DQ # r) = Some (s, r)"
  using length_escapes[OF assms(1), of s] assms(2) by (intro read_string_escapes[OF assms(1)]) simp

interpretation ascii_json: string_printer dumps_string
  using read_back_escapes[OF escapes_json(1)] by unfold_locales (simp_all add: dumps_string_def)

interpretation raw_json: string_printer raw_string
  using read_back_escapes[OF escapes_json(2)] by unfold_locales (simp_all add: raw_string_def)

lemma loads_dumps: "plain_json v \<Longrightarrow> loads_with strict (dumps frepr v) = Some (sorted_json v)"
  by (rule ascii_json.loads_print)

lemma loads_raw: "plain_json v \<Longrightarrow> loads_with strict (dumps_raw frepr v) = Some (sorted_json v)"
  by (rule raw_json.loads_print)

end
