(* ===== verification/Catalog_Schema.thy ===== *)
theory Catalog_Schema
  imports Json Sanitize
begin

text \<open>
  The catalogue database (\<^verbatim>\<open>storage/catalog_schema.py\<close>): one record per table with the columns in
  declaration order, the constraints SQLite enforces, and the connection with Python's implicit
  transactions.

  A table is the list of its rows in rowid order. \<^verbatim>\<open>NOT NULL\<close> is the absence of \<^typ>\<open>'a option\<close>. The
  text of \<^verbatim>\<open>datetime('now')\<close> is an argument of every operation that writes it.
\<close>

section \<open>Tables\<close>

record project_row =
  pr_project_id :: string
  pr_repository_root :: string
  pr_git_common_dir :: string
  pr_registered_at :: string
  pr_updated_at :: string
  pr_registration_state :: string

record backup_row =
  b_id :: string
  b_source_base_url :: string
  b_database_name :: string
  b_format :: string
  b_filestore_requested :: int
  b_path :: "string option"
  b_filename :: "string option"
  b_size_bytes :: "int option"
  b_sha256 :: "string option"
  b_state :: string
  b_started_at :: string
  b_downloaded_at :: "string option"
  b_failed_at :: "string option"
  b_deleted_at :: "string option"
  b_error_type :: "string option"
  b_error_message :: "string option"
  b_project_id :: "string option"
  b_source_git_branch :: "string option"
  b_source_name :: "string option"
  b_pinned :: int

record backup_event_row =
  be_sequence :: nat
  be_backup_id :: string
  be_event_type :: string
  be_occurred_at :: string
  be_path :: "string option"
  be_validator :: "string option"
  be_exit_code :: "int option"
  be_message :: "string option"

record restore_row =
  r_sequence :: nat
  r_db_host :: string
  r_db_port :: int
  r_database_name :: string
  r_backup_id :: "string option"
  r_source_kind :: string
  r_source_sha256 :: "string option"
  r_restored_at :: string
  r_cluster_id :: "string option"
  r_data_directory :: "string option"
  r_state :: string
  r_database_oid :: "int option"

record database_event_row =
  de_sequence :: nat
  de_db_host :: string
  de_db_port :: int
  de_database_name :: string
  de_event_type :: string
  de_occurred_at :: string
  de_backup_id :: "string option"
  de_source_kind :: "string option"
  de_source_sha256 :: "string option"
  de_cluster_id :: "string option"
  de_data_directory :: "string option"

record binding_row =
  pb_project_id :: string
  pb_cluster_id :: string
  pb_db_host :: string
  pb_db_port :: int
  pb_database_name :: string
  pb_database_oid :: "int option"
  pb_bound_at :: string

record environment_row =
  e_id :: string
  e_name :: string
  e_repository_root :: string
  e_git_common_dir :: string
  e_branch :: string
  e_base_ref :: string
  e_worktree_path :: string
  e_generated_config_path :: string
  e_python_environment_path :: string
  e_python_environment_owned :: int
  e_dependency_lock_path :: string
  e_db_mode :: string
  e_source_db_name :: "string option"
  e_target_db_name :: "string option"
  e_backup_id :: "string option"
  e_runtime_json :: string
  e_state :: string
  e_created_at :: string
  e_last_used_at :: "string option"
  e_removed_at :: "string option"
  e_last_error :: "string option"
  e_recovery_json :: "string option"
  e_project_id :: "string option"
  e_checkout_repository_root :: "string option"
  e_checkout_git_common_dir :: "string option"
  e_checkout_commit_sha :: "string option"
  e_code_ownership :: string
  e_artifact_root :: "string option"
  e_adoption_input_fingerprint :: "string option"
  e_applied_settings_json :: string

record environment_event_row =
  ee_sequence :: nat
  ee_environment_id :: string
  ee_operation :: string
  ee_outcome :: string
  ee_occurred_at :: string
  ee_message :: "string option"

record copy_journal_row =
  cj_environment_id :: string
  cj_target_database :: string
  cj_db_host :: string
  cj_db_port :: int
  cj_db_user :: "string option"
  cj_backup_id :: "string option"
  cj_backup_ownership :: "string option"
  cj_stage :: string
  cj_updated_at :: string

record cluster_row =
  pc_cluster_id :: string
  pc_project_id :: string
  pc_compose_project :: string
  pc_volume_name :: string
  pc_state :: string
  pc_created_at :: string
  pc_activated_at :: "string option"

record runtime_row =
  rt_owner_kind :: string
  rt_owner_id :: string
  rt_root_pid :: int
  rt_create_time :: rat
  rt_started_at :: string
  rt_checkout_branch :: string
  rt_commit_sha :: string
  rt_http_url :: string
  rt_http_port :: int
  rt_database_name :: string
  rt_launch_identity_json :: "string option"
  rt_updated_at :: string

record setting_row =
  sg_key :: string
  sg_value_json :: string
  sg_revision :: int
  sg_created_at :: string
  sg_updated_at :: string

record catalog_db =
  projects :: "project_row list"
  backups :: "backup_row list"
  backup_events :: "backup_event_row list"
  restores :: "restore_row list"
  database_events :: "database_event_row list"
  bindings :: "binding_row list"
  environments :: "environment_row list"
  environment_events :: "environment_event_row list"
  copy_journal :: "copy_journal_row list"
  postgres_clusters :: "cluster_row list"
  runtime :: "runtime_row list"
  catalog_settings :: "setting_row list"

definition empty_db :: catalog_db where
  "empty_db = \<lparr>projects = [], backups = [], backup_events = [], restores = [], database_events = [],
     bindings = [], environments = [], environment_events = [], copy_journal = [],
     postgres_clusters = [], runtime = [], catalog_settings = []\<rparr>"

section \<open>Constraints\<close>

definition unique_on :: "('r \<Rightarrow> 'k) \<Rightarrow> 'r list \<Rightarrow> bool" where
  "unique_on key rows \<longleftrightarrow> distinct (map key rows)"

definition refers :: "('r \<Rightarrow> 'k option) \<Rightarrow> 'r list \<Rightarrow> ('p \<Rightarrow> 'k) \<Rightarrow> 'p list \<Rightarrow> bool" where
  "refers fk rows key parents \<longleftrightarrow>
     list_all (\<lambda>r. fk r = None \<or> fk r \<in> Some ` set (map key parents)) rows"

text \<open>\<^verbatim>\<open>length(trim(x)) > 0\<close>: SQLite's \<^verbatim>\<open>trim\<close> strips spaces only.\<close>

definition sql_nonblank :: "string \<Rightarrow> bool" where
  "sql_nonblank s \<longleftrightarrow> strip (\<lambda>c. c = CHR '' '') s \<noteq> []"

definition lower_hex :: "char \<Rightarrow> bool" where
  "lower_hex c \<longleftrightarrow> is_digit c \<or> in_range 97 102 c"

definition sha256_text :: "string \<Rightarrow> bool" where
  "sha256_text s \<longleftrightarrow> length s = 64 \<and> list_all lower_hex s"

definition project_check :: "project_row \<Rightarrow> bool" where
  "project_check p \<longleftrightarrow> pr_registration_state p \<in> {''registered'', ''forgotten''}"

definition backup_check :: "backup_row \<Rightarrow> bool" where
  "backup_check b \<longleftrightarrow> b_format b \<in> {''zip'', ''dump''} \<and> b_filestore_requested b \<in> {0, 1}
     \<and> b_state b \<in> {''downloading'', ''available'', ''failed'', ''deleted''} \<and> b_pinned b \<in> {0, 1}"

definition backup_event_check :: "backup_event_row \<Rightarrow> bool" where
  "backup_event_check e \<longleftrightarrow> be_event_type e \<in> {''download_started'', ''download_succeeded'',
     ''download_failed'', ''validation_succeeded'', ''validation_failed'', ''validation_unavailable'',
     ''pin_set'', ''deleted''}"

definition evidence_check :: "string option \<Rightarrow> string option \<Rightarrow> string option \<Rightarrow> bool" where
  "evidence_check kind backup_id sha \<longleftrightarrow>
     (kind \<in> {None, Some ''catalogue''} \<and> backup_id \<noteq> None \<and> sha = None)
     \<or> (kind \<in> {None, Some ''local_archive''} \<and> backup_id = None
        \<and> (case sha of None \<Rightarrow> False | Some s \<Rightarrow> sha256_text s))"

definition restore_check :: "restore_row \<Rightarrow> bool" where
  "restore_check r \<longleftrightarrow> r_source_kind r \<in> {''catalogue'', ''local_archive''}
     \<and> r_state r \<in> {''complete'', ''incomplete''}
     \<and> evidence_check (Some (r_source_kind r)) (r_backup_id r) (r_source_sha256 r)"

text \<open>
  A \<^verbatim>\<open>CHECK\<close> that evaluates to \<^verbatim>\<open>NULL\<close> is satisfied: with \<open>source_kind\<close> \<^verbatim>\<open>NULL\<close> each comparison with it
  is \<^verbatim>\<open>NULL\<close> and only the other conjuncts decide.
\<close>

definition database_event_check :: "database_event_row \<Rightarrow> bool" where
  "database_event_check e \<longleftrightarrow> de_event_type e \<in> {''restored'', ''bootstrapped'', ''dropped''}
     \<and> de_source_kind e \<in> {None, Some ''catalogue'', Some ''local_archive''}
     \<and> (de_event_type e = ''dropped''
        \<or> (de_event_type e = ''bootstrapped'' \<and> de_database_name e = ''tmp'' \<and> de_backup_id e = None
           \<and> de_source_kind e = None \<and> de_source_sha256 e = None \<and> de_cluster_id e \<noteq> None
           \<and> (case de_data_directory e of None \<Rightarrow> False | Some d \<Rightarrow> sql_nonblank d))
        \<or> evidence_check (de_source_kind e) (de_backup_id e) (de_source_sha256 e))"

definition environment_check :: "environment_row \<Rightarrow> bool" where
  "environment_check e \<longleftrightarrow> e_code_ownership e \<in> {''sdk_owned'', ''caller_owned'', ''unknown''}"

definition environment_event_check :: "environment_event_row \<Rightarrow> bool" where
  "environment_event_check e \<longleftrightarrow>
     ee_operation e \<in> {''checkout'', ''sync'', ''use'', ''shell'', ''remove''}
     \<and> ee_outcome e \<in> {''started'', ''succeeded'', ''failed''}"

definition copy_journal_check :: "copy_journal_row \<Rightarrow> bool" where
  "copy_journal_check j \<longleftrightarrow>
     cj_backup_ownership j \<in> {None, Some ''owned'', Some ''borrowed'', Some ''unknown''}
     \<and> cj_stage j \<in> {''prepared'', ''backed_up'', ''restore_pending'', ''restored'', ''dropped'',
         ''backup_deleted''}"

definition cluster_check :: "cluster_row \<Rightarrow> bool" where
  "cluster_check c \<longleftrightarrow> pc_state c \<in> {''pending'', ''active''}"

definition runtime_check :: "runtime_row \<Rightarrow> bool" where
  "runtime_check r \<longleftrightarrow> rt_owner_kind r \<in> {''environment'', ''project''} \<and> sql_nonblank (rt_owner_id r)"

text \<open>SQLite's \<^verbatim>\<open>json_valid\<close> accepts what \<^verbatim>\<open>json.loads\<close> accepts, without the constants Python adds.\<close>

fun finite_json :: "json \<Rightarrow> bool" where
  "finite_json (JSpecial t) = False"
| "finite_json (JList items) = list_all finite_json items"
| "finite_json (JObj fs) = list_all (\<lambda>(k, v). finite_json v) fs"
| "finite_json v = True"

definition json_valid :: "string \<Rightarrow> bool" where
  "json_valid t \<longleftrightarrow> (case loads t of None \<Rightarrow> False | Some v \<Rightarrow> finite_json v)"

definition setting_check :: "setting_row \<Rightarrow> bool" where
  "setting_check r \<longleftrightarrow> sg_revision r > 0 \<and> sql_nonblank (sg_key r) \<and> json_valid (sg_value_json r)"

definition projects_ok :: "catalog_db \<Rightarrow> bool" where
  "projects_ok d \<longleftrightarrow> unique_on pr_project_id (projects d)
     \<and> unique_on (\<lambda>p. (pr_repository_root p, pr_git_common_dir p)) (projects d)
     \<and> list_all project_check (projects d)"

definition backups_ok :: "catalog_db \<Rightarrow> bool" where
  "backups_ok d \<longleftrightarrow> unique_on b_id (backups d) \<and> list_all backup_check (backups d)
     \<and> refers b_project_id (backups d) pr_project_id (projects d)"

definition backup_events_ok :: "catalog_db \<Rightarrow> bool" where
  "backup_events_ok d \<longleftrightarrow> unique_on be_sequence (backup_events d)
     \<and> list_all backup_event_check (backup_events d)
     \<and> refers (\<lambda>e. Some (be_backup_id e)) (backup_events d) b_id (backups d)"

definition restores_ok :: "catalog_db \<Rightarrow> bool" where
  "restores_ok d \<longleftrightarrow> unique_on r_sequence (restores d) \<and> list_all restore_check (restores d)
     \<and> refers r_backup_id (restores d) b_id (backups d)"

definition database_events_ok :: "catalog_db \<Rightarrow> bool" where
  "database_events_ok d \<longleftrightarrow> unique_on de_sequence (database_events d)
     \<and> list_all database_event_check (database_events d)
     \<and> refers de_backup_id (database_events d) b_id (backups d)"

definition binding_key :: "binding_row \<Rightarrow> string \<times> string \<times> string \<times> int \<times> string" where
  "binding_key b = (pb_project_id b, pb_cluster_id b, pb_db_host b, pb_db_port b, pb_database_name b)"

definition bindings_ok :: "catalog_db \<Rightarrow> bool" where
  "bindings_ok d \<longleftrightarrow> unique_on binding_key (bindings d)"

definition environments_ok :: "catalog_db \<Rightarrow> bool" where
  "environments_ok d \<longleftrightarrow> unique_on e_id (environments d)
     \<and> unique_on (\<lambda>e. (e_git_common_dir e, e_branch e))
         (filter (\<lambda>e. e_state e \<noteq> ''removed'') (environments d))
     \<and> list_all environment_check (environments d)
     \<and> refers e_backup_id (environments d) b_id (backups d)
     \<and> refers e_project_id (environments d) pr_project_id (projects d)"

definition environment_events_ok :: "catalog_db \<Rightarrow> bool" where
  "environment_events_ok d \<longleftrightarrow> unique_on ee_sequence (environment_events d)
     \<and> list_all environment_event_check (environment_events d)
     \<and> refers (\<lambda>e. Some (ee_environment_id e)) (environment_events d) e_id (environments d)"

definition copy_journal_ok :: "catalog_db \<Rightarrow> bool" where
  "copy_journal_ok d \<longleftrightarrow> unique_on cj_environment_id (copy_journal d)
     \<and> list_all copy_journal_check (copy_journal d)
     \<and> refers (\<lambda>j. Some (cj_environment_id j)) (copy_journal d) e_id (environments d)
     \<and> refers cj_backup_id (copy_journal d) b_id (backups d)"

definition postgres_clusters_ok :: "catalog_db \<Rightarrow> bool" where
  "postgres_clusters_ok d \<longleftrightarrow> unique_on pc_cluster_id (postgres_clusters d)
     \<and> unique_on pc_project_id (postgres_clusters d) \<and> list_all cluster_check (postgres_clusters d)"

definition runtime_ok :: "catalog_db \<Rightarrow> bool" where
  "runtime_ok d \<longleftrightarrow> unique_on (\<lambda>r. (rt_owner_kind r, rt_owner_id r)) (runtime d)
     \<and> list_all runtime_check (runtime d)"

definition settings_ok :: "catalog_db \<Rightarrow> bool" where
  "settings_ok d \<longleftrightarrow> unique_on sg_key (catalog_settings d) \<and> list_all setting_check (catalog_settings d)"

definition db_ok :: "catalog_db \<Rightarrow> bool" where
  "db_ok d \<longleftrightarrow> projects_ok d \<and> backups_ok d \<and> backup_events_ok d \<and> restores_ok d
     \<and> database_events_ok d \<and> bindings_ok d \<and> environments_ok d \<and> environment_events_ok d
     \<and> copy_journal_ok d \<and> postgres_clusters_ok d \<and> runtime_ok d \<and> settings_ok d"

lemmas table_ok_defs = projects_ok_def backups_ok_def backup_events_ok_def restores_ok_def
  database_events_ok_def bindings_ok_def environments_ok_def environment_events_ok_def
  copy_journal_ok_def postgres_clusters_ok_def runtime_ok_def settings_ok_def

lemma empty_db_ok: "db_ok empty_db"
  by (simp add: db_ok_def table_ok_defs empty_db_def unique_on_def refers_def)

section \<open>Errors\<close>

datatype sqlite_error = IntegrityError | OperationalError string

fun sqlite_message :: "sqlite_error \<Rightarrow> string" where
  "sqlite_message IntegrityError = ''constraint failed''"
| "sqlite_message (OperationalError m) = m"

datatype catalog_error =
    BackupCatalogError string
  | BackupNotFoundError string
  | BackupNotAvailableError string
  | PyTypeError string
  | PyValueError string
  | PyAssertionError
  | SqliteError sqlite_error

section \<open>The connection\<close>

text \<open>
  \<open>committed\<close> is the database on disk, \<open>working\<close> what this connection sees, \<open>in_tx\<close> whether a
  transaction is open, and \<open>read_only\<close> the catalogue's \<^verbatim>\<open>_read_only\<close> flag.
\<close>

record conn =
  committed :: catalog_db
  working :: catalog_db
  in_tx :: bool
  read_only :: bool

type_synonym 'a cat = "(conn, catalog_error, 'a) act"

definition conn_ok :: "conn \<Rightarrow> bool" where
  "conn_ok c \<longleftrightarrow> db_ok (committed c) \<and> db_ok (working c) \<and> (in_tx c \<or> working c = committed c)"

definition open_catalog :: "catalog_db \<Rightarrow> conn" where
  "open_catalog d = \<lparr>committed = d, working = d, in_tx = False, read_only = False\<rparr>"

definition query_db :: "(catalog_db \<Rightarrow> 'a) \<Rightarrow> 'a cat" where
  "query_db f = reads (f \<circ> working)"

text \<open>
  An \<^verbatim>\<open>INSERT\<close>, \<^verbatim>\<open>UPDATE\<close> or \<^verbatim>\<open>DELETE\<close>: Python opens a transaction first if none is open; a statement
  whose result violates a constraint is undone and raises, and the transaction stays open. The
  value is \<^verbatim>\<open>cursor.rowcount\<close>.
\<close>

definition dml :: "(catalog_db \<Rightarrow> catalog_db \<times> nat) \<Rightarrow> nat cat" where
  "dml f c = (case f (working c) of (d, n) \<Rightarrow>
     if db_ok d then (Inr n, c\<lparr>working := d, in_tx := True\<rparr>)
     else (Inl (SqliteError IntegrityError), c\<lparr>in_tx := True\<rparr>))"

definition commit :: "unit cat" where
  "commit c = (Inr (), c\<lparr>committed := working c, in_tx := False\<rparr>)"

definition rollback :: "unit cat" where
  "rollback c = (Inr (), c\<lparr>working := committed c, in_tx := False\<rparr>)"

text \<open>An explicit \<^verbatim>\<open>BEGIN\<close> or \<^verbatim>\<open>BEGIN IMMEDIATE\<close>.\<close>

definition begin_tx :: "unit cat" where
  "begin_tx c = (if in_tx c
     then (Inl (SqliteError (OperationalError ''cannot start a transaction within a transaction'')), c)
     else (Inr (), c\<lparr>in_tx := True\<rparr>))"

text \<open>\<^verbatim>\<open>with self._conn:\<close> commits on a normal exit and rolls back on an exception.\<close>

definition with_conn :: "'a cat \<Rightarrow> 'a cat" where
  "with_conn m c = (case m c of (Inr x, c') \<Rightarrow> (Inr x, snd (commit c'))
     | (Inl e, c') \<Rightarrow> (Inl e, snd (rollback c')))"

text \<open>\<^verbatim>\<open>try: ... finally: self._conn.rollback()\<close>.\<close>

definition finally_rollback :: "'a cat \<Rightarrow> 'a cat" where
  "finally_rollback m c = (case m c of (r, c') \<Rightarrow> (r, snd (rollback c')))"

text \<open>\<^verbatim>\<open>_translate_sqlite_error\<close>.\<close>

definition translate_error :: "catalog_error \<Rightarrow> catalog_error" where
  "translate_error e = (case e of SqliteError s \<Rightarrow> BackupCatalogError (sqlite_message s) | _ \<Rightarrow> e)"

definition translate_sqlite_error :: "'a cat \<Rightarrow> 'a cat" where
  "translate_sqlite_error m c = (case m c of (Inl e, c') \<Rightarrow> (Inl (translate_error e), c')
     | (Inr x, c') \<Rightarrow> (Inr x, c'))"

section \<open>Statements on one table\<close>

definition update_rows :: "('r \<Rightarrow> bool) \<Rightarrow> ('r \<Rightarrow> 'r) \<Rightarrow> 'r list \<Rightarrow> 'r list" where
  "update_rows P f rows = map (\<lambda>r. if P r then f r else r) rows"

definition delete_rows :: "('r \<Rightarrow> bool) \<Rightarrow> 'r list \<Rightarrow> 'r list" where
  "delete_rows P rows = filter (\<lambda>r. \<not> P r) rows"

definition count_rows :: "('r \<Rightarrow> bool) \<Rightarrow> 'r list \<Rightarrow> nat" where
  "count_rows P rows = length (filter P rows)"

text \<open>A new \<^verbatim>\<open>INTEGER PRIMARY KEY\<close> is one more than the largest in the table.\<close>

definition next_sequence :: "('r \<Rightarrow> nat) \<Rightarrow> 'r list \<Rightarrow> nat" where
  "next_sequence seq rows = Suc (foldr (\<lambda>r. max (seq r)) rows 0)"

text \<open>\<^verbatim>\<open>ORDER BY\<close>: a stable sort by a comparison.\<close>

fun insert_by :: "('r \<Rightarrow> 'r \<Rightarrow> bool) \<Rightarrow> 'r \<Rightarrow> 'r list \<Rightarrow> 'r list" where
  "insert_by le x [] = [x]"
| "insert_by le x (y # ys) = (if le x y then x # y # ys else y # insert_by le x ys)"

definition order_by :: "('r \<Rightarrow> 'r \<Rightarrow> bool) \<Rightarrow> 'r list \<Rightarrow> 'r list" where
  "order_by le rows = foldr (insert_by le) rows []"

definition fetchone :: "'r list \<Rightarrow> 'r option" where
  "fetchone rows = (case rows of [] \<Rightarrow> None | r # _ \<Rightarrow> Some r)"

lemma set_insert_by [simp]: "set (insert_by le x ys) = insert x (set ys)"
  by (induction le x ys rule: insert_by.induct) auto

lemma set_order_by [simp]: "set (order_by le xs) = set xs"
  by (induction xs) (auto simp: order_by_def)

lemma length_insert_by [simp]: "length (insert_by le x ys) = Suc (length ys)"
  by (induction le x ys rule: insert_by.induct) auto

lemma length_order_by [simp]: "length (order_by le xs) = length xs"
  by (induction xs) (auto simp: order_by_def)

lemma order_by_Nil [simp]: "order_by le xs = [] \<longleftrightarrow> xs = []"
  by (metis length_0_conv length_order_by)

lemma distinct_order_by [simp]: "distinct (order_by le xs) \<longleftrightarrow> distinct xs"
  by (metis card_distinct distinct_card length_order_by set_order_by)

text \<open>The orders of the catalogue's queries are total preorders.\<close>

locale row_order =
  fixes le :: "'r \<Rightarrow> 'r \<Rightarrow> bool"
  assumes total: "le a b \<or> le b a"
    and trans: "le a b \<Longrightarrow> le b c \<Longrightarrow> le a c"
begin

lemma sorted_insert_by: "sorted_wrt le ys \<Longrightarrow> sorted_wrt le (insert_by le x ys)"
proof (induction ys)
  case (Cons y ys)
  then show ?case using total[of x y] trans[of x y] by auto
qed simp

lemma sorted_order_by: "sorted_wrt le (order_by le xs)"
  by (induction xs) (auto simp: order_by_def sorted_insert_by)

lemma fetchone_least: "fetchone (order_by le xs) = Some x \<Longrightarrow> x \<in> set xs \<and> (\<forall>y\<in>set xs. le x y)"
proof -
  assume f: "fetchone (order_by le xs) = Some x"
  then obtain ys where o: "order_by le xs = x # ys" by (cases "order_by le xs") (auto simp: fetchone_def)
  have "set xs = insert x (set ys)" using set_order_by[of le xs] o by simp
  moreover have "\<forall>y\<in>set ys. le x y" using sorted_order_by[of xs] o by simp
  moreover have "le x x" using total[of x x] by blast
  ultimately show ?thesis by auto
qed

end

lemma next_sequence_fresh: "r \<in> set rows \<Longrightarrow> seq r < next_sequence seq rows"
proof -
  have "r \<in> set rows \<Longrightarrow> seq r \<le> foldr (\<lambda>r. max (seq r)) rows 0" by (induction rows) auto
  then show "r \<in> set rows \<Longrightarrow> seq r < next_sequence seq rows" by (simp add: next_sequence_def)
qed

lemma fetchone_Some: "fetchone rows = Some r \<Longrightarrow> r \<in> set rows"
  by (cases rows) (auto simp: fetchone_def)

lemma fetchone_None [simp]: "fetchone rows = None \<longleftrightarrow> rows = []"
  by (cases rows) (auto simp: fetchone_def)

section \<open>Transactions\<close>

text \<open>What a call does that never commits.\<close>

definition uncommitted :: "conn \<Rightarrow> conn \<Rightarrow> bool" where
  "uncommitted c c' \<longleftrightarrow> committed c' = committed c \<and> read_only c' = read_only c
     \<and> (conn_ok c \<longrightarrow> conn_ok c')"

interpretation txn: state_preorder uncommitted
  by unfold_locales (auto simp: uncommitted_def)

lemma obeys_query: "obeys uncommitted (query_db f)"
  unfolding query_db_def by (rule txn.obeys_reads)

lemma obeys_dml: "obeys uncommitted (dml f)"
  by (auto simp: obeys_def uncommitted_def dml_def conn_ok_def split: prod.splits)

lemma obeys_begin: "obeys uncommitted begin_tx"
  by (auto simp: obeys_def uncommitted_def begin_tx_def conn_ok_def)

lemma obeys_rollback: "obeys uncommitted rollback"
  by (auto simp: obeys_def uncommitted_def rollback_def conn_ok_def)

lemma obeys_finally: "obeys uncommitted m \<Longrightarrow> obeys uncommitted (finally_rollback m)"
  unfolding obeys_def uncommitted_def finally_rollback_def rollback_def conn_ok_def
  by (simp split: prod.split) (metis snd_conv)

lemma obeys_translate: "obeys uncommitted m \<Longrightarrow> obeys uncommitted (translate_sqlite_error m)"
  unfolding obeys_def translate_sqlite_error_def
  by (simp split: prod.split sum.split) (metis snd_conv)

lemmas txn_rules = txn.obeys_rules obeys_query obeys_dml obeys_begin obeys_rollback obeys_finally
  obeys_translate

text \<open>
  The contract of every catalogue operation: the constraints hold afterwards, and an operation that
  raises has changed nothing on disk.
\<close>

definition op_ok :: "'a cat \<Rightarrow> bool" where
  "op_ok m \<longleftrightarrow> (\<forall>c r c'. conn_ok c \<longrightarrow> m c = (r, c') \<longrightarrow> conn_ok c' \<and> read_only c' = read_only c
     \<and> (\<forall>e. r = Inl e \<longrightarrow> committed c' = committed c))"

lemma op_okI:
  "(\<And>c r c'. conn_ok c \<Longrightarrow> m c = (r, c') \<Longrightarrow> conn_ok c' \<and> read_only c' = read_only c
     \<and> (\<forall>e. r = Inl e \<longrightarrow> committed c' = committed c)) \<Longrightarrow> op_ok m"
  unfolding op_ok_def by (intro allI impI) blast

lemma op_okD:
  "op_ok m \<Longrightarrow> conn_ok c \<Longrightarrow> m c = (r, c') \<Longrightarrow> conn_ok c' \<and> read_only c' = read_only c
     \<and> (\<forall>e. r = Inl e \<longrightarrow> committed c' = committed c)"
  unfolding op_ok_def by blast

lemma op_ok_txn:
  assumes "obeys uncommitted m"
  shows "op_ok m"
proof (rule op_okI)
  fix c r c'
  assume c: "conn_ok c" "m c = (r, c')"
  have "uncommitted c (snd (m c))" using assms by (simp add: obeys_def)
  with c show "conn_ok c' \<and> read_only c' = read_only c \<and> (\<forall>e. r = Inl e \<longrightarrow> committed c' = committed c)"
    by (simp add: uncommitted_def)
qed

lemma op_ok_with: "obeys uncommitted m \<Longrightarrow> op_ok (with_conn m)"
proof (rule op_okI)
  fix c r c'
  assume m: "obeys uncommitted m" and ok: "conn_ok c" and w: "with_conn m c = (r, c')"
  obtain r1 c1 where m1: "m c = (r1, c1)" by force
  with m have "uncommitted c c1" unfolding obeys_def by (metis snd_conv)
  with m1 ok w show "conn_ok c' \<and> read_only c' = read_only c \<and> (\<forall>e. r = Inl e \<longrightarrow> committed c' = committed c)"
    by (cases r1) (auto simp: with_conn_def uncommitted_def commit_def rollback_def conn_ok_def)
qed

lemma op_ok_commit: "op_ok commit"
  by (rule op_okI) (auto simp: commit_def conn_ok_def)

lemma op_ok_bind: "obeys uncommitted m \<Longrightarrow> (\<And>x. op_ok (f x)) \<Longrightarrow> op_ok (abind m f)"
proof (rule op_okI)
  fix c r c'
  assume m: "obeys uncommitted m" and f: "\<And>x. op_ok (f x)" and ok: "conn_ok c"
    and b: "abind m f c = (r, c')"
  obtain r1 c1 where m1: "m c = (r1, c1)" by force
  with m have u: "uncommitted c c1" unfolding obeys_def by (metis snd_conv)
  show "conn_ok c' \<and> read_only c' = read_only c \<and> (\<forall>e. r = Inl e \<longrightarrow> committed c' = committed c)"
  proof (cases r1)
    case (Inl e)
    with m1 b u ok show ?thesis by (auto simp: abind_def uncommitted_def)
  next
    case (Inr x)
    with m1 b have "f x c1 = (r, c')" by (simp add: abind_def)
    with f[of x] u ok show ?thesis unfolding op_ok_def uncommitted_def by metis
  qed
qed

lemma op_ok_seq: "obeys uncommitted m \<Longrightarrow> op_ok n \<Longrightarrow> op_ok (aseq m n)"
  by (simp add: aseq_def op_ok_bind)

text \<open>After the commit only calls that cannot fail may follow.\<close>

lemma op_ok_then_ret:
  assumes "op_ok m"
  shows "op_ok (abind m (\<lambda>x. ret (f x)))"
proof (rule op_okI)
  fix c r c'
  assume c: "conn_ok c" "abind m (\<lambda>x. ret (f x)) c = (r, c')"
  obtain r1 c1 where m: "m c = (r1, c1)" by force
  from op_okD[OF assms c(1) m] c(2) m
  show "conn_ok c' \<and> read_only c' = read_only c \<and> (\<forall>e. r = Inl e \<longrightarrow> committed c' = committed c)"
    by (cases r1) (auto simp: abind_def ret_def)
qed

lemma op_ok_translate:
  assumes "op_ok m"
  shows "op_ok (translate_sqlite_error m)"
proof (rule op_okI)
  fix c r c'
  assume c: "conn_ok c" "translate_sqlite_error m c = (r, c')"
  obtain r1 c1 where m: "m c = (r1, c1)" by force
  from op_okD[OF assms c(1) m] c(2) m
  show "conn_ok c' \<and> read_only c' = read_only c \<and> (\<forall>e. r = Inl e \<longrightarrow> committed c' = committed c)"
    by (cases r1) (auto simp: translate_sqlite_error_def)
qed

lemma op_ok_ret: "op_ok (ret x)"
  by (rule op_ok_txn[OF txn.obeys_ret])

lemma op_ok_throw: "op_ok (throw e)"
  by (rule op_ok_txn[OF txn.obeys_throw])

lemma op_ok_guard: "op_ok n \<Longrightarrow> op_ok (aseq (guard b e) n)"
  by (intro op_ok_seq txn.obeys_guard)

lemma op_ok_if: "op_ok a \<Longrightarrow> op_ok b \<Longrightarrow> op_ok (if P then a else b)"
  by simp

lemma op_ok_option: "op_ok a \<Longrightarrow> (\<And>y. op_ok (f y)) \<Longrightarrow> op_ok (case x of None \<Rightarrow> a | Some y \<Rightarrow> f y)"
  by (cases x) auto

lemma obeys_if: "obeys R a \<Longrightarrow> obeys R b \<Longrightarrow> obeys R (if P then a else b)"
  by simp

lemma obeys_option: "obeys R a \<Longrightarrow> (\<And>y. obeys R (f y)) \<Longrightarrow> obeys R (case x of None \<Rightarrow> a | Some y \<Rightarrow> f y)"
  by (cases x) auto

lemma obeys_prod: "(\<And>a b. x = (a, b) \<Longrightarrow> obeys R (f a b)) \<Longrightarrow> obeys R (case x of (a, b) \<Rightarrow> f a b)"
  by (cases x) auto

lemma op_ok_after: "op_ok m \<Longrightarrow> (\<And>x. obeys uncommitted (f x)) \<Longrightarrow>
    (\<And>c x c'. m c = (Inr x, c') \<Longrightarrow> conn_ok c \<Longrightarrow> \<exists>y. fst (f x c') = Inr y) \<Longrightarrow> op_ok (abind m f)"
proof (rule op_okI)
  fix c r c'
  assume m: "op_ok m" and f: "\<And>x. obeys uncommitted (f x)"
    and ret: "\<And>c x c'. m c = (Inr x, c') \<Longrightarrow> conn_ok c \<Longrightarrow> \<exists>y. fst (f x c') = Inr y"
    and c: "conn_ok c" "abind m f c = (r, c')"
  obtain r1 c1 where m1: "m c = (r1, c1)" by force
  note ok = op_okD[OF m c(1) m1]
  show "conn_ok c' \<and> read_only c' = read_only c \<and> (\<forall>e. r = Inl e \<longrightarrow> committed c' = committed c)"
  proof (cases r1)
    case (Inl e)
    with ok c(2) m1 show ?thesis by (auto simp: abind_def)
  next
    case (Inr x)
    with c(2) m1 have fx: "f x c1 = (r, c')" by (simp add: abind_def)
    have "uncommitted c1 c'" using f[of x] fx unfolding obeys_def by (metis snd_conv)
    moreover obtain y where "r = Inr y" using ret[OF m1[unfolded Inr] c(1)] fx by auto
    ultimately show ?thesis using ok by (simp add: uncommitted_def)
  qed
qed

lemmas op_rules = op_ok_translate op_ok_with op_ok_commit op_ok_seq op_ok_bind op_ok_ret op_ok_throw
  op_ok_if op_ok_option obeys_if obeys_option obeys_prod txn_rules

text \<open>A \<^verbatim>\<open>with\<close> block leaves no transaction open, whatever happens in it.\<close>

lemma with_conn_closed: "with_conn m c = (r, c') \<Longrightarrow> \<not> in_tx c' \<and> working c' = committed c'"
  by (auto simp: with_conn_def commit_def rollback_def split: prod.splits sum.splits)

section \<open>Idle connections\<close>

text \<open>
  Between calls a connection is idle. From an idle connection a \<^verbatim>\<open>with\<close> block either publishes the
  database its body computed, or changes nothing at all.
\<close>

definition idle :: "conn \<Rightarrow> bool" where
  "idle c \<longleftrightarrow> conn_ok c \<and> \<not> in_tx c"

definition publish :: "conn \<Rightarrow> catalog_db \<Rightarrow> conn" where
  "publish c d = c\<lparr>committed := d, working := d\<rparr>"

lemma idle_working: "idle c \<Longrightarrow> working c = committed c"
  by (auto simp: idle_def conn_ok_def)

lemma idle_db_ok: "idle c \<Longrightarrow> db_ok (committed c)"
  by (simp add: idle_def conn_ok_def)

lemma publish_sel [simp]: "committed (publish c d) = d" "working (publish c d) = d"
    "in_tx (publish c d) = in_tx c" "read_only (publish c d) = read_only c"
  by (simp_all add: publish_def)

lemma publish_same: "idle c \<Longrightarrow> publish c (committed c) = c"
  using idle_working[of c] by (simp add: publish_def)

lemma idle_publish [simp]: "idle c \<Longrightarrow> db_ok d \<Longrightarrow> idle (publish c d)"
  by (simp add: idle_def conn_ok_def)

lemma publish_publish [simp]: "publish (publish c d) d' = publish c d'"
  by (simp add: publish_def)

lemma idle_open: "db_ok d \<Longrightarrow> idle (open_catalog d)"
  by (simp add: idle_def conn_ok_def open_catalog_def)

lemma idle_split:
  assumes "idle c" "committed c' = committed c" "read_only c' = read_only c"
  shows "snd (commit c') = publish c (working c')" "snd (rollback c') = c"
  using assms idle_working[OF assms(1)]
  by (auto simp: commit_def rollback_def publish_def idle_def intro: conn.equality)

lemma with_conn_idle:
  assumes "idle c" "obeys uncommitted m"
  shows "with_conn m c = (case m c of (Inl e, _) \<Rightarrow> (Inl e, c)
    | (Inr x, c1) \<Rightarrow> (Inr x, publish c (working c1)))"
proof -
  obtain r c1 where m: "m c = (r, c1)" by force
  have "uncommitted c c1" using assms(2) m unfolding obeys_def by (metis snd_conv)
  then have "committed c1 = committed c" "read_only c1 = read_only c" by (simp_all add: uncommitted_def)
  from idle_split[OF assms(1) this] m show ?thesis by (cases r) (auto simp: with_conn_def)
qed

lemma with_conn_cases:
  assumes "with_conn m c = (r, c')" "idle c" "obeys uncommitted m"
  obtains (raised) e where "r = Inl e" "c' = c"
  | (returned) x c1 where "m c = (Inr x, c1)" "r = Inr x" "c' = publish c (working c1)" "db_ok (working c1)"
proof -
  obtain r1 c1 where m: "m c = (r1, c1)" by force
  have "uncommitted c c1" using assms(3) m unfolding obeys_def by (metis snd_conv)
  then have "conn_ok c1" using assms(2) by (simp add: uncommitted_def idle_def)
  then have d: "db_ok (working c1)" by (simp add: conn_ok_def)
  note w = with_conn_idle[OF assms(2,3)]
  show thesis
  proof (cases r1)
    case (Inl e)
    with m w assms(1) show thesis by (intro raised[of e]) simp_all
  next
    case (Inr x)
    with m w assms(1) d show thesis by (intro returned[of x c1]) simp_all
  qed
qed

lemma with_conn_Inr:
  assumes "idle c" "obeys uncommitted m"
  shows "with_conn m c = (Inr x, c') \<longleftrightarrow> (\<exists>c1. m c = (Inr x, c1) \<and> c' = publish c (working c1))"
  using with_conn_idle[OF assms] by (auto split: prod.splits sum.splits)

lemma dml_idle: "idle c \<Longrightarrow> f (committed c) = (d, n) \<Longrightarrow> db_ok d \<Longrightarrow>
    dml f c = (Inr n, c\<lparr>working := d, in_tx := True\<rparr>)"
  by (simp add: dml_def idle_working)

lemma dml_Inr: "dml f c = (Inr n, c') \<longleftrightarrow>
    (\<exists>d. f (working c) = (d, n) \<and> db_ok d \<and> c' = c\<lparr>working := d, in_tx := True\<rparr>)"
  by (auto simp: dml_def split: prod.splits)

lemma query_Inr: "query_db f c = (Inr x, c') \<longleftrightarrow> x = f (working c) \<and> c' = c"
  by (auto simp: query_db_def reads_def)

lemma lift_Inr: "lift_result r c = (Inr x, c') \<longleftrightarrow> r = Inr x \<and> c' = c"
  by (auto simp: lift_result_def)

lemma ret_Inr: "ret y c = (Inr x, c') \<longleftrightarrow> x = y \<and> c' = c"
  by (auto simp: ret_def)

lemma throw_Inr: "throw e c = (Inr x, c') \<longleftrightarrow> False"
  by (simp add: throw_def)

lemma guard_Inr: "guard b e c = (Inr x, c') \<longleftrightarrow> b \<and> c' = c"
  by (auto simp: guard_def ret_def throw_def)

lemma aseq_Inr: "aseq m n c = (Inr y, c') \<longleftrightarrow> (\<exists>x c1. m c = (Inr x, c1) \<and> n c1 = (Inr y, c'))"
  by (simp add: aseq_def abind_Inr_iff)

lemma translate_Inr: "translate_sqlite_error m c = (Inr x, c') \<longleftrightarrow> m c = (Inr x, c')"
  by (auto simp: translate_sqlite_error_def split: prod.splits sum.splits)

lemmas run_Inr = dml_Inr query_Inr lift_Inr ret_Inr throw_Inr guard_Inr aseq_Inr abind_Inr_iff translate_Inr

text \<open>From an idle connection an operation that raises changes nothing, if it leaves it idle.\<close>

lemma op_ok_raise_idle:
  assumes "op_ok m" "idle c" "m c = (Inl e, c')" "\<not> in_tx c'"
  shows "c' = c"
proof -
  have "conn_ok c' \<and> read_only c' = read_only c \<and> committed c' = committed c"
    using op_okD[OF assms(1) _ assms(3)] assms(2) by (simp add: idle_def)
  with assms(2,4) show ?thesis by (auto simp: idle_def conn_ok_def intro!: conn.equality)
qed

text \<open>Operations that do nothing on disk outside \<^verbatim>\<open>with\<close> blocks keep the connection idle.\<close>

definition keeps_idle :: "'a cat \<Rightarrow> bool" where
  "keeps_idle m \<longleftrightarrow> (\<forall>c. idle c \<longrightarrow> idle (snd (m c)))"

lemma keeps_idle_rules:
  "keeps_idle (ret x)" "keeps_idle (throw e)" "keeps_idle (lift_result r)" "keeps_idle (query_db f)"
  "keeps_idle (guard b e)" "keeps_idle (reads g)"
  by (simp_all add: keeps_idle_def ret_def throw_def lift_result_def query_db_def reads_def guard_def)

lemma keeps_idle_bind: "keeps_idle m \<Longrightarrow> (\<And>x. keeps_idle (f x)) \<Longrightarrow> keeps_idle (abind m f)"
  unfolding keeps_idle_def abind_def by (simp split: prod.split sum.split) (metis snd_conv)

lemma keeps_idle_seq: "keeps_idle m \<Longrightarrow> keeps_idle n \<Longrightarrow> keeps_idle (aseq m n)"
  by (simp add: aseq_def keeps_idle_bind)

lemma keeps_idle_translate: "keeps_idle m \<Longrightarrow> keeps_idle (translate_sqlite_error m)"
  unfolding keeps_idle_def translate_sqlite_error_def by (simp split: prod.split sum.split) (metis snd_conv)

lemma keeps_idle_with:
  assumes "obeys uncommitted m"
  shows "keeps_idle (with_conn m)"
  unfolding keeps_idle_def
proof (intro allI impI)
  fix c
  assume c: "idle c"
  obtain r c' where w: "with_conn m c = (r, c')" by force
  show "idle (snd (with_conn m c))"
    by (rule with_conn_cases[OF w c assms]) (simp_all add: w c)
qed

lemma keeps_idle_if: "keeps_idle a \<Longrightarrow> keeps_idle b \<Longrightarrow> keeps_idle (if P then a else b)"
  by simp

lemma keeps_idle_option:
  "keeps_idle a \<Longrightarrow> (\<And>y. keeps_idle (f y)) \<Longrightarrow> keeps_idle (case x of None \<Rightarrow> a | Some y \<Rightarrow> f y)"
  by (cases x) auto

lemmas idle_rules = keeps_idle_rules keeps_idle_bind keeps_idle_seq keeps_idle_translate
  keeps_idle_with keeps_idle_if keeps_idle_option

text \<open>Such an operation is all or nothing: from an idle connection a raise changes nothing.\<close>

lemma raise_changes_nothing:
  assumes "op_ok m" "keeps_idle m" "idle c" "m c = (Inl e, c')"
  shows "c' = c"
proof -
  have "idle c'" using assms(2-4) unfolding keeps_idle_def by (metis snd_conv)
  then show ?thesis using op_ok_raise_idle[OF assms(1,3,4)] by (simp add: idle_def)
qed

text \<open>
  The effect of an operation on an idle connection \<open>c\<close>: it changes nothing, or publishes a database
  that satisfies \<open>Q\<close>.
\<close>

definition commits :: "(catalog_db \<Rightarrow> bool) \<Rightarrow> 'a cat \<Rightarrow> conn \<Rightarrow> bool" where
  "commits Q m c \<longleftrightarrow> (\<forall>r c'. m c = (r, c') \<longrightarrow> c' = c \<or> (\<exists>x d. r = Inr x \<and> db_ok d \<and> Q d \<and> c' = publish c d))"

lemma commitsD:
  assumes "commits Q m c" "m c = (r, c')"
  obtains "c' = c" | d where "Q d" "db_ok d" "c' = publish c d"
  using assms unfolding commits_def by blast

lemma commits_ret: "commits Q (ret x) c"
  by (simp add: commits_def ret_def)

lemma commits_throw: "commits Q (throw e) c"
  by (simp add: commits_def throw_def)

lemma commits_translate: "commits Q m c \<Longrightarrow> commits Q (translate_sqlite_error m) c"
  by (fastforce simp: commits_def translate_sqlite_error_def split: prod.splits sum.splits)

lemma commits_lift: "(\<And>x. r = Inr x \<Longrightarrow> commits Q (f x) c) \<Longrightarrow> commits Q (abind (lift_result r) f) c"
  by (cases r) (auto simp: commits_def abind_def lift_result_def)

lemma commits_query: "commits Q (f (g (working c))) c \<Longrightarrow> commits Q (abind (query_db g) f) c"
  by (simp add: commits_def abind_def query_db_def reads_def)

lemma commits_guard: "(b \<Longrightarrow> commits Q m c) \<Longrightarrow> commits Q (aseq (guard b e) m) c"
  by (cases b) (auto simp: commits_def aseq_def abind_def guard_def ret_def throw_def)

lemma commits_if: "(P \<Longrightarrow> commits Q a c) \<Longrightarrow> (\<not> P \<Longrightarrow> commits Q b c) \<Longrightarrow> commits Q (if P then a else b) c"
  by simp

lemma commits_option: "(x = None \<Longrightarrow> commits Q a c) \<Longrightarrow> (\<And>y. x = Some y \<Longrightarrow> commits Q (f y) c) \<Longrightarrow>
    commits Q (case x of None \<Rightarrow> a | Some y \<Rightarrow> f y) c"
  by (cases x) auto

lemma commits_then_ret: "commits Q m c \<Longrightarrow> commits Q (abind m (\<lambda>x. ret (f x))) c"
  by (fastforce simp: commits_def abind_def ret_def split: prod.splits sum.splits)

lemma commits_with:
  assumes "idle c" "obeys uncommitted m"
    and "\<And>x c1. m c = (Inr x, c1) \<Longrightarrow> db_ok (working c1) \<Longrightarrow> working c1 = committed c \<or> Q (working c1)"
  shows "commits Q (with_conn m) c"
  unfolding commits_def
proof (intro allI impI)
  fix r c'
  assume w: "with_conn m c = (r, c')"
  show "c' = c \<or> (\<exists>x d. r = Inr x \<and> db_ok d \<and> Q d \<and> c' = publish c d)"
  proof (rule with_conn_cases[OF w assms(1,2)])
    fix x c1
    assume "m c = (Inr x, c1)" "r = Inr x" "c' = publish c (working c1)" "db_ok (working c1)"
    with assms(3)[of x c1] publish_same[OF assms(1)] show ?thesis by auto
  qed simp
qed

lemmas commit_rules = commits_ret commits_throw commits_translate commits_lift commits_query
  commits_guard commits_if commits_option

text \<open>Running an operation to its result.\<close>

lemmas exec_defs = translate_sqlite_error_def abind_def aseq_def lift_result_def query_db_def reads_def
  ret_def throw_def guard_def with_conn_def dml_def commit_def rollback_def

text \<open>A call inside a transaction that returns \<open>x\<close> and leaves \<open>d\<close> as the working database.\<close>

definition runs :: "'a cat \<Rightarrow> conn \<Rightarrow> 'a \<Rightarrow> catalog_db \<Rightarrow> bool" where
  "runs m c x d \<longleftrightarrow> (\<exists>t. m c = (Inr x, c\<lparr>in_tx := t, working := d\<rparr>))"

lemma runs_ret: "d = working c \<Longrightarrow> runs (ret x) c x d"
  unfolding runs_def ret_def by (rule exI[of _ "in_tx c"]) simp

lemma runs_query: "x = f (working c) \<Longrightarrow> d = working c \<Longrightarrow> runs (query_db f) c x d"
  unfolding runs_def query_db_def reads_def by (rule exI[of _ "in_tx c"]) simp

lemma runs_dml: "f (working c) = (d, n) \<Longrightarrow> db_ok d \<Longrightarrow> runs (dml f) c n d"
  unfolding runs_def dml_def by (rule exI[of _ True]) simp

lemma runs_bind: "runs m c x d \<Longrightarrow> (\<And>t. runs (f x) (c\<lparr>in_tx := t, working := d\<rparr>) y d') \<Longrightarrow> runs (abind m f) c y d'"
  unfolding runs_def abind_def by fastforce

lemma runs_seq: "runs m c x d \<Longrightarrow> (\<And>t. runs n (c\<lparr>in_tx := t, working := d\<rparr>) y d') \<Longrightarrow> runs (aseq m n) c y d'"
  unfolding aseq_def by (rule runs_bind)

lemma runs_guard: "b \<Longrightarrow> runs m c x d \<Longrightarrow> runs (aseq (guard b e) m) c x d"
  unfolding aseq_def abind_def guard_def ret_def runs_def by simp

lemma runs_with: "idle c \<Longrightarrow> runs m c x d \<Longrightarrow> with_conn m c = (Inr x, publish c d)"
  by (auto simp: runs_def with_conn_def commit_def publish_def idle_def)

lemma abind_query: "abind (query_db g) f c = f (g (working c)) c"
  by (simp add: abind_def query_db_def reads_def)

lemma abind_lift: "abind (lift_result (Inr x)) f c = f x c"
  by (simp add: abind_def lift_result_def)

lemma aseq_guard: "b \<Longrightarrow> aseq (guard b e) m c = m c"
  by (simp add: aseq_def abind_def guard_def ret_def)

lemma translate_returns: "m c = (Inr x, c') \<Longrightarrow> translate_sqlite_error m c = (Inr x, c')"
  by (simp add: translate_sqlite_error_def)

lemma runs_query_bind: "runs (f (g (working c))) c y d \<Longrightarrow> runs (abind (query_db g) f) c y d"
  by (simp add: runs_def abind_query)

end
