(* ===== verification/Keyset.thy ===== *)
theory Keyset
  imports Catalog_Schema "HOL-Library.Product_Lexorder"
begin

text \<open>
  Keyset pages over the catalogue: one page is the first \<open>limit\<close> rows in a total order strictly
  beyond a cursor, and the next cursor is the key of its last row, present only when the query
  fetched one row more. The paged queries differ only in their keys, so the argument that following
  the cursors visits every row once is made here for any total order.
\<close>

definition keyset_page :: "('r \<Rightarrow> 'k) \<Rightarrow> ('k \<Rightarrow> 'k \<Rightarrow> bool) \<Rightarrow> ('k \<Rightarrow> 'k \<Rightarrow> bool) \<Rightarrow> 'r list \<Rightarrow> nat
    \<Rightarrow> 'k option \<Rightarrow> 'r list \<times> 'k option" where
  "keyset_page key le beyond rows limit cur =
     (let hits = filter (\<lambda>r. case cur of None \<Rightarrow> True | Some k \<Rightarrow> beyond k (key r)) rows;
          fetched = take (limit + 1) (order_by (\<lambda>x y. le (key x) (key y)) hits);
          page = take limit fetched
      in (page, if length fetched > limit then Some (key (last page)) else None))"

text \<open>A client that follows the cursors, at most \<open>n\<close> pages.\<close>

fun follow :: "('k option \<Rightarrow> 'r list \<times> 'k option) \<Rightarrow> nat \<Rightarrow> 'k option \<Rightarrow> 'r list list \<times> bool" where
  "follow page 0 cur = ([], False)"
| "follow page (Suc n) cur = (case page cur of
     (rows, None) \<Rightarrow> ([rows], True)
   | (rows, Some k) \<Rightarrow> (case follow page n (Some k) of (rest, ended) \<Rightarrow> (rows # rest, ended)))"

locale keyset_order =
  fixes le :: "'k \<Rightarrow> 'k \<Rightarrow> bool" and beyond :: "'k \<Rightarrow> 'k \<Rightarrow> bool"
  assumes total: "le a b \<or> le b a"
    and trans: "le a b \<Longrightarrow> le b c \<Longrightarrow> le a c"
    and antisym: "le a b \<Longrightarrow> le b a \<Longrightarrow> a = b"
    and beyond_iff: "beyond k x \<longleftrightarrow> le k x \<and> k \<noteq> x"
begin

lemma sorted_by_key: "sorted_wrt (\<lambda>x y. le (key x) (key y)) (order_by (\<lambda>x y. le (key x) (key y)) xs)"
proof -
  have r: "row_order (\<lambda>x y. le (key x) (key y))"
    by unfold_locales (use total trans in blast)+
  show ?thesis by (rule row_order.sorted_order_by[OF r])
qed

lemma sorted_unique:
  "sorted_wrt (\<lambda>x y. le (key x) (key y)) xs \<Longrightarrow> sorted_wrt (\<lambda>x y. le (key x) (key y)) ys \<Longrightarrow>
   distinct (map key xs) \<Longrightarrow> distinct (map key ys) \<Longrightarrow> set xs = set ys \<Longrightarrow> xs = ys"
proof (induction xs arbitrary: ys)
  case (Cons x xs)
  then obtain y ys' where ys: "ys = y # ys'" by (cases ys) auto
  have inj: "inj_on key (set (x # xs))" using Cons.prems(3) by (simp only: distinct_map)
  have "key x = key y"
  proof (rule antisym)
    have "le (key z) (key z)" for z using total[of "key z" "key z"] by blast
    note rf = this
    have "y \<in> set (x # xs)" "x \<in> set (y # ys')" using Cons.prems(5) ys by (metis list.set_intros(1))+
    then show "le (key x) (key y)" "le (key y) (key x)"
      using rf Cons.prems(1,2) ys by (auto simp only: sorted_wrt.simps set_simps)
  qed
  then have xy: "x = y" using inj Cons.prems(5) ys by (auto dest: inj_onD)
  have "x \<notin> set xs" "y \<notin> set ys'" using Cons.prems(3,4) ys by (auto simp: distinct_map)
  then have "set xs = set ys'" using Cons.prems(5) ys xy by auto
  with Cons ys xy show ?case by simp
qed simp

text \<open>The rows beyond the last row of a page are the sorted rows after it.\<close>

lemma rows_beyond:
  assumes "distinct (map key rows)" "0 < n" "n \<le> length rows"
  defines "S \<equiv> order_by (\<lambda>x y. le (key x) (key y)) rows"
  shows "order_by (\<lambda>x y. le (key x) (key y)) (filter (\<lambda>r. beyond (key (S ! (n - 1))) (key r)) rows) = drop n S"
proof -
  let ?k = "key (S ! (n - 1))" and ?le = "\<lambda>x y. le (key x) (key y)"
  have len: "length S = length rows" by (simp add: S_def)
  have inj: "inj_on key (set rows)" and dr: "distinct rows" using assms(1) by (simp_all add: distinct_map)
  have dS: "distinct S" using dr by (simp add: S_def)
  have setS: "set S = set rows" by (simp add: S_def)
  have sortS: "sorted_wrt ?le S" unfolding S_def by (rule sorted_by_key)
  have "set (drop n S) = set (filter (\<lambda>r. beyond ?k (key r)) rows)"
  proof
    show "set (drop n S) \<subseteq> set (filter (\<lambda>r. beyond ?k (key r)) rows)"
    proof
      fix r assume "r \<in> set (drop n S)"
      then obtain j where "j < length (drop n S)" "drop n S ! j = r" by (meson in_set_conv_nth)
      then obtain i where i: "i < length S" "n \<le> i" "r = S ! i"
        using assms(3) len by (intro that[of "n + j"]) auto
      have lt: "n - 1 < i" using i(2) assms(2) by linarith
      have "le ?k (key r)" using sorted_wrt_nth_less[OF sortS lt i(1)] i(3) by simp
      moreover have "S ! (n - 1) \<noteq> r"
      proof -
        have "n - 1 < length S" using lt i(1) by linarith
        from nth_eq_iff_index_eq[OF dS this i(1)] lt show ?thesis unfolding i(3) by blast
      qed
      moreover have "S ! (n - 1) \<in> set rows" "r \<in> set rows"
        using nth_mem[of "n - 1" S] nth_mem[OF i(1)] lt i(1,3) setS by auto
      ultimately show "r \<in> set (filter (\<lambda>r. beyond ?k (key r)) rows)"
        using inj by (auto simp: beyond_iff dest: inj_onD)
    qed
  next
    show "set (filter (\<lambda>r. beyond ?k (key r)) rows) \<subseteq> set (drop n S)"
    proof
      fix r assume r: "r \<in> set (filter (\<lambda>r. beyond ?k (key r)) rows)"
      then obtain i where i: "i < length S" "r = S ! i" using setS by (metis filter_is_subset in_set_conv_nth subsetD)
      have "\<not> i \<le> n - 1"
      proof
        assume "i \<le> n - 1"
        then have "le (key r) ?k"
          using sorted_wrt_nth_less[OF sortS, of i "n - 1"] i total[of ?k ?k] assms(2,3) len
          by (cases "i = n - 1") auto
        with r antisym show False by (auto simp: beyond_iff)
      qed
      then have "n \<le> i" using assms(2) by linarith
      then have "r = drop n S ! (i - n)" "i - n < length (drop n S)" using i by auto
      then show "r \<in> set (drop n S)" using nth_mem by blast
    qed
  qed
  moreover have "sorted_wrt ?le (drop n S)" using sortS by (metis append_take_drop_id sorted_wrt_append)
  moreover have "distinct (map key (drop n S))"
    using inj dS setS by (simp add: distinct_map) (metis inj_on_subset set_drop_subset)
  moreover have "distinct (map key (order_by ?le (filter (\<lambda>r. beyond ?k (key r)) rows)))"
    using inj dr by (simp add: distinct_map inj_on_def)
  ultimately show ?thesis using sorted_by_key by (intro sorted_unique[of key]) (auto simp del: set_filter)
qed

definition hits :: "('r \<Rightarrow> 'k) \<Rightarrow> 'r list \<Rightarrow> 'k option \<Rightarrow> 'r list" where
  "hits key rows cur = filter (\<lambda>r. case cur of None \<Rightarrow> True | Some k \<Rightarrow> beyond k (key r)) rows"

lemma page_eq:
  "keyset_page key le beyond rows limit cur =
     (let S = order_by (\<lambda>x y. le (key x) (key y)) (hits key rows cur)
      in (take limit S, if length S > limit then Some (key (last (take limit S))) else None))"
  by (simp add: keyset_page_def hits_def Let_def min_def)

lemma hits_next:
  assumes "k \<in> set (hits key rows cur)"
  shows "hits key rows (Some (key k)) = filter (\<lambda>r. beyond (key k) (key r)) (hits key rows cur)"
proof -
  have "beyond (key k) (key r) \<Longrightarrow> (case cur of None \<Rightarrow> True | Some c \<Rightarrow> beyond c (key r))" for r
    using assms trans antisym by (auto simp: hits_def beyond_iff split: option.splits)
  then show ?thesis unfolding hits_def by (auto intro!: filter_cong simp: filter_filter)
qed

lemma follow_all:
  assumes "distinct (map key rows)" "0 < limit"
  shows "length (hits key rows cur) < n \<Longrightarrow>
    \<exists>ps. follow (keyset_page key le beyond rows limit) n cur = (ps, True) \<and>
      concat ps = order_by (\<lambda>x y. le (key x) (key y)) (hits key rows cur) \<and>
      (\<forall>p\<in>set ps. length p \<le> limit)"
proof (induction n arbitrary: cur)
  case (Suc n)
  define S where "S = order_by (\<lambda>x y. le (key x) (key y)) (hits key rows cur)"
  have len: "length S = length (hits key rows cur)" by (simp add: S_def)
  show ?case
  proof (cases "length S > limit")
    case False
    then show ?thesis by (simp add: page_eq Let_def S_def[symmetric] len[symmetric])
  next
    case True
    let ?l = "S ! (limit - 1)"
    have last: "last (take limit S) = ?l"
    proof -
      have "take limit S \<noteq> []" using True assms(2) by auto
      then have "last (take limit S) = take limit S ! (length (take limit S) - 1)" by (rule last_conv_nth)
      then show ?thesis using True assms(2) by (simp add: min_def)
    qed
    have l: "?l \<in> set (hits key rows cur)"
      using True assms(2) nth_mem[of "limit - 1" S] by (simp add: S_def)
    have d: "distinct (map key (hits key rows cur))"
      using assms(1) by (simp add: hits_def distinct_map_filter)
    have nx: "order_by (\<lambda>x y. le (key x) (key y)) (hits key rows (Some (key ?l))) = drop limit S"
      unfolding hits_next[OF l] using rows_beyond[OF d assms(2)] True len by (simp add: S_def)
    then have "length (hits key rows (Some (key ?l))) = length S - limit"
      by (metis length_drop length_order_by)
    with Suc.prems True assms(2) len have "length (hits key rows (Some (key ?l))) < n" by linarith
    from Suc.IH[OF this] nx obtain ps where ps:
      "follow (keyset_page key le beyond rows limit) n (Some (key ?l)) = (ps, True)"
      "concat ps = drop limit S" "\<forall>p\<in>set ps. length p \<le> limit" by auto
    have "follow (keyset_page key le beyond rows limit) (Suc n) cur = (take limit S # ps, True)"
      using True ps(1) last by (simp add: page_eq Let_def S_def[symmetric] len[symmetric])
    with ps show ?thesis by (auto simp: S_def[symmetric])
  qed
qed simp

end

section \<open>Pages by time\<close>

text \<open>
  The bounded read projections order by \<^verbatim>\<open>julianday\<close> of a text column and a key. SQLite's \<^verbatim>\<open>julianday\<close>
  is an argument: the instant of a text, or \<^verbatim>\<open>NULL\<close>. \<^verbatim>\<open>NULL\<close> sorts below every value and satisfies no
  comparison. A cursor holds the text and the key of the last row.
\<close>

type_synonym julian = "string \<Rightarrow> int option"

definition jrank :: "bool \<Rightarrow> int option \<Rightarrow> nat \<times> int" where
  "jrank desc j = (case j of None \<Rightarrow> (if desc then 1 else 0, 0)
     | Some v \<Rightarrow> if desc then (0, - v) else (1, v))"

definition jkey :: "julian \<Rightarrow> bool \<Rightarrow> ('r \<Rightarrow> string) \<Rightarrow> ('r \<Rightarrow> 'k) \<Rightarrow> 'r \<Rightarrow> (nat \<times> int) \<times> 'k" where
  "jkey jd desc time key r = (jrank desc (jd (time r)), key r)"

definition jbeyond :: "julian \<Rightarrow> bool \<Rightarrow> ('r \<Rightarrow> string) \<Rightarrow> ('r \<Rightarrow> 'k :: linorder) \<Rightarrow> (string \<times> 'k) option \<Rightarrow> 'r \<Rightarrow> bool" where
  "jbeyond jd desc time key cur r = (case cur of None \<Rightarrow> True
     | Some (t, k) \<Rightarrow> jd t \<noteq> None \<and> jd (time r) \<noteq> None \<and> (jrank desc (jd t), k) < jkey jd desc time key r)"

definition julian_page :: "julian \<Rightarrow> bool \<Rightarrow> ('r \<Rightarrow> string) \<Rightarrow> ('r \<Rightarrow> 'k :: linorder) \<Rightarrow> 'r list \<Rightarrow> nat
    \<Rightarrow> (string \<times> 'k) option \<Rightarrow> 'r list \<times> (string \<times> 'k) option" where
  "julian_page jd desc time key rows limit cur =
     (let fetched = take (limit + 1) (order_by (\<lambda>x y. jkey jd desc time key x \<le> jkey jd desc time key y)
            (filter (jbeyond jd desc time key cur) rows));
          page = take limit fetched
      in (page, if length fetched > limit then Some (time (last page), key (last page)) else None))"

text \<open>Rows and keys in lexicographic order are an instance of the keyset argument.\<close>

interpretation lex_keys: keyset_order "(\<le>) :: (nat \<times> int) \<times> 'k :: linorder \<Rightarrow> _" "(<)"
  by unfold_locales (auto simp: less_le)

definition jcur :: "julian \<Rightarrow> bool \<Rightarrow> string \<times> 'k \<Rightarrow> (nat \<times> int) \<times> 'k" where
  "jcur jd desc cur = (jrank desc (jd (fst cur)), snd cur)"

lemma julian_page_keyset:
  assumes "\<And>r. r \<in> set rows \<Longrightarrow> jd (time r) \<noteq> None" "\<And>t k. cur = Some (t, k) \<Longrightarrow> jd t \<noteq> None"
  shows "keyset_page (jkey jd desc time key) (\<le>) (<) rows limit (map_option (jcur jd desc) cur) =
    (case julian_page jd desc time key rows limit cur of (page, nxt) \<Rightarrow> (page, map_option (jcur jd desc) nxt))"
proof -
  have "filter (jbeyond jd desc time key cur) rows =
      filter (\<lambda>r. case map_option (jcur jd desc) cur of None \<Rightarrow> True | Some k \<Rightarrow> k < jkey jd desc time key r) rows"
    using assms by (intro filter_cong) (auto simp: jbeyond_def jcur_def split: option.split)
  then show ?thesis
    by (simp add: keyset_page_def julian_page_def Let_def jcur_def jkey_def)
qed

lemma julian_page_last:
  assumes "julian_page jd desc time key rows limit cur = (page, Some (t, k))" "0 < limit"
  shows "\<exists>r\<in>set rows. t = time r \<and> k = key r"
proof -
  let ?S = "order_by (\<lambda>x y. jkey jd desc time key x \<le> jkey jd desc time key y) (filter (jbeyond jd desc time key cur) rows)"
  have p: "page = take limit (take (limit + 1) ?S)" "t = time (last page)" "k = key (last page)" "limit < length (take (limit + 1) ?S)"
    using assms(1) by (auto simp: julian_page_def Let_def split: if_splits)
  then have "page \<noteq> []" using assms(2) by auto
  then have "last page \<in> set page" by simp
  then have "last page \<in> set ?S" using p(1) by (meson in_set_takeD)
  with p(2,3) show ?thesis by auto
qed

lemma julian_page_rows: "julian_page jd desc time key rows limit cur = (page, nxt) \<Longrightarrow> set page \<subseteq> set rows"
  by (auto simp: julian_page_def Let_def dest!: in_set_takeD)

lemma follow_julian:
  assumes "\<And>r. r \<in> set rows \<Longrightarrow> jd (time r) \<noteq> None" "0 < limit"
  shows "(\<And>t k. cur = Some (t, k) \<Longrightarrow> jd t \<noteq> None) \<Longrightarrow>
    follow (julian_page jd desc time key rows limit) n cur =
    follow (keyset_page (jkey jd desc time key) (\<le>) (<) rows limit) n (map_option (jcur jd desc) cur)"
proof (induction n arbitrary: cur)
  case (Suc n)
  obtain page nxt where p: "julian_page jd desc time key rows limit cur = (page, nxt)" by force
  have k: "keyset_page (jkey jd desc time key) (\<le>) (<) rows limit (map_option (jcur jd desc) cur) =
      (page, map_option (jcur jd desc) nxt)"
    using julian_page_keyset[of rows jd time cur desc key limit] assms(1) Suc.prems p by simp
  show ?case
  proof (cases nxt)
    case None
    with p k show ?thesis by simp
  next
    case (Some c)
    obtain t r where c: "c = (t, r)" by force
    have "jd t \<noteq> None" using julian_page_last[OF p[unfolded Some c] assms(2)] assms(1) by auto
    then have "follow (julian_page jd desc time key rows limit) n (Some c) =
        follow (keyset_page (jkey jd desc time key) (\<le>) (<) rows limit) n (map_option (jcur jd desc) (Some c))"
      using c by (intro Suc.IH) auto
    with p k Some show ?thesis by simp
  qed
qed simp

text \<open>Following the cursors ends and yields every row once, provided every time can be read.\<close>

lemma julian_pages_complete:
  assumes "\<And>r. r \<in> set rows \<Longrightarrow> jd (time r) \<noteq> None" "0 < limit" "length rows < n" "distinct (map key rows)"
  shows "\<exists>ps. follow (julian_page jd desc time key rows limit) n None = (ps, True) \<and>
    concat ps = order_by (\<lambda>x y. jkey jd desc time key x \<le> jkey jd desc time key y) rows \<and>
    (\<forall>p\<in>set ps. length p \<le> limit)"
proof -
  have d: "distinct (map (jkey jd desc time key) rows)"
    using assms(4) by (auto simp: distinct_map inj_on_def jkey_def)
  have h: "lex_keys.hits (jkey jd desc time key) rows None = rows" by (simp add: lex_keys.hits_def)
  show ?thesis
    using lex_keys.follow_all[OF d assms(2), of None n] assms(3) follow_julian[of rows jd time limit None desc key n] assms(1,2)
    by (simp add: h)
qed

end
