(* ===== verification/Urls.thy ===== *)
theory Urls
  imports Py_Values
begin

text \<open>
  Base URLs (\<^verbatim>\<open>internal/urls.py\<close>) over a model of \<^verbatim>\<open>urllib.parse.urlsplit\<close>. Whether a bracketed host is
  an IPv6 or IPvFuture literal (\<^verbatim>\<open>ipaddress\<close>) and which host literals are loopback addresses are
  arguments.
\<close>

datatype url_error =
    UrlValueError
  | UnsupportedScheme string
  | CredentialsInUrl
  | QueryInUrl
  | FragmentInUrl
  | NoHostname
  | PathInUrl string
  | NonLocalInstance string

section \<open>Splitting\<close>

record split_result =
  scheme :: string
  netloc :: string
  upath :: string
  query :: string
  fragment :: string

definition rpartition_at :: "char \<Rightarrow> string \<Rightarrow> string \<times> bool \<times> string" where
  "rpartition_at c s = (if c \<in> set s
     then (rev (tl (dropWhile (\<lambda>x. x \<noteq> c) (rev s))), True, rev (takeWhile (\<lambda>x. x \<noteq> c) (rev s)))
     else ([], False, s))"

definition scheme_char :: "char \<Rightarrow> bool" where
  "scheme_char c \<longleftrightarrow> is_alnum c \<or> c \<in> {CHR ''+'', CHR ''-'', CHR ''.''}"

definition split_scheme :: "string \<Rightarrow> string \<times> string" where
  "split_scheme url = (case partition_at (CHR '':'') url of (pre, found, post) \<Rightarrow>
     if found \<and> pre \<noteq> [] \<and> is_alpha (hd url) \<and> list_all scheme_char pre then (lower pre, post)
     else ([], url))"

definition split_netloc :: "string \<Rightarrow> string \<times> string" where
  "split_netloc url = (if startswith url ''//''
     then (takeWhile (\<lambda>c. c \<notin> {CHR ''/'', CHR ''?'', CHR ''#''}) (drop 2 url),
           dropWhile (\<lambda>c. c \<notin> {CHR ''/'', CHR ''?'', CHR ''#''}) (drop 2 url))
     else ([], url))"

definition hostinfo :: "string \<Rightarrow> string \<times> string" where
  "hostinfo nl =
     (let hi = snd (snd (rpartition_at (CHR ''@'') nl));
          (pre, opened, bracketed) = partition_at (CHR ''['') hi
      in if opened then
           (let (hostname, closed, rest) = partition_at (CHR '']'') bracketed
            in (hostname, if CHR '':'' \<in> set rest then snd (snd (partition_at (CHR '':'') rest)) else []))
         else (let (hostname, colon, port) = partition_at (CHR '':'') hi
               in (hostname, if colon then port else [])))"

definition check_bracketed_netloc :: "(string \<Rightarrow> bool) \<Rightarrow> string \<Rightarrow> bool" where
  "check_bracketed_netloc bracket_ok nl =
     (let hi = snd (snd (rpartition_at (CHR ''@'') nl));
          (pre, opened, bracketed) = partition_at (CHR ''['') hi
      in if opened then
           pre = [] \<and>
           (let (hostname, closed, rest) = partition_at (CHR '']'') bracketed
            in (rest = [] \<or> hd rest = CHR '':'') \<and> bracket_ok hostname)
         else bracket_ok (fst (partition_at (CHR '':'') hi)))"

definition urlsplit :: "(string \<Rightarrow> bool) \<Rightarrow> string \<Rightarrow> (url_error, split_result) result" where
  "urlsplit bracket_ok raw =
     (let url = lstrip (\<lambda>c. code c \<le> 32) raw;
          url = filter (\<lambda>c. c \<notin> {TAB, CR, LF}) url;
          (sch, url) = split_scheme url;
          (nl, url) = split_netloc url;
          (url, has_fragment, frag) = partition_at (CHR ''#'') url;
          (url, has_query, qry) = partition_at (CHR ''?'') url
      in if (CHR ''['' \<in> set nl) \<noteq> (CHR '']'' \<in> set nl) then Inl UrlValueError
         else if CHR ''['' \<in> set nl \<and> \<not> check_bracketed_netloc bracket_ok nl then Inl UrlValueError
         else Inr \<lparr>scheme = sch, netloc = nl, upath = url, query = (if has_query then qry else []),
                   fragment = (if has_fragment then frag else [])\<rparr>)"

definition has_userinfo :: "split_result \<Rightarrow> bool" where
  "has_userinfo p \<longleftrightarrow> CHR ''@'' \<in> set (netloc p)"

definition url_hostname :: "split_result \<Rightarrow> string option" where
  "url_hostname p = (let h = fst (hostinfo (netloc p)) in if h = [] then None
     else (let (pre, percent, zone) = partition_at (CHR ''%'') h
           in Some (lower pre @ (if percent then ''%'' @ zone else []))))"

definition url_port :: "split_result \<Rightarrow> (url_error, nat option) result" where
  "url_port p = (let port = snd (hostinfo (netloc p)) in
     if port = [] then Inr None
     else if \<not> list_all is_digit port then Inl UrlValueError
     else if digits_val port > 65535 then Inl UrlValueError
     else Inr (Some (digits_val port)))"

section \<open>Base URLs\<close>

definition normalize_base_url :: "(string \<Rightarrow> bool) \<Rightarrow> bool \<Rightarrow> string \<Rightarrow> (url_error, string) result" where
  "normalize_base_url bracket_ok allow_path raw =
     rbind (urlsplit bracket_ok raw) (\<lambda>parsed.
       let sch = lower (scheme parsed) in
       if sch \<notin> {''http'', ''https''} then Inl (UnsupportedScheme sch)
       else if has_userinfo parsed then Inl CredentialsInUrl
       else if query parsed \<noteq> [] then Inl QueryInUrl
       else if fragment parsed \<noteq> [] then Inl FragmentInUrl
       else case url_hostname parsed of None \<Rightarrow> Inl NoHostname
       | Some h \<Rightarrow> let hostname = lower h in
         rbind (url_port parsed) (\<lambda>port.
           let port = (if (sch = ''http'' \<and> port = Some 80) \<or> (sch = ''https'' \<and> port = Some 443)
                       then None else port);
               host = (if CHR '':'' \<in> set hostname then ''['' @ hostname @ '']'' else hostname);
               nl = host @ (case port of None \<Rightarrow> [] | Some n \<Rightarrow> '':'' @ show_nat n);
               path = rstrip (\<lambda>c. c = CHR ''/'') (upath parsed)
           in if path \<notin> {[], ''/''} \<and> \<not> allow_path then Inl (PathInUrl path)
              else Inr (sch @ ''://'' @ nl @ (if allow_path then path else []))))"

definition is_loopback_host :: "(string \<Rightarrow> bool) \<Rightarrow> string \<Rightarrow> bool" where
  "is_loopback_host loopback_ip hostname \<longleftrightarrow> lower hostname = ''localhost'' \<or> loopback_ip hostname"

definition assert_local :: "(string \<Rightarrow> bool) \<Rightarrow> (string \<Rightarrow> bool) \<Rightarrow> string \<Rightarrow> (url_error, unit) result" where
  "assert_local bracket_ok loopback_ip base_url =
     rbind (urlsplit bracket_ok base_url) (\<lambda>parsed.
       case url_hostname parsed of None \<Rightarrow> Inl (NonLocalInstance [])
       | Some hostname \<Rightarrow> if is_loopback_host loopback_ip hostname then Inr ()
           else Inl (NonLocalInstance hostname))"

definition canonical_origin :: "(string \<Rightarrow> bool) \<Rightarrow> string \<Rightarrow> (url_error, string) result" where
  "canonical_origin bracket_ok base_url =
     rbind (normalize_base_url bracket_ok False base_url) (\<lambda>normalized.
     rbind (urlsplit bracket_ok normalized) (\<lambda>parsed.
       case url_hostname parsed of None \<Rightarrow> Inl NoHostname
       | Some hostname \<Rightarrow>
         rbind (url_port parsed) (\<lambda>port.
           let p = (case port of None \<Rightarrow> None | Some n \<Rightarrow> if n = 0 then None else Some n);
               p = (case p of Some n \<Rightarrow> n | None \<Rightarrow> if scheme parsed = ''https'' then 443 else 80);
               host = (if CHR '':'' \<in> set hostname then ''['' @ hostname @ '']'' else hostname)
           in Inr (scheme parsed @ ''://'' @ host @ '':'' @ show_nat p))))"

end
