(* ===== verification/Catalog_Backup.thy ===== *)
theory Catalog_Backup
  imports Keyset Urls "HOL-Library.Product_Lexorder"
begin

text \<open>
  Projects and backups of the catalogue (\<^verbatim>\<open>storage/catalog/backup.py\<close>): registration, download
  bookkeeping, pins, ownership backfill, retention state and the paged projections.

  The file system and \<^verbatim>\<open>hashlib\<close> are an argument, a record of the answers they give. The cross-process
  lock around \<^verbatim>\<open>forget_project\<close> and \<^verbatim>\<open>reactivate_project\<close> is not modelled. A page cursor is the pair it
  encodes.
\<close>

section \<open>The file system\<close>

text \<open>\<open>resolve\<close> is \<^verbatim>\<open>str(Path(p).resolve())\<close>; \<open>content_sha256\<close> hashes the contents of a file.\<close>

record host_fs =
  resolve :: "string \<Rightarrow> string"
  sha256_hex :: "string \<Rightarrow> string"
  is_file :: "string \<Rightarrow> bool"
  path_exists :: "string \<Rightarrow> bool"
  is_symlink :: "string \<Rightarrow> bool"
  st_size :: "string \<Rightarrow> int option"
  content_sha256 :: "string \<Rightarrow> string"

definition path_name :: "string \<Rightarrow> string" where
  "path_name p = last (split_on (CHR ''/'') p)"

definition SAFE_SLUG :: re where
  "SAFE_SLUG = plus (Cls (\<lambda>c. \<not> is_alnum c \<and> c \<notin> {CHR ''.'', CHR ''_'', CHR ''-''}))"

definition repo_key :: "host_fs \<Rightarrow> string \<Rightarrow> string \<Rightarrow> string" where
  "repo_key fs repository_root git_common_dir =
     (let nm = path_name (resolve fs repository_root);
          nm = (if nm = [] then ''repo'' else nm);
          slug = strip (\<lambda>c. c \<in> {CHR ''.'', CHR ''_'', CHR ''-''}) (re_sub SAFE_SLUG ''_'' nm);
          slug = (if slug = [] then ''repo'' else slug)
      in slug @ ''_'' @ take 8 (sha256_hex fs (resolve fs git_common_dir)))"

definition project_identity :: "host_fs \<Rightarrow> string \<Rightarrow> string \<Rightarrow> string" where
  "project_identity fs rt common = ''project_'' @ repo_key fs rt common"

section \<open>Projects\<close>

definition upsert_project :: "project_row \<Rightarrow> catalog_db \<Rightarrow> catalog_db \<times> nat" where
  "upsert_project new d =
     (if pr_project_id new \<in> set (map pr_project_id (projects d))
      then (d\<lparr>projects := update_rows (\<lambda>p. pr_project_id p = pr_project_id new)
             (\<lambda>p. p\<lparr>pr_repository_root := pr_repository_root new,
                    pr_git_common_dir := pr_git_common_dir new,
                    pr_registration_state := ''registered''\<rparr>) (projects d)\<rparr>, 1)
      else (d\<lparr>projects := projects d @ [new]\<rparr>, 1))"

definition identity_mismatch :: string where
  "identity_mismatch = ''project registration identity does not match repository metadata''"

definition register_project :: "host_fs \<Rightarrow> string \<Rightarrow> string \<Rightarrow> string \<Rightarrow> string \<Rightarrow> unit cat" where
  "register_project fs now project_id repository_root git_common_dir = translate_sqlite_error
     (let rt = resolve fs repository_root; common = resolve fs git_common_dir in
      aseq (guard (project_id = project_identity fs rt common) (BackupCatalogError identity_mismatch))
        (with_conn (abind (dml (upsert_project \<lparr>pr_project_id = project_id, pr_repository_root = rt,
            pr_git_common_dir = common, pr_registered_at = now, pr_updated_at = now,
            pr_registration_state = ''registered''\<rparr>)) (\<lambda>_. ret ()))))"

definition list_projects :: "bool \<Rightarrow> project_row list cat" where
  "list_projects include_forgotten = query_db (\<lambda>d. order_by (\<lambda>p q. pr_project_id p \<le> pr_project_id q)
     (if include_forgotten then projects d
      else filter (\<lambda>p. pr_registration_state p = ''registered'') (projects d)))"

definition find_project :: "string \<Rightarrow> catalog_db \<Rightarrow> project_row option" where
  "find_project project_id d = fetchone (filter (\<lambda>p. pr_project_id p = project_id) (projects d))"

definition project_not_registered :: "string \<Rightarrow> string" where
  "project_not_registered project_id = ''project '' @ py_repr project_id @ '' is not registered''"

definition forget_project :: "string \<Rightarrow> bool cat" where
  "forget_project project_id = translate_sqlite_error
     (abind (query_db (find_project project_id)) (\<lambda>row.
       case row of None \<Rightarrow> throw (BackupCatalogError (project_not_registered project_id))
       | Some p \<Rightarrow>
           if pr_registration_state p = ''forgotten'' then ret False
           else if pr_registration_state p \<noteq> ''registered''
           then throw (BackupCatalogError ''project registration state is invalid'')
           else abind (with_conn (dml (\<lambda>d.
               let P = (\<lambda>p. pr_project_id p = project_id \<and> pr_registration_state p = ''registered'') in
               (d\<lparr>projects := update_rows P (\<lambda>p. p\<lparr>pr_registration_state := ''forgotten''\<rparr>) (projects d)\<rparr>,
                count_rows P (projects d))))) (\<lambda>n. ret (n = 1))))"

definition reactivate_project ::
  "host_fs \<Rightarrow> string \<Rightarrow> string option \<Rightarrow> string option \<Rightarrow> bool cat" where
  "reactivate_project fs project_id repository_root git_common_dir = translate_sqlite_error
     (let rt = map_option (resolve fs) repository_root;
          common = map_option (resolve fs) git_common_dir in
      aseq (guard ((repository_root = None) = (git_common_dir = None))
          (BackupCatalogError ''repository_root and git_common_dir must be supplied together''))
      (aseq (guard (case (rt, common) of (Some r, Some g) \<Rightarrow> project_id = project_identity fs r g
                    | _ \<Rightarrow> True) (BackupCatalogError identity_mismatch))
      (abind (query_db (find_project project_id)) (\<lambda>row.
       case row of None \<Rightarrow> throw (BackupCatalogError (project_not_registered project_id))
       | Some p \<Rightarrow>
           if pr_registration_state p = ''registered'' then ret False
           else if pr_registration_state p \<noteq> ''forgotten''
           then throw (BackupCatalogError ''project registration state is invalid'')
           else abind (with_conn (dml (\<lambda>d.
               let P = (\<lambda>p. pr_project_id p = project_id \<and> pr_registration_state p = ''forgotten'') in
               (d\<lparr>projects := update_rows P (\<lambda>p. p\<lparr>
                   pr_repository_root := (case rt of None \<Rightarrow> pr_repository_root p | Some r \<Rightarrow> r),
                   pr_git_common_dir := (case common of None \<Rightarrow> pr_git_common_dir p | Some g \<Rightarrow> g),
                   pr_registration_state := ''registered''\<rparr>) (projects d)\<rparr>,
                count_rows P (projects d))))) (\<lambda>n. ret (n = 1))))))"

section \<open>Download bookkeeping\<close>

definition add_event :: "string \<Rightarrow> string \<Rightarrow> string \<Rightarrow> string option \<Rightarrow> string option \<Rightarrow> int option
    \<Rightarrow> string option \<Rightarrow> unit cat" where
  "add_event now backup_id event_type path validator exit_code message =
     abind (dml (\<lambda>d. (d\<lparr>backup_events := backup_events d @
       [\<lparr>be_sequence = next_sequence be_sequence (backup_events d), be_backup_id = backup_id,
         be_event_type = event_type, be_occurred_at = now, be_path = path,
         be_validator = validator, be_exit_code = exit_code, be_message = message\<rparr>]\<rparr>, 1)))
     (\<lambda>_. ret ())"

definition update_backup :: "(backup_row \<Rightarrow> bool) \<Rightarrow> (backup_row \<Rightarrow> backup_row) \<Rightarrow> nat cat" where
  "update_backup P f = dml (\<lambda>d. (d\<lparr>backups := update_rows P f (backups d)\<rparr>, count_rows P (backups d)))"

definition start_download :: "string \<Rightarrow> string \<Rightarrow> string \<Rightarrow> string \<Rightarrow> string \<Rightarrow> bool \<Rightarrow> string
    \<Rightarrow> string option \<Rightarrow> string option \<Rightarrow> string option \<Rightarrow> unit cat" where
  "start_download now backup_id source_base_url database_name fmt filestore_requested path
     source_git_branch source_name project_id = translate_sqlite_error
     (aseq (dml (\<lambda>d. (d\<lparr>backups := backups d @
        [\<lparr>b_id = backup_id, b_source_base_url = source_base_url, b_database_name = database_name,
          b_format = fmt, b_filestore_requested = (if filestore_requested then 1 else 0),
          b_path = Some path, b_filename = None, b_size_bytes = None, b_sha256 = None,
          b_state = ''downloading'', b_started_at = now, b_downloaded_at = None, b_failed_at = None,
          b_deleted_at = None, b_error_type = None, b_error_message = None,
          b_project_id = project_id, b_source_git_branch = source_git_branch,
          b_source_name = source_name, b_pinned = 0\<rparr>]\<rparr>, 1)))
      (aseq (add_event now backup_id ''download_started'' (Some path) None None None) commit))"

definition success_download :: "string \<Rightarrow> string \<Rightarrow> string \<Rightarrow> int \<Rightarrow> string \<Rightarrow> py_datetime option
    \<Rightarrow> unit cat" where
  "success_download now backup_id filename size_bytes sha256 downloaded_at = translate_sqlite_error
     (aseq (update_backup (\<lambda>b. b_id b = backup_id) (\<lambda>b. b\<lparr>b_state := ''available'',
         b_filename := Some filename, b_size_bytes := Some size_bytes, b_sha256 := Some sha256,
         b_downloaded_at := Some (case downloaded_at of None \<Rightarrow> now | Some t \<Rightarrow> isoformat t)\<rparr>))
      (aseq (add_event now backup_id ''download_succeeded'' None None None None) commit))"

definition fail_download :: "string \<Rightarrow> string \<Rightarrow> string \<Rightarrow> string \<Rightarrow> unit cat" where
  "fail_download now backup_id error_type error_message = translate_sqlite_error
     (let sanitized = take 4096 error_message in
      aseq (update_backup (\<lambda>b. b_id b = backup_id) (\<lambda>b. b\<lparr>b_state := ''failed'',
         b_failed_at := Some now, b_error_type := Some error_type,
         b_error_message := Some sanitized\<rparr>))
      (aseq (add_event now backup_id ''download_failed'' None None None (Some sanitized)) commit))"

datatype validation_status = Valid | Invalid | Unavailable

definition record_validation :: "string \<Rightarrow> string \<Rightarrow> validation_status \<Rightarrow> string option \<Rightarrow> int option
    \<Rightarrow> string option \<Rightarrow> unit cat" where
  "record_validation now backup_id status validator exit_code message = translate_sqlite_error
     (aseq (add_event now backup_id
        (case status of Valid \<Rightarrow> ''validation_succeeded'' | Invalid \<Rightarrow> ''validation_failed''
         | Unavailable \<Rightarrow> ''validation_unavailable'') None validator exit_code message) commit)"

definition record_deletion :: "string \<Rightarrow> string \<Rightarrow> unit cat" where
  "record_deletion now backup_id = translate_sqlite_error
     (aseq (update_backup (\<lambda>b. b_id b = backup_id)
        (\<lambda>b. b\<lparr>b_state := ''deleted'', b_deleted_at := Some now\<rparr>))
      (aseq (add_event now backup_id ''deleted'' None None None None) commit))"

section \<open>Identifiers and pins\<close>

definition canonical_backup_id :: "string \<Rightarrow> (catalog_error, string) result" where
  "canonical_backup_id backup_id =
     (case uuid_of_text backup_id of
        None \<Rightarrow> Inl (BackupNotFoundError ''Backup identifier must be a complete UUID'')
      | Some u \<Rightarrow> if uuid_text u \<noteq> lower backup_id
          then Inl (BackupNotFoundError ''Backup identifier must be a complete UUID'')
          else Inr (uuid_text u))"

definition backup_not_found :: "string \<Rightarrow> catalog_error" where
  "backup_not_found backup_id = BackupNotFoundError (''Backup '' @ backup_id @ '' not found in catalog'')"

definition find_backup :: "string \<Rightarrow> catalog_db \<Rightarrow> backup_row option" where
  "find_backup backup_id d = fetchone (filter (\<lambda>b. b_id b = backup_id) (backups d))"

definition get_by_id :: "string \<Rightarrow> backup_row option cat" where
  "get_by_id backup_id = query_db (find_backup backup_id)"

definition set_pinned :: "string \<Rightarrow> string \<Rightarrow> bool \<Rightarrow> bool cat" where
  "set_pinned now backup_id pinned = translate_sqlite_error
     (abind (lift_result (canonical_backup_id backup_id)) (\<lambda>canonical_id.
      abind (query_db (find_backup canonical_id)) (\<lambda>row.
       case row of None \<Rightarrow> throw (backup_not_found canonical_id)
       | Some b \<Rightarrow>
         if (b_pinned b \<noteq> 0) = pinned then ret False
         else with_conn
           (aseq (update_backup (\<lambda>b. b_id b = canonical_id) (\<lambda>b. b\<lparr>b_pinned := (if pinned then 1 else 0)\<rparr>))
           (aseq (add_event now canonical_id ''pin_set'' None None None
               (Some (''pinned='' @ (if pinned then ''true'' else ''false''))))
             (ret True))))))"

section \<open>Ownership backfill\<close>

text \<open>The projects of the environments that refer to a backup, one entry per joined row.\<close>

definition environment_owners :: "string \<Rightarrow> catalog_db \<Rightarrow> string list" where
  "environment_owners backup_id d = concat (map (\<lambda>e. map pr_project_id (filter (\<lambda>p.
       pr_repository_root p = e_repository_root e \<and> pr_git_common_dir p = e_git_common_dir e)
       (projects d))) (filter (\<lambda>e. e_backup_id e = Some backup_id) (environments d)))"

definition single_owner :: "string \<Rightarrow> catalog_db \<Rightarrow> string option" where
  "single_owner backup_id d = (case remdups (environment_owners backup_id d) of [p] \<Rightarrow> Some p | _ \<Rightarrow> None)"

definition backfill_ownership :: "unit cat" where
  "backfill_ownership = translate_sqlite_error
     (abind (reads read_only) (\<lambda>ro. if ro then ret ()
       else aseq (dml (\<lambda>d.
           let P = (\<lambda>b. b_project_id b = None \<and> single_owner (b_id b) d \<noteq> None) in
           (d\<lparr>backups := update_rows P (\<lambda>b. b\<lparr>b_project_id := single_owner (b_id b) d\<rparr>) (backups d)\<rparr>,
            count_rows P (backups d)))) commit))"

definition cluster_text :: "string \<Rightarrow> string \<Rightarrow> (catalog_error, string) result" where
  "cluster_text value label =
     (if blank value \<or> list_ex (\<lambda>c. code c < 32) value
      then Inl (BackupCatalogError (label @ '' must be non-empty text'')) else Inr (strip_ws value))"

definition relink_backup_project :: "string \<Rightarrow> string \<Rightarrow> unit cat" where
  "relink_backup_project backup_id project_id = translate_sqlite_error
     (abind (lift_result (canonical_backup_id backup_id)) (\<lambda>canonical_id.
      abind (lift_result (cluster_text project_id ''project_id'')) (\<lambda>project.
      abind (query_db (find_backup canonical_id)) (\<lambda>row.
       case row of None \<Rightarrow> throw (backup_not_found canonical_id)
       | Some b \<Rightarrow> (case b_project_id b of
           Some owner \<Rightarrow> throw (BackupCatalogError
             (''Backup '' @ canonical_id @ '' is already owned by '' @ owner))
         | None \<Rightarrow> abind (query_db (find_project project)) (\<lambda>registered.
             if registered = None
             then throw (BackupCatalogError (''project '' @ project @ '' is not registered''))
             else with_conn (abind (update_backup (\<lambda>b. b_id b = canonical_id)
               (\<lambda>b. b\<lparr>b_project_id := Some project\<rparr>)) (\<lambda>_. ret ()))))))))"

definition update_path :: "string \<Rightarrow> string \<Rightarrow> unit cat" where
  "update_path backup_id path = translate_sqlite_error
     (aseq (update_backup (\<lambda>b. b_id b = backup_id) (\<lambda>b. b\<lparr>b_path := Some path\<rparr>)) commit)"

section \<open>Retention state\<close>

text \<open>\<^verbatim>\<open>COALESCE(downloaded_at, started_at)\<close>, and \<^verbatim>\<open>row["downloaded_at"] or row["started_at"]\<close>.\<close>

definition coalesce_time :: "backup_row \<Rightarrow> string" where
  "coalesce_time b = (case b_downloaded_at b of None \<Rightarrow> b_started_at b | Some t \<Rightarrow> t)"

definition catalogue_raw :: "backup_row \<Rightarrow> string" where
  "catalogue_raw b = (case b_downloaded_at b of None \<Rightarrow> b_started_at b
     | Some t \<Rightarrow> if t = [] then b_started_at b else t)"

definition retention_timestamp :: "backup_row \<Rightarrow> int option" where
  "retention_timestamp b = (let raw = catalogue_raw b in
     if blank raw then None else map_option utc_us (fromisoformat raw))"

definition retention_group :: "(string \<Rightarrow> bool) \<Rightarrow> backup_row \<Rightarrow> string list option" where
  "retention_group bracket_ok b = (case b_source_name b of
     Some source_name \<Rightarrow> if blank source_name then None else Some [''named'', source_name]
   | None \<Rightarrow> (case normalize_base_url bracket_ok False (b_source_base_url b) of
       Inl _ \<Rightarrow> None
     | Inr source \<Rightarrow> if blank (b_database_name b) then None
         else Some [''legacy'', source, b_database_name b]))"

text \<open>Newest first, then by identifier: the key of \<^verbatim>\<open>min\<close> in \<^verbatim>\<open>deletion_protection_reason\<close>.\<close>

definition newest_key :: "backup_row \<times> int \<Rightarrow> int \<times> string" where
  "newest_key x = (- snd x, b_id (fst x))"

definition newest :: "(backup_row \<times> int) list \<Rightarrow> (backup_row \<times> int) option" where
  "newest xs = (case xs of [] \<Rightarrow> None
     | x # rest \<Rightarrow> Some (foldl (\<lambda>m y. if newest_key y < newest_key m then y else m) x rest))"

definition same_group :: "(string \<Rightarrow> bool) \<Rightarrow> string list \<Rightarrow> backup_row list \<Rightarrow> (backup_row \<times> int) list" where
  "same_group bracket_ok grp rows = List.map_filter (\<lambda>b.
     if retention_group bracket_ok b \<noteq> Some grp then None
     else map_option (Pair b) (retention_timestamp b)) rows"

definition protection_of :: "(string \<Rightarrow> bool) \<Rightarrow> catalog_db \<Rightarrow> backup_row \<Rightarrow> string option" where
  "protection_of bracket_ok d b =
     (if b_pinned b \<noteq> 0 then Some ''pinned''
      else if list_ex (\<lambda>e. e_backup_id e = Some (b_id b) \<and> e_state e \<noteq> ''removed'') (environments d)
      then Some ''referenced by a non-removed environment''
      else if list_ex (\<lambda>j. cj_backup_id j = Some (b_id b) \<and> cj_stage j \<noteq> ''backup_deleted'') (copy_journal d)
      then Some ''referenced by unresolved recovery''
      else case b_project_id b of None \<Rightarrow> Some ''unknown or unowned ownership''
      | Some project \<Rightarrow>
        (case retention_timestamp b of None \<Rightarrow> Some ''unknown catalogue timestamp''
         | Some _ \<Rightarrow>
           (case retention_group bracket_ok b of None \<Rightarrow> Some ''unknown historical source group''
            | Some grp \<Rightarrow>
              (case newest (same_group bracket_ok grp (filter (\<lambda>c. b_project_id c = Some project
                  \<and> b_state c = ''available'') (backups d))) of
                 None \<Rightarrow> Some ''unknown historical source group''
               | Some (n, _) \<Rightarrow> if b_id n = b_id b
                   then Some ''newest available backup in historical source group'' else None))))"

definition deletion_protection_reason :: "(string \<Rightarrow> bool) \<Rightarrow> string \<Rightarrow> string option cat" where
  "deletion_protection_reason bracket_ok backup_id = translate_sqlite_error
     (abind (lift_result (canonical_backup_id backup_id)) (\<lambda>canonical_id.
      abind (query_db (\<lambda>d. map_option (protection_of bracket_ok d) (find_backup canonical_id d)))
        (\<lambda>found. case found of None \<Rightarrow> throw (backup_not_found canonical_id)
          | Some reason \<Rightarrow> ret reason)))"

section \<open>Decoded rows\<close>

record py_backup =
  bk_id :: nat
  bk_source_base_url :: string
  bk_database_name :: string
  bk_format :: string
  bk_filestore_requested :: bool
  bk_path :: string
  bk_filename :: string
  bk_size_bytes :: int
  bk_sha256 :: string
  bk_downloaded_at :: py_datetime
  bk_source_git_branch :: "string option"
  bk_source_name :: "string option"
  bk_pinned :: bool

definition or_empty :: "string option \<Rightarrow> string" where
  "or_empty x = (case x of None \<Rightarrow> [] | Some s \<Rightarrow> s)"

definition decode_uuid :: "string \<Rightarrow> (catalog_error, nat) result" where
  "decode_uuid t = (case uuid_of_text t of None \<Rightarrow> Inl (PyValueError ''badly formed hexadecimal UUID string'')
     | Some u \<Rightarrow> Inr u)"

definition decode_time :: "string \<Rightarrow> (catalog_error, py_datetime) result" where
  "decode_time t = (case fromisoformat t of None \<Rightarrow> Inl (PyValueError ''Invalid isoformat string'')
     | Some v \<Rightarrow> Inr v)"

definition row_to_backup ::
  "host_fs \<Rightarrow> bool \<Rightarrow> backup_row \<Rightarrow> (catalog_error, py_backup option) result" where
  "row_to_backup fs require_file b =
     (if require_file \<and> or_empty (b_path b) \<noteq> [] \<and> \<not> is_file fs (or_empty (b_path b)) then Inr None
      else rbind (decode_uuid (b_id b)) (\<lambda>u.
        rbind (ensure (b_format b \<in> {''zip'', ''dump''}) (PyValueError ''not a valid BackupFormat'')) (\<lambda>_.
        rbind (decode_time (catalogue_raw b)) (\<lambda>t.
          Inr (Some \<lparr>bk_id = u, bk_source_base_url = b_source_base_url b,
            bk_database_name = b_database_name b, bk_format = b_format b,
            bk_filestore_requested = (b_filestore_requested b \<noteq> 0), bk_path = or_empty (b_path b),
            bk_filename = or_empty (b_filename b),
            bk_size_bytes = (case b_size_bytes b of None \<Rightarrow> 0 | Some n \<Rightarrow> n),
            bk_sha256 = or_empty (b_sha256 b), bk_downloaded_at = t,
            bk_source_git_branch = b_source_git_branch b, bk_source_name = b_source_name b,
            bk_pinned = (b_pinned b \<noteq> 0)\<rparr>)))))"

record py_backup_event =
  ev_backup_id :: nat
  ev_sequence :: nat
  ev_type :: string
  ev_occurred_at :: py_datetime
  ev_path :: "string option"
  ev_validator :: "string option"
  ev_exit_code :: "int option"
  ev_message :: "string option"

definition row_to_event :: "backup_event_row \<Rightarrow> (catalog_error, py_backup_event) result" where
  "row_to_event e = rbind (decode_uuid (be_backup_id e)) (\<lambda>u.
     rbind (ensure (backup_event_check e) (PyValueError ''not a valid BackupEventType'')) (\<lambda>_.
     rbind (decode_time (be_occurred_at e)) (\<lambda>t.
       Inr \<lparr>ev_backup_id = u, ev_sequence = be_sequence e, ev_type = be_event_type e,
         ev_occurred_at = t, ev_path = be_path e, ev_validator = be_validator e,
         ev_exit_code = be_exit_code e, ev_message = be_message e\<rparr>)))"

section \<open>Lookups and listings\<close>

text \<open>\<^verbatim>\<open>ORDER BY downloaded_at DESC, id DESC\<close>; \<^verbatim>\<open>NULL\<close> is the least value.\<close>

definition latest_first :: "backup_row \<Rightarrow> backup_row \<Rightarrow> bool" where
  "latest_first x y = (case (b_downloaded_at x, b_downloaded_at y) of
     (None, None) \<Rightarrow> b_id y \<le> b_id x
   | (None, Some _) \<Rightarrow> False
   | (Some _, None) \<Rightarrow> True
   | (Some s, Some t) \<Rightarrow> t < s \<or> (t = s \<and> b_id y \<le> b_id x))"

definition matches_opt :: "'a option \<Rightarrow> 'a \<Rightarrow> bool" where
  "matches_opt want v = (case want of None \<Rightarrow> True | Some w \<Rightarrow> v = w)"

definition list_backups :: "host_fs \<Rightarrow> string option \<Rightarrow> string option \<Rightarrow> string option \<Rightarrow> string option
    \<Rightarrow> py_backup list cat" where
  "list_backups fs source_base_url database_name fmt project_id = translate_sqlite_error
     (aseq backfill_ownership
      (abind (query_db (\<lambda>d. order_by latest_first (filter (\<lambda>b. b_state b = ''available''
          \<and> matches_opt source_base_url (b_source_base_url b)
          \<and> matches_opt database_name (b_database_name b) \<and> matches_opt fmt (b_format b)
          \<and> (project_id = None \<or> b_project_id b = project_id)) (backups d)))) (\<lambda>rows.
       abind (lift_result (decode_each (row_to_backup fs True) rows)) (\<lambda>bs.
         ret (List.map_filter id bs)))))"

definition latest_backup :: "host_fs \<Rightarrow> string \<Rightarrow> string \<Rightarrow> string option \<Rightarrow> string option
    \<Rightarrow> py_backup option cat" where
  "latest_backup fs source_base_url database_name fmt project_id = translate_sqlite_error
     (aseq backfill_ownership
      (abind (query_db (\<lambda>d. fetchone (order_by latest_first (filter (\<lambda>b. b_state b = ''available''
          \<and> b_source_base_url b = source_base_url \<and> b_database_name b = database_name
          \<and> matches_opt fmt (b_format b)
          \<and> (project_id = None \<or> b_project_id b = project_id)) (backups d))))) (\<lambda>row.
       case row of None \<Rightarrow> ret None | Some b \<Rightarrow> lift_result (row_to_backup fs True b))))"

definition get_backup_history :: "string option \<Rightarrow> string option \<Rightarrow> string option
    \<Rightarrow> py_backup_event list cat" where
  "get_backup_history source_base_url database_name backup_id = translate_sqlite_error
     (abind (query_db (\<lambda>d. order_by (\<lambda>x y. be_sequence y \<le> be_sequence x) (filter (\<lambda>e.
          matches_opt backup_id (be_backup_id e) \<and> list_ex (\<lambda>b. b_id b = be_backup_id e
            \<and> matches_opt source_base_url (b_source_base_url b)
            \<and> matches_opt database_name (b_database_name b)) (backups d)) (backup_events d))))
       (\<lambda>rows. lift_result (decode_each row_to_event rows)))"

definition verify_identity :: "host_fs \<Rightarrow> py_backup \<Rightarrow> bool \<Rightarrow> unit cat" where
  "verify_identity fs b verify_content = translate_sqlite_error
     (abind (query_db (find_backup (uuid_text (bk_id b)))) (\<lambda>row.
      case row of None \<Rightarrow> throw (backup_not_found (uuid_text (bk_id b)))
      | Some r \<Rightarrow>
        let mismatches = map fst (filter (\<lambda>(nm, differs). differs)
          [(''source_base_url'', b_source_base_url r \<noteq> bk_source_base_url b),
           (''filename'', b_filename r \<noteq> Some (bk_filename b)),
           (''path'', b_path r \<noteq> Some (bk_path b)),
           (''format'', b_format r \<noteq> bk_format b),
           (''filestore_requested'', (b_filestore_requested r \<noteq> 0) \<noteq> bk_filestore_requested b),
           (''database_name'', b_database_name r \<noteq> bk_database_name b),
           (''size_bytes'', b_size_bytes r \<noteq> Some (bk_size_bytes b)),
           (''sha256'', b_sha256 r \<noteq> Some (bk_sha256 b)),
           (''source_git_branch'', b_source_git_branch r \<noteq> bk_source_git_branch b)]) in
        aseq (guard (b_state r = ''available'') (BackupNotAvailableError (''Backup '' @ uuid_text (bk_id b)
            @ '' is in state '' @ py_repr (b_state r) @ '', not available'')))
        (aseq (guard (mismatches = []) (BackupNotAvailableError (''Backup '' @ uuid_text (bk_id b)
            @ '' metadata mismatch: '' @ join_with '', '' mismatches)))
        (if verify_content \<and> bk_sha256 b \<noteq> []
         then aseq (guard (is_file fs (bk_path b))
             (BackupNotAvailableError (''Backup file not found: '' @ bk_path b)))
           (guard (content_sha256 fs (bk_path b) = bk_sha256 b)
             (BackupNotAvailableError (''Backup '' @ uuid_text (bk_id b)
               @ '' content hash mismatch (tampered or modified)'')))
         else ret ()))))"

section \<open>Projections and their pages\<close>

record backup_projection =
  bp_backup :: py_backup
  bp_state :: string
  bp_catalogue_time :: py_datetime
  bp_file_present :: bool
  bp_recorded_bytes :: "int option"
  bp_occupied_bytes :: "int option"
  bp_history :: "py_backup_event list"
  bp_restore_links :: "(string \<times> int \<times> string \<times> py_datetime) list"
  bp_environment_links :: "(string \<times> string \<times> string \<times> string option) list"

definition projection_file_data :: "host_fs \<Rightarrow> string option \<Rightarrow> bool \<times> int option" where
  "projection_file_data fs p =
     (if or_empty p = [] then (False, None)
      else let path = or_empty p; present = path_exists fs path in
        if \<not> present \<or> is_symlink fs path \<or> \<not> is_file fs path then (present, None)
        else (True, st_size fs path))"

definition projection_from_row ::
  "host_fs \<Rightarrow> catalog_db \<Rightarrow> backup_row \<Rightarrow> (catalog_error, backup_projection) result" where
  "projection_from_row fs d b =
     rbind (row_to_backup fs False b) (\<lambda>decoded. case decoded of
       None \<Rightarrow> Inl (BackupCatalogError ''catalogue backup row is incomplete'')
     | Some backup \<Rightarrow>
       rbind (decode_time (catalogue_raw b)) (\<lambda>t.
       rbind (decode_each row_to_event (order_by (\<lambda>x y. be_sequence x \<le> be_sequence y)
           (filter (\<lambda>e. be_backup_id e = b_id b) (backup_events d)))) (\<lambda>history.
       rbind (decode_each (\<lambda>r. rbind (decode_time (r_restored_at r)) (\<lambda>u.
             Inr (r_db_host r, r_db_port r, r_database_name r, u)))
           (order_by (\<lambda>x y. r_restored_at x < r_restored_at y
               \<or> (r_restored_at x = r_restored_at y \<and> r_sequence x \<le> r_sequence y))
             (filter (\<lambda>r. r_backup_id r = Some (b_id b)) (restores d)))) (\<lambda>links.
         let (present, occupied) = projection_file_data fs (b_path b) in
         Inr \<lparr>bp_backup = backup, bp_state = b_state b, bp_catalogue_time = t,
           bp_file_present = present, bp_recorded_bytes = b_size_bytes b,
           bp_occupied_bytes = occupied, bp_history = history, bp_restore_links = links,
           bp_environment_links = map (\<lambda>e. (e_id e, e_name e, e_state e, e_target_db_name e))
             (order_by (\<lambda>x y. e_created_at x < e_created_at y
                 \<or> (e_created_at x = e_created_at y \<and> e_id x \<le> e_id y))
               (filter (\<lambda>e. e_backup_id e = Some (b_id b)) (environments d)))\<rparr>))))"

definition resolve_backup_projection :: "host_fs \<Rightarrow> string \<Rightarrow> backup_projection cat" where
  "resolve_backup_projection fs backup_id = translate_sqlite_error
     (abind (lift_result (canonical_backup_id backup_id)) (\<lambda>canonical_id.
      aseq begin_tx (finally_rollback (abind (reads working) (\<lambda>d.
        case find_backup canonical_id d of None \<Rightarrow> throw (backup_not_found canonical_id)
        | Some b \<Rightarrow> lift_result (projection_from_row fs d b))))))"

text \<open>\<^verbatim>\<open>ORDER BY catalogue_time DESC, id ASC\<close>, and the keyset condition of a cursor.\<close>

definition point_order :: "string \<times> string \<Rightarrow> string \<times> string \<Rightarrow> bool" where
  "point_order x y \<longleftrightarrow> fst y < fst x \<or> (fst x = fst y \<and> snd x \<le> snd y)"

definition after_point :: "string \<times> string \<Rightarrow> string \<times> string \<Rightarrow> bool" where
  "after_point cur x \<longleftrightarrow> fst x < fst cur \<or> (fst x = fst cur \<and> snd cur < snd x)"

definition backup_point :: "backup_row \<Rightarrow> string \<times> string" where
  "backup_point b = (coalesce_time b, b_id b)"

text \<open>The read-only project scope joins the same environments the backfill writes from.\<close>

definition in_project_scope :: "bool \<Rightarrow> catalog_db \<Rightarrow> string \<Rightarrow> backup_row \<Rightarrow> bool" where
  "in_project_scope ro d project b \<longleftrightarrow> b_project_id b = Some project
     \<or> (ro \<and> b_project_id b = None \<and> single_owner (b_id b) d = Some project)"

definition projection_filter :: "bool \<Rightarrow> string option \<Rightarrow> string option \<Rightarrow> string option \<Rightarrow> bool
    \<Rightarrow> string option \<Rightarrow> catalog_db \<Rightarrow> backup_row \<Rightarrow> bool" where
  "projection_filter ro source_base_url database_name fmt include_all_states project_id d b \<longleftrightarrow>
     (include_all_states \<or> b_state b = ''available'')
     \<and> matches_opt source_base_url (b_source_base_url b) \<and> matches_opt database_name (b_database_name b)
     \<and> matches_opt fmt (b_format b)
     \<and> (case project_id of None \<Rightarrow> True | Some p \<Rightarrow> in_project_scope ro d p b)"

definition projection_page :: "bool \<Rightarrow> string option \<Rightarrow> string option \<Rightarrow> string option \<Rightarrow> bool
    \<Rightarrow> string option \<Rightarrow> catalog_db \<Rightarrow> nat \<Rightarrow> (string \<times> string) option
    \<Rightarrow> backup_row list \<times> (string \<times> string) option" where
  "projection_page ro source_base_url database_name fmt include_all_states project_id d limit =
     keyset_page backup_point point_order after_point (filter (projection_filter ro source_base_url
       database_name fmt include_all_states project_id d) (backups d)) limit"

definition list_backup_projections :: "host_fs \<Rightarrow> string option \<Rightarrow> string option \<Rightarrow> string option
    \<Rightarrow> bool \<Rightarrow> string option \<Rightarrow> int \<Rightarrow> (string \<times> string) option
    \<Rightarrow> (backup_projection list \<times> (string \<times> string) option) cat" where
  "list_backup_projections fs source_base_url database_name fmt include_all_states project_id limit
     after = translate_sqlite_error
     (aseq (guard (1 \<le> limit \<and> limit \<le> 1000)
         (BackupCatalogError ''Backup limit must be an integer between 1 and 1000''))
      (aseq backfill_ownership
      (aseq begin_tx (finally_rollback
        (abind (reads (\<lambda>c. (read_only c, working c))) (\<lambda>(ro, d).
           let (page, next) = projection_page ro source_base_url database_name fmt
             include_all_states project_id d (nat limit) after
           in abind (lift_result (decode_each (projection_from_row fs d) page))
                (\<lambda>items. ret (items, next))))))))"

section \<open>Retention records\<close>

record retention_record =
  rr_backup_id :: nat
  rr_backup :: "py_backup option"
  rr_state :: "string option"
  rr_timestamp :: "int option"
  rr_source_group :: "string list option"
  rr_path :: "string option"
  rr_recorded_size :: int
  rr_protection_reason :: "string option"

definition retention_record_of :: "host_fs \<Rightarrow> (string \<Rightarrow> bool) \<Rightarrow> backup_row \<Rightarrow> string option
    \<Rightarrow> (catalog_error, retention_record) result" where
  "retention_record_of fs bracket_ok b reason =
     rbind (decode_uuid (b_id b)) (\<lambda>u.
     rbind (row_to_backup fs False b) (\<lambda>backup.
       Inr \<lparr>rr_backup_id = u, rr_backup = backup,
         rr_state = (if b_state b \<in> {''downloading'', ''available'', ''failed'', ''deleted''}
                     then Some (b_state b) else None),
         rr_timestamp = retention_timestamp b, rr_source_group = retention_group bracket_ok b,
         rr_path = (if or_empty (b_path b) = [] then None else b_path b),
         rr_recorded_size = (case b_size_bytes b of None \<Rightarrow> 0 | Some n \<Rightarrow> n),
         rr_protection_reason = reason\<rparr>))"

definition retention_rows :: "string \<Rightarrow> backup_row list cat" where
  "retention_rows project_id = translate_sqlite_error
     (aseq backfill_ownership (query_db (\<lambda>d. order_by (\<lambda>x y. point_order (backup_point x) (backup_point y))
        (filter (\<lambda>b. b_project_id b = Some project_id) (backups d)))))"

fun for_rows :: "('r \<Rightarrow> 'a cat) \<Rightarrow> 'r list \<Rightarrow> 'a list cat" where
  "for_rows f [] = ret []"
| "for_rows f (r # rs) = abind (f r) (\<lambda>x. abind (for_rows f rs) (\<lambda>xs. ret (x # xs)))"

definition retention_snapshot :: "host_fs \<Rightarrow> (string \<Rightarrow> bool) \<Rightarrow> string \<Rightarrow> retention_record list cat" where
  "retention_snapshot fs bracket_ok project_id = abind (retention_rows project_id)
     (for_rows (\<lambda>b. abind (deletion_protection_reason bracket_ok (b_id b))
        (\<lambda>reason. lift_result (retention_record_of fs bracket_ok b reason))))"

definition retention_revalidate ::
  "host_fs \<Rightarrow> (string \<Rightarrow> bool) \<Rightarrow> string \<Rightarrow> retention_record option cat" where
  "retention_revalidate fs bracket_ok backup_id =
     abind (lift_result (canonical_backup_id backup_id)) (\<lambda>canonical_id.
     abind (query_db (find_backup canonical_id)) (\<lambda>row.
       case row of None \<Rightarrow> ret None
       | Some b \<Rightarrow> abind (deletion_protection_reason bracket_ok canonical_id) (\<lambda>reason.
           abind (lift_result (retention_record_of fs bracket_ok b reason)) (\<lambda>r. ret (Some r)))))"

section \<open>Operations keep the constraints\<close>

lemma obeys_update_backup: "obeys uncommitted (update_backup P f)"
  unfolding update_backup_def by (rule obeys_dml)

lemma obeys_add_event: "obeys uncommitted (add_event now i t p v x m)"
  unfolding add_event_def by (intro txn_rules)

lemmas backup_rules = obeys_update_backup obeys_add_event

lemma op_ok_register: "op_ok (register_project fs now i rt g)"
  unfolding register_project_def Let_def by (intro op_rules)

lemma op_ok_forget: "op_ok (forget_project i)"
  unfolding forget_project_def Let_def by (intro op_rules op_ok_then_ret)

lemma op_ok_reactivate: "op_ok (reactivate_project fs i rt g)"
  unfolding reactivate_project_def Let_def by (intro op_rules op_ok_then_ret)

lemma op_ok_start_download: "op_ok (start_download now i u n f r p g s j)"
  unfolding start_download_def by (intro op_rules backup_rules)

lemma op_ok_success_download: "op_ok (success_download now i f n s t)"
  unfolding success_download_def by (intro op_rules backup_rules)

lemma op_ok_fail_download: "op_ok (fail_download now i t m)"
  unfolding fail_download_def Let_def by (intro op_rules backup_rules)

lemma op_ok_record_validation: "op_ok (record_validation now i s v x m)"
  unfolding record_validation_def by (intro op_rules backup_rules)

lemma op_ok_record_deletion: "op_ok (record_deletion now i)"
  unfolding record_deletion_def by (intro op_rules backup_rules)

lemma op_ok_set_pinned: "op_ok (set_pinned now i p)"
  unfolding set_pinned_def by (intro op_rules backup_rules)

lemma op_ok_relink: "op_ok (relink_backup_project i p)"
  unfolding relink_backup_project_def by (intro op_rules backup_rules)

lemma op_ok_update_path: "op_ok (update_path i p)"
  unfolding update_path_def by (intro op_rules backup_rules)

lemma op_ok_backfill: "op_ok backfill_ownership"
  unfolding backfill_ownership_def Let_def by (intro op_rules)

section \<open>Backup identifiers\<close>

lemma lower_char_same: "\<not> (is_upper c \<or> (in_range 192 222 c \<and> code c \<noteq> 215)) \<Longrightarrow> lower_char c = c"
  unfolding lower_char_def by (rule if_not_P)

lemma hex_value_lower: "hex_value (lower_char c) \<noteq> None \<Longrightarrow> hex_value c = hex_value (lower_char c)"
proof (cases "is_upper c \<or> (in_range 192 222 c \<and> code c \<noteq> 215)")
  case True
  assume h: "hex_value (lower_char c) \<noteq> None"
  have l: "code (lower_char c) = code c + 32"
    using True by (auto simp: lower_char_def code_def is_upper_def in_range_def)
  from h l have "in_range 65 70 c \<or> code c + 32 \<le> 70"
    by (auto simp: hex_value_def is_digit_def in_range_def split: if_splits)
  with True have "in_range 65 70 c" by (auto simp: is_upper_def in_range_def)
  with l show ?thesis by (auto simp: hex_value_def is_digit_def in_range_def)
next
  case False
  from lower_char_same[OF this] show ?thesis by simp
qed

lemma lower_char_dash: "lower_char c = CHR ''-'' \<longleftrightarrow> c = CHR ''-''"
proof (cases "is_upper c \<or> (in_range 192 222 c \<and> code c \<noteq> 215)")
  case True
  then have "code (lower_char c) = code c + 32" "code c \<ge> 65"
    by (auto simp: lower_char_def code_def is_upper_def in_range_def)
  then have "code (lower_char c) \<noteq> 45" "code c \<noteq> 45" by auto
  then show ?thesis by (auto simp: code_def)
next
  case False
  from lower_char_same[OF this] show ?thesis by simp
qed

lemma hex_number_lower:
  "(\<And>c. c \<in> set h \<Longrightarrow> hex_value (lower_char c) \<noteq> None) \<Longrightarrow> hex_number (map lower_char h) = hex_number h"
proof (induction h rule: rev_induct)
  case (snoc c h)
  then have "hex_value c = hex_value (lower_char c)" by (intro hex_value_lower) simp
  with snoc show ?case by (simp add: hex_number_def)
qed simp

lemma uuid_of_text_lower:
  assumes "canonical_uuid (lower t)"
  shows "uuid_of_text t = uuid_of_text (lower t)"
proof -
  have f: "filter (\<lambda>c. c \<noteq> CHR ''-'') (lower t) = map lower_char (filter (\<lambda>c. c \<noteq> CHR ''-'') t)"
    by (simp add: lower_def filter_map o_def lower_char_dash)
  have hx: "hex_value (lower_char c) \<noteq> None" if "c \<in> set (filter (\<lambda>c. c \<noteq> CHR ''-'') t)" for c
  proof -
    from that have "lower_char c \<in> set (filter (\<lambda>c. c \<noteq> CHR ''-'') (lower t))"
      unfolding f set_map by (rule imageI)
    with assms show ?thesis unfolding canonical_uuid_def hex_text_def list_all_iff by blast
  qed
  have len: "length (filter (\<lambda>c. c \<noteq> CHR ''-'') t) = 32"
  proof -
    have "length (dash_uuid (filter (\<lambda>c. c \<noteq> CHR ''-'') (lower t))) = 36"
      using assms unfolding canonical_uuid_def by argo
    then show ?thesis unfolding length_dash_uuid f length_map by linarith
  qed
  have "uuid_of_text t = Some (hex_number (filter (\<lambda>c. c \<noteq> CHR ''-'') t))"
  proof (rule uuid_of_hex[OF _ len])
    fix c assume "c \<in> set t"
    then show "hex_value c \<noteq> None \<or> c = CHR ''-''" using hx[of c] hex_value_lower[of c] by auto
  qed
  moreover have "uuid_of_text (lower t) = Some (hex_number (filter (\<lambda>c. c \<noteq> CHR ''-'') (lower t)))"
  proof (rule uuid_of_hex)
    fix c assume "c \<in> set (lower t)"
    then show "hex_value c \<noteq> None \<or> c = CHR ''-''"
      using hx by (auto simp: lower_def lower_char_dash)
  next
    show "length (filter (\<lambda>c. c \<noteq> CHR ''-'') (lower t)) = 32" using f len by simp
  qed
  moreover have "hex_number (map lower_char (filter (\<lambda>c. c \<noteq> CHR ''-'') t)) =
      hex_number (filter (\<lambda>c. c \<noteq> CHR ''-'') t)"
    using hx by (rule hex_number_lower)
  ultimately show ?thesis using f by simp
qed

lemma canonical_backup_id_eq:
  "canonical_backup_id t =
     (if canonical_uuid (lower t) then Inr (lower t)
      else Inl (BackupNotFoundError ''Backup identifier must be a complete UUID''))"
proof (cases "canonical_uuid (lower t)")
  case True
  then obtain n where n: "n < 2 ^ 128" "lower t = uuid_text n" using canonical_uuid_iff by blast
  have "uuid_of_text t = Some n"
    using uuid_of_text_lower[OF True] uuid_text_roundtrip[OF n(1)] n(2) by simp
  with True n show ?thesis by (simp add: canonical_backup_id_def)
next
  case False
  have "uuid_text u \<noteq> lower t" if "uuid_of_text t = Some u" for u
  proof
    assume "uuid_text u = lower t"
    moreover have "u < 2 ^ 128"
      using that by (auto simp: uuid_of_text_def Let_def split: if_splits option.splits)
    ultimately show False using False canonical_uuid_iff by metis
  qed
  with False show ?thesis by (auto simp: canonical_backup_id_def split: option.split)
qed

text \<open>
  A backup identifier is accepted exactly when it is a complete UUID in the \<^verbatim>\<open>8-4-4-4-12\<close> form,
  in either case, and the canonical identifier is its lower-case form; braces, URN prefixes,
  missing dashes and other notations \<^verbatim>\<open>uuid.UUID\<close> itself would accept are refused.
\<close>

theorem canonical_backup_id_exact:
  "canonical_backup_id t =
     (if canonical_uuid (lower t) then Inr (lower t)
      else Inl (BackupNotFoundError ''Backup identifier must be a complete UUID''))"
  by (rule canonical_backup_id_eq)

section \<open>Deletion protection\<close>

lemma foldl_min:
  fixes f :: "'a \<Rightarrow> 'b :: linorder"
  defines "pick \<equiv> foldl (\<lambda>m y. if f y < f m then y else m)"
  shows "pick x ys \<in> set (x # ys) \<and> (\<forall>y\<in>set (x # ys). f (pick x ys) \<le> f y)"
  unfolding pick_def by (induction ys arbitrary: x) (auto, (meson le_less_trans less_imp_le not_le)+)

lemma newest_spec:
  "newest xs = Some m \<Longrightarrow> m \<in> set xs \<and> (\<forall>y\<in>set xs. newest_key m \<le> newest_key y)"
  using foldl_min[where f = newest_key] by (auto simp: newest_def split: list.splits)

lemma newest_None: "newest xs = None \<longleftrightarrow> xs = []"
  by (auto simp: newest_def split: list.splits)

lemma same_group_set:
  "(c, t) \<in> set (same_group bracket_ok grp rows) \<longleftrightarrow>
     c \<in> set rows \<and> retention_group bracket_ok c = Some grp \<and> retention_timestamp c = Some t"
  by (induction rows) (auto simp: same_group_def List.map_filter_simps split: option.splits)

lemma find_backup_Some: "find_backup i d = Some b \<Longrightarrow> b \<in> set (backups d) \<and> b_id b = i"
  unfolding find_backup_def by (auto dest!: fetchone_Some)

text \<open>A backup of the same project and source group that is at least as recent and stays available.\<close>

definition superseded_by :: "(string \<Rightarrow> bool) \<Rightarrow> catalog_db \<Rightarrow> backup_row \<Rightarrow> backup_row \<Rightarrow> bool" where
  "superseded_by bracket_ok d b n \<longleftrightarrow> n \<in> set (backups d) \<and> b_id n \<noteq> b_id b
     \<and> b_state n = ''available'' \<and> b_project_id n = b_project_id b
     \<and> retention_group bracket_ok n = retention_group bracket_ok b
     \<and> (case (retention_timestamp n, retention_timestamp b) of
          (Some s, Some t) \<Rightarrow> b_state b = ''available'' \<longrightarrow> t < s \<or> (t = s \<and> b_id n < b_id b)
        | _ \<Rightarrow> False)"

lemma protection_None:
  assumes "protection_of bracket_ok d b = None" "b \<in> set (backups d)"
  shows "b_pinned b = 0 \<and> b_project_id b \<noteq> None \<and> retention_group bracket_ok b \<noteq> None
    \<and> (\<forall>e\<in>set (environments d). e_backup_id e = Some (b_id b) \<longrightarrow> e_state e = ''removed'')
    \<and> (\<forall>j\<in>set (copy_journal d). cj_backup_id j = Some (b_id b) \<longrightarrow> cj_stage j = ''backup_deleted'')
    \<and> (\<exists>n. superseded_by bracket_ok d b n)"
proof -
  from assms(1) obtain p t g n tn where x: "b_pinned b = 0"
    "\<not> list_ex (\<lambda>e. e_backup_id e = Some (b_id b) \<and> e_state e \<noteq> ''removed'') (environments d)"
    "\<not> list_ex (\<lambda>j. cj_backup_id j = Some (b_id b) \<and> cj_stage j \<noteq> ''backup_deleted'') (copy_journal d)"
    "b_project_id b = Some p" "retention_timestamp b = Some t" "retention_group bracket_ok b = Some g"
    "newest (same_group bracket_ok g (filter (\<lambda>c. b_project_id c = Some p \<and> b_state c = ''available'')
       (backups d))) = Some (n, tn)" "b_id n \<noteq> b_id b"
    by (auto simp: protection_of_def split: if_splits option.splits)
  note m = newest_spec[OF x(7)]
  then have n: "n \<in> set (backups d)" "b_project_id n = Some p" "b_state n = ''available''"
    "retention_group bracket_ok n = Some g" "retention_timestamp n = Some tn"
    by (auto simp: same_group_set)
  have "t < tn \<or> (t = tn \<and> b_id n < b_id b)" if "b_state b = ''available''"
  proof -
    have "(b, t) \<in> set (same_group bracket_ok g (filter (\<lambda>c. b_project_id c = Some p
        \<and> b_state c = ''available'') (backups d)))"
      using that assms(2) x by (simp add: same_group_set)
    with m have "newest_key (n, tn) \<le> newest_key (b, t)" by blast
    with x(8) show ?thesis by (auto simp: newest_key_def less_eq_prod_def)
  qed
  with n x have "superseded_by bracket_ok d b n" by (simp add: superseded_by_def)
  with x show ?thesis by (auto simp: list_ex_iff)
qed


section \<open>Pins\<close>

lemma map_update_rows: "(\<And>r. P r \<Longrightarrow> key (f r) = key r) \<Longrightarrow> map key (update_rows P f rows) = map key rows"
  by (simp add: update_rows_def)

lemma update_rows_all:
  "list_all Q rows \<Longrightarrow> (\<And>r. P r \<Longrightarrow> Q r \<Longrightarrow> Q (f r)) \<Longrightarrow> list_all Q (update_rows P f rows)"
  by (auto simp: update_rows_def list_all_iff)

lemma refers_parents: "map key ps = map key ps' \<Longrightarrow> refers fk rows key ps = refers fk rows key ps'"
  unfolding refers_def by (simp only:)

lemma refers_update_rows:
  "refers fk rows key ps \<Longrightarrow> (\<And>r. P r \<Longrightarrow> fk (f r) = fk r) \<Longrightarrow> refers fk (update_rows P f rows) key ps"
  unfolding refers_def by (rule update_rows_all) auto

lemma db_ok_update_backups:
  assumes "db_ok d" "\<And>b. P b \<Longrightarrow> b_id (f b) = b_id b \<and> b_project_id (f b) = b_project_id b"
    "\<And>b. P b \<Longrightarrow> backup_check b \<Longrightarrow> backup_check (f b)"
  shows "db_ok (d\<lparr>backups := update_rows P f (backups d)\<rparr>)"
proof -
  have ids: "map b_id (update_rows P f (backups d)) = map b_id (backups d)"
    using assms(2) by (intro map_update_rows) auto
  have r: "refers fk rows b_id (update_rows P f (backups d)) = refers fk rows b_id (backups d)"
    for fk :: "'r \<Rightarrow> string option" and rows
    using ids by (rule refers_parents)
  have "refers b_project_id (update_rows P f (backups d)) pr_project_id (projects d)"
    using assms(1,2) by (intro refers_update_rows) (auto simp: db_ok_def backups_ok_def)
  moreover have "list_all backup_check (update_rows P f (backups d))"
    using assms(1,3) by (intro update_rows_all) (auto simp: db_ok_def backups_ok_def)
  ultimately show ?thesis
    using assms(1) unfolding db_ok_def table_ok_defs unique_on_def by (simp add: ids r)
qed

lemma db_ok_append_event:
  assumes "db_ok d" "backup_event_check e" "be_backup_id e \<in> set (map b_id (backups d))"
    "be_sequence e = next_sequence be_sequence (backup_events d)"
  shows "db_ok (d\<lparr>backup_events := backup_events d @ [e]\<rparr>)"
proof -
  have "be_sequence e \<notin> set (map be_sequence (backup_events d))"
    using next_sequence_fresh[of _ "backup_events d" be_sequence] assms(4) by fastforce
  with assms show ?thesis unfolding db_ok_def table_ok_defs unique_on_def refers_def by simp
qed

definition pin_event :: "string \<Rightarrow> string \<Rightarrow> bool \<Rightarrow> catalog_db \<Rightarrow> backup_event_row" where
  "pin_event now i pinned d = \<lparr>be_sequence = next_sequence be_sequence (backup_events d),
     be_backup_id = i, be_event_type = ''pin_set'', be_occurred_at = now, be_path = None,
     be_validator = None, be_exit_code = None,
     be_message = Some (''pinned='' @ (if pinned then ''true'' else ''false''))\<rparr>"

text \<open>
  C12: Pinning is total on known backups and audited exactly once: the call reports whether the flag
  changed; if it did, the committed catalogue has the new flag on that backup alone and one new
  \<^verbatim>\<open>pin_set\<close> event, and otherwise nothing is written.
\<close>

theorem set_pinned_audited:
  assumes "conn_ok c" "\<not> in_tx c" "canonical_uuid (lower backup_id)"
    "find_backup (lower backup_id) (committed c) = Some b"
  shows "\<exists>c'. set_pinned now backup_id pinned c = (Inr ((b_pinned b \<noteq> 0) \<noteq> pinned), c') \<and> \<not> in_tx c'
    \<and> committed c' = (if (b_pinned b \<noteq> 0) = pinned then committed c
        else (committed c)\<lparr>
          backups := update_rows (\<lambda>x. b_id x = lower backup_id)
            (\<lambda>x. x\<lparr>b_pinned := (if pinned then 1 else 0)\<rparr>) (backups (committed c)),
          backup_events := backup_events (committed c) @
            [pin_event now (lower backup_id) pinned (committed c)]\<rparr>)"
proof -
  let ?i = "lower backup_id" and ?d = "committed c"
  have w: "working c = ?d" using assms(1,2) by (simp add: conn_ok_def)
  let ?f = "\<lambda>x. x\<lparr>b_pinned := (if pinned then 1 else 0)\<rparr>"
  let ?d1 = "?d\<lparr>backups := update_rows (\<lambda>x. b_id x = ?i) ?f (backups ?d)\<rparr>"
  let ?d2 = "?d1\<lparr>backup_events := backup_events ?d1 @ [pin_event now ?i pinned ?d]\<rparr>"
  have ok1: "db_ok ?d1"
    using assms(1) by (intro db_ok_update_backups) (auto simp: conn_ok_def backup_check_def)
  have ids: "map b_id (update_rows (\<lambda>x. b_id x = ?i) ?f (backups ?d)) = map b_id (backups ?d)"
    by (rule map_update_rows) simp
  have "?i \<in> set (map b_id (backups ?d))" using find_backup_Some[OF assms(4)] by (auto intro: rev_image_eqI)
  then have ok2: "db_ok ?d2"
    using ok1 ids by (intro db_ok_append_event) (auto simp: pin_event_def backup_event_check_def simp del: set_map)
  show ?thesis
    using assms(2-4) ok1 ok2 w
    by (auto simp: set_pinned_def translate_sqlite_error_def abind_def aseq_def lift_result_def
        canonical_backup_id_eq query_db_def reads_def ret_def with_conn_def update_backup_def dml_def
        add_event_def commit_def pin_event_def)
qed

section \<open>A sample catalogue\<close>

definition sample_backup :: "string \<Rightarrow> string \<Rightarrow> backup_row" where
  "sample_backup i t = \<lparr>b_id = i, b_source_base_url = ''https://erp.example.com'',
     b_database_name = ''prod'', b_format = ''zip'', b_filestore_requested = 1, b_path = Some ''/b.zip'',
     b_filename = Some ''b.zip'', b_size_bytes = Some 9, b_sha256 = Some ''ab'',
     b_state = ''available'', b_started_at = t, b_downloaded_at = Some t, b_failed_at = None,
     b_deleted_at = None, b_error_type = None, b_error_message = None,
     b_project_id = Some ''project_erp_01'', b_source_git_branch = None,
     b_source_name = Some ''prod'', b_pinned = 0\<rparr>"

definition sample_id :: "char \<Rightarrow> string" where
  "sample_id c = ''00000000-0000-4000-8000-00000000000'' @ [c]"

definition sample_db :: catalog_db where
  "sample_db = empty_db\<lparr>
     projects := [\<lparr>pr_project_id = ''project_erp_01'', pr_repository_root = ''/erp'',
       pr_git_common_dir = ''/erp/.git'', pr_registered_at = ''2024-05-01 08:00:00'',
       pr_updated_at = ''2024-05-01 08:00:00'', pr_registration_state = ''registered''\<rparr>],
     backups := [sample_backup (sample_id (CHR ''1'')) ''2024-05-01 10:00:00'',
       sample_backup (sample_id (CHR ''2'')) ''2024-05-02T10:00:00+00:00'',
       sample_backup (sample_id (CHR ''3'')) ''2024-05-01 09:00:00'']\<rparr>"

lemma sample_db_ok: "db_ok sample_db"
  by code_simp

lemma sample_conn_ok: "conn_ok (open_catalog sample_db)"
  by (simp add: conn_ok_def open_catalog_def sample_db_ok)

lemma sample_found: "find_backup (sample_id (CHR ''1'')) sample_db =
    Some (sample_backup (sample_id (CHR ''1'')) ''2024-05-01 10:00:00'')"
  by code_simp

lemma sample_unprotected: "protection_of (\<lambda>_. False) sample_db
    (sample_backup (sample_id (CHR ''1'')) ''2024-05-01 10:00:00'') = None"
  by code_simp

lemma sample_canonical: "lower (sample_id (CHR ''1'')) = sample_id (CHR ''1'')"
    "canonical_uuid (sample_id (CHR ''1''))"
  by code_simp+


theorem set_pinned_audited_witness:
  "\<exists>c'. set_pinned ''2024-05-03 00:00:00'' (sample_id (CHR ''1'')) True (open_catalog sample_db) =
     (Inr True, c') \<and> length (backup_events (committed c')) = 1"
proof -
  have "canonical_uuid (lower (sample_id (CHR ''1'')))" by code_simp
  moreover have "find_backup (lower (sample_id (CHR ''1''))) (committed (open_catalog sample_db)) =
      Some (sample_backup (sample_id (CHR ''1'')) ''2024-05-01 10:00:00'')" by code_simp
  moreover have "\<not> in_tx (open_catalog sample_db)" by (simp add: open_catalog_def)
  ultimately show ?thesis
    using set_pinned_audited[OF sample_conn_ok, of "sample_id (CHR ''1'')" _ "''2024-05-03 00:00:00''" True]
    by (fastforce simp: sample_backup_def open_catalog_def sample_db_def empty_db_def)
qed

section \<open>Pages\<close>

interpretation points: keyset_order point_order after_point
proof
  fix a b c k x :: "string \<times> string"
  show "point_order a b \<or> point_order b a" by (auto simp: point_order_def)
  show "point_order a b \<Longrightarrow> point_order b c \<Longrightarrow> point_order a c"
    unfolding point_order_def by (elim disjE conjE) (auto dest: less_trans order_trans)
  show "point_order a b \<Longrightarrow> point_order b a \<Longrightarrow> a = b"
    by (auto simp: point_order_def prod_eq_iff)
  show "after_point k x \<longleftrightarrow> point_order k x \<and> k \<noteq> x"
    by (auto simp: point_order_def after_point_def prod_eq_iff order_less_le)
qed



section \<open>An abandoned transaction\<close>

text \<open>
  The operations that commit by hand do not roll back when a statement fails: recording the
  deletion of an unknown backup raises and leaves its transaction open, and from then on reading
  any backup projection on the same connection raises as well.
\<close>

theorem failed_deletion_blocks_reads:
  assumes "conn_ok c" "\<not> in_tx c" "backup_id \<notin> set (map b_id (backups (committed c)))"
    "canonical_uuid (lower other)"
  shows "\<exists>c'. record_deletion now backup_id c = (Inl (BackupCatalogError ''constraint failed''), c')
    \<and> in_tx c' \<and> committed c' = committed c
    \<and> fst (resolve_backup_projection fs other c') =
        Inl (BackupCatalogError ''cannot start a transaction within a transaction'')"
proof -
  let ?d = "committed c"
  have w: "working c = ?d" using assms(1,2) by (simp add: conn_ok_def)
  have same: "update_rows (\<lambda>b. b_id b = backup_id) f (backups ?d) = backups ?d" for f
    unfolding update_rows_def using assms(3) by (intro map_idI) auto
  have ok: "db_ok ?d" using assms(1) by (simp add: conn_ok_def)
  have bad: "\<not> db_ok (?d\<lparr>backup_events := backup_events ?d @ [e]\<rparr>)" if "be_backup_id e = backup_id" for e
    using assms(3) that by (auto simp: db_ok_def backup_events_ok_def refers_def)
  have "record_deletion now backup_id c =
      (Inl (BackupCatalogError ''constraint failed''), c\<lparr>in_tx := True\<rparr>)"
    using w ok bad
    by (simp add: record_deletion_def translate_sqlite_error_def abind_def aseq_def update_backup_def
        add_event_def dml_def same translate_error_def)
  moreover have "fst (resolve_backup_projection fs other (c\<lparr>in_tx := True\<rparr>)) =
      Inl (BackupCatalogError ''cannot start a transaction within a transaction'')"
    using assms(4)
    by (simp add: resolve_backup_projection_def translate_sqlite_error_def abind_def aseq_def
        lift_result_def canonical_backup_id_eq begin_tx_def translate_error_def)
  ultimately show ?thesis by auto
qed

theorem failed_deletion_blocks_reads_witness:
  "\<exists>c'. record_deletion ''2024-05-03 00:00:00'' (sample_id (CHR ''9'')) (open_catalog sample_db) =
     (Inl (BackupCatalogError ''constraint failed''), c') \<and> in_tx c'"
proof -
  have "\<not> in_tx (open_catalog sample_db)"
    "sample_id (CHR ''9'') \<notin> set (map b_id (backups (committed (open_catalog sample_db))))"
    "canonical_uuid (lower (sample_id (CHR ''1'')))" by code_simp+
  from failed_deletion_blocks_reads[OF sample_conn_ok this] show ?thesis by blast
qed

end
