(* ===== verification/Catalog_Cluster.thy ===== *)
theory Catalog_Cluster
  imports Catalog_Backup
begin

text \<open>
  Ownership claims on PostgreSQL clusters (\<^verbatim>\<open>storage/catalog/postgres_cluster.py\<close> and the claim part of
  \<^verbatim>\<open>storage/catalog/helpers.py\<close>): one claim per project, created pending, activated after external
  inspection and removed only while active. The life cycle is a step relation on the table, and
  every operation refines it.

  A fresh \<^verbatim>\<open>uuid.uuid4()\<close> is an argument, as is the text of \<^verbatim>\<open>datetime('now')\<close>.
\<close>

section \<open>Claims\<close>

record cluster_claim =
  cc_cluster_id :: nat
  cc_project_id :: string
  cc_compose_project :: string
  cc_volume_name :: string
  cc_state :: string
  cc_created_at :: py_datetime
  cc_activated_at :: "py_datetime option"

definition cluster_uuid :: "string \<Rightarrow> (catalog_error, string) result" where
  "cluster_uuid value = (case uuid_of_text value of
     None \<Rightarrow> Inl (BackupCatalogError ''cluster_id must be a complete UUID'')
   | Some parsed \<Rightarrow> Inr (uuid_text parsed))"

definition malformed_claim :: catalog_error where
  "malformed_claim = BackupCatalogError ''postgres cluster claim contains malformed identity''"

definition optional_time :: "string option \<Rightarrow> py_datetime option option" where
  "optional_time t = (case t of None \<Rightarrow> Some None | Some s \<Rightarrow> map_option Some (fromisoformat s))"

definition row_to_cluster_claim :: "cluster_row \<Rightarrow> (catalog_error, cluster_claim) result" where
  "row_to_cluster_claim row =
     (case (uuid_of_text (pc_cluster_id row), fromisoformat (pc_created_at row),
            optional_time (pc_activated_at row)) of
        (Some cluster_id, Some created_at, Some activated_at) \<Rightarrow>
          if pc_state row \<notin> {''pending'', ''active''}
          then Inl (BackupCatalogError ''postgres cluster claim contains invalid state'')
          else Inr \<lparr>cc_cluster_id = cluster_id, cc_project_id = pc_project_id row,
            cc_compose_project = pc_compose_project row, cc_volume_name = pc_volume_name row,
            cc_state = pc_state row, cc_created_at = created_at, cc_activated_at = activated_at\<rparr>
      | _ \<Rightarrow> Inl malformed_claim)"

definition cluster_of_project :: "string \<Rightarrow> catalog_db \<Rightarrow> cluster_row option" where
  "cluster_of_project project d = fetchone (filter (\<lambda>r. pc_project_id r = project) (postgres_clusters d))"

definition cluster_by_id :: "string \<Rightarrow> catalog_db \<Rightarrow> cluster_row option" where
  "cluster_by_id identifier d = fetchone (filter (\<lambda>r. pc_cluster_id r = identifier) (postgres_clusters d))"

definition decode_claim :: "cluster_row option \<Rightarrow> cluster_claim option cat" where
  "decode_claim row = (case row of None \<Rightarrow> ret None
     | Some r \<Rightarrow> abind (lift_result (row_to_cluster_claim r)) (\<lambda>claim. ret (Some claim)))"

definition get_postgres_cluster :: "string \<Rightarrow> cluster_claim option cat" where
  "get_postgres_cluster project_id = translate_sqlite_error
     (abind (lift_result (cluster_text project_id ''project_id'')) (\<lambda>project.
      abind (query_db (cluster_of_project project)) decode_claim))"

definition get_postgres_cluster_by_id :: "string \<Rightarrow> cluster_claim option cat" where
  "get_postgres_cluster_by_id cluster_id = translate_sqlite_error
     (abind (lift_result (cluster_uuid cluster_id)) (\<lambda>identifier.
      abind (query_db (cluster_by_id identifier)) decode_claim))"

definition required_claim :: "cluster_row option \<Rightarrow> cluster_claim cat" where
  "required_claim row = (case row of None \<Rightarrow> throw PyAssertionError
     | Some r \<Rightarrow> lift_result (row_to_cluster_claim r))"

definition insert_cluster :: "cluster_row \<Rightarrow> nat cat" where
  "insert_cluster row = dml (\<lambda>d. (d\<lparr>postgres_clusters := postgres_clusters d @ [row]\<rparr>, 1))"

definition pending_row :: "string \<Rightarrow> string \<Rightarrow> string \<Rightarrow> string \<Rightarrow> string \<Rightarrow> cluster_row" where
  "pending_row now identifier project compose volume =
     \<lparr>pc_cluster_id = identifier, pc_project_id = project, pc_compose_project = compose,
      pc_volume_name = volume, pc_state = ''pending'', pc_created_at = now, pc_activated_at = None\<rparr>"

definition ensure_postgres_cluster_pending ::
  "string \<Rightarrow> nat \<Rightarrow> string \<Rightarrow> string \<Rightarrow> string \<Rightarrow> cluster_claim cat" where
  "ensure_postgres_cluster_pending now fresh project_id compose_project volume_name =
     translate_sqlite_error
     (abind (lift_result (cluster_text project_id ''project_id'')) (\<lambda>project.
      abind (lift_result (cluster_text compose_project ''compose_project'')) (\<lambda>compose.
      abind (lift_result (cluster_text volume_name ''volume_name'')) (\<lambda>volume.
      with_conn (abind (query_db (cluster_of_project project)) (\<lambda>row.
        case row of
          Some r \<Rightarrow> abind (lift_result (row_to_cluster_claim r)) (\<lambda>claim.
            if cc_compose_project claim \<noteq> compose \<or> cc_volume_name claim \<noteq> volume
            then throw (BackupCatalogError ''existing postgres cluster claim does not match'')
            else ret claim)
        | None \<Rightarrow>
            aseq (insert_cluster (pending_row now (uuid_text fresh) project compose volume))
              (abind (query_db (cluster_by_id (uuid_text fresh))) required_claim)))))))"

definition activate_postgres_cluster ::
  "string \<Rightarrow> string \<Rightarrow> string \<Rightarrow> string \<Rightarrow> string \<Rightarrow> cluster_claim cat" where
  "activate_postgres_cluster now cluster_id project_id compose_project volume_name =
     translate_sqlite_error
     (abind (lift_result (cluster_uuid cluster_id)) (\<lambda>identifier.
      abind (lift_result (cluster_text project_id ''project_id'')) (\<lambda>project.
      abind (lift_result (cluster_text compose_project ''compose_project'')) (\<lambda>compose.
      abind (lift_result (cluster_text volume_name ''volume_name'')) (\<lambda>volume.
      with_conn (abind (query_db (cluster_by_id identifier)) (\<lambda>row.
        case row of
          None \<Rightarrow> throw (BackupCatalogError ''postgres cluster claim does not exist'')
        | Some r \<Rightarrow> abind (lift_result (row_to_cluster_claim r)) (\<lambda>claim.
            if cc_project_id claim \<noteq> project \<or> cc_compose_project claim \<noteq> compose
               \<or> cc_volume_name claim \<noteq> volume
            then throw (BackupCatalogError ''postgres cluster claim identity does not match'')
            else if cc_state claim = ''active'' then ret claim
            else if cc_state claim \<noteq> ''pending''
            then throw (BackupCatalogError ''postgres cluster claim has an invalid state'')
            else aseq (dml (\<lambda>d.
                let P = (\<lambda>r. pc_cluster_id r = identifier \<and> pc_state r = ''pending'') in
                (d\<lparr>postgres_clusters := update_rows P (\<lambda>r. r\<lparr>pc_state := ''active'',
                     pc_activated_at := Some now\<rparr>) (postgres_clusters d)\<rparr>,
                 count_rows P (postgres_clusters d))))
              (abind (query_db (cluster_by_id identifier)) required_claim)))))))))"

definition remove_postgres_cluster_claim ::
  "string \<Rightarrow> string \<Rightarrow> string \<Rightarrow> string \<Rightarrow> bool cat" where
  "remove_postgres_cluster_claim cluster_id project_id compose_project volume_name =
     translate_sqlite_error
     (abind (lift_result (cluster_uuid cluster_id)) (\<lambda>identifier.
      abind (lift_result (cluster_text project_id ''project_id'')) (\<lambda>project.
      abind (lift_result (cluster_text compose_project ''compose_project'')) (\<lambda>compose.
      abind (lift_result (cluster_text volume_name ''volume_name'')) (\<lambda>volume.
      with_conn (abind (dml (\<lambda>d.
          let P = (\<lambda>r. pc_cluster_id r = identifier \<and> pc_project_id r = project
                \<and> pc_compose_project r = compose \<and> pc_volume_name r = volume \<and> pc_state r = ''active'') in
          (d\<lparr>postgres_clusters := delete_rows P (postgres_clusters d)\<rparr>,
           count_rows P (postgres_clusters d)))) (\<lambda>rowcount. ret (rowcount = 1))))))))"

section \<open>Claims of a checkout\<close>

text \<open>
  \<open>read_text\<close> is \<^verbatim>\<open>None\<close> when reading raises; \<open>exists_or_raise\<close> is \<^verbatim>\<open>None\<close> when \<^verbatim>\<open>Path.exists\<close> raises.
\<close>

record git_fs = host_fs +
  is_dir :: "string \<Rightarrow> bool"
  read_text :: "string \<Rightarrow> string option"
  exists_or_raise :: "string \<Rightarrow> bool option"

definition path_join :: "string \<Rightarrow> string \<Rightarrow> string" where
  "path_join a b = (if startswith b ''/'' then b else if endswith a ''/'' then a @ b else a @ ''/'' @ b)"

definition path_parent :: "string \<Rightarrow> string" where
  "path_parent p = (let up = join_with ''/'' (butlast (split_on (CHR ''/'') p))
     in if up \<noteq> [] then up else if startswith p ''/'' then ''/'' else ''.'')"

definition is_relative_to :: "string \<Rightarrow> string \<Rightarrow> bool" where
  "is_relative_to p base \<longleftrightarrow> p = base \<or> startswith p (if base = ''/'' then base else base @ ''/'')"

definition parse_git_common_dir :: "git_fs \<Rightarrow> string \<Rightarrow> string option" where
  "parse_git_common_dir fs repository_root =
     (let rt = resolve (host_fs.truncate fs) repository_root; marker = path_join rt ''.git'' in
      if is_dir fs marker then Some (resolve (host_fs.truncate fs) marker)
      else if \<not> is_file fs marker then None
      else case read_text fs marker of None \<Rightarrow> None
      | Some content \<Rightarrow>
          let value = strip_ws content in
          if \<not> startswith value ''gitdir:'' then None
          else let raw_target = strip_ws (snd (snd (partition_at (CHR '':'') value))) in
            if raw_target = [] \<or> LF \<in> set raw_target \<or> CR \<in> set raw_target then None
            else let target = resolve (host_fs.truncate fs) (path_join rt raw_target) in
              if \<not> is_dir fs target then None
              else Some (if path_name (path_parent target) = ''worktrees''
                then path_parent (path_parent target) else target))"

definition captured_identity_ok :: "git_fs \<Rightarrow> string \<Rightarrow> string \<Rightarrow> bool" where
  "captured_identity_ok fs lexical_root common =
     (let rt = resolve (host_fs.truncate fs) lexical_root in
      case exists_or_raise fs lexical_root of None \<Rightarrow> False
      | Some root_exists \<Rightarrow>
        if root_exists \<or> is_symlink fs lexical_root then parse_git_common_dir fs rt = Some common
        else is_dir fs common \<or> is_relative_to common rt)"

definition legacy_claim :: "git_fs \<Rightarrow> (string \<Rightarrow> cluster_claim option cat) \<Rightarrow> string \<Rightarrow> string
    \<Rightarrow> string \<Rightarrow> cluster_claim option cat" where
  "legacy_claim fs get_claim project_id rt common =
     (let legacy_project_id = repo_key (host_fs.truncate fs) rt common in
      if project_id \<noteq> ''project_'' @ legacy_project_id then ret None
      else abind (get_claim legacy_project_id) (\<lambda>legacy.
        case legacy of None \<Rightarrow> ret None
        | Some l \<Rightarrow>
            if cc_compose_project l \<noteq> ''odcli_pg_'' @ legacy_project_id
               \<or> cc_volume_name l \<noteq> ''pgdata_'' @ legacy_project_id
            then ret None else ret (Some l)))"

definition resolve_postgres_cluster_claim :: "git_fs \<Rightarrow> (string \<Rightarrow> cluster_claim option cat)
    \<Rightarrow> string \<Rightarrow> string \<Rightarrow> string option \<Rightarrow> cluster_claim option cat" where
  "resolve_postgres_cluster_claim fs get_claim project_id repository_root git_common_dir =
     (case git_common_dir of None \<Rightarrow> ret None
      | Some captured \<Rightarrow>
        let rt = resolve (host_fs.truncate fs) repository_root;
            common = resolve (host_fs.truncate fs) captured in
        if \<not> captured_identity_ok fs repository_root common then ret None
        else abind (get_claim project_id) (\<lambda>claim.
          case claim of Some c \<Rightarrow> ret (Some c)
          | None \<Rightarrow> legacy_claim fs get_claim project_id rt common))"

definition get_postgres_cluster_for_project ::
  "git_fs \<Rightarrow> string \<Rightarrow> string \<Rightarrow> string option \<Rightarrow> cluster_claim option cat" where
  "get_postgres_cluster_for_project fs project_id repository_root git_common_dir =
     translate_sqlite_error (resolve_postgres_cluster_claim fs get_postgres_cluster project_id
       repository_root git_common_dir)"

section \<open>The contract of the operations\<close>

lemma obeys_decode_claim: "obeys uncommitted (decode_claim row)"
  unfolding decode_claim_def by (intro op_rules)

lemma obeys_required_claim: "obeys uncommitted (required_claim row)"
  unfolding required_claim_def by (intro op_rules)

lemma obeys_insert_cluster: "obeys uncommitted (insert_cluster row)"
  unfolding insert_cluster_def by (intro op_rules)

lemma obeys_get_cluster: "obeys uncommitted (get_postgres_cluster p)"
  unfolding get_postgres_cluster_def by (intro txn_rules obeys_decode_claim)

lemma obeys_get_cluster_by_id: "obeys uncommitted (get_postgres_cluster_by_id i)"
  unfolding get_postgres_cluster_by_id_def by (intro txn_rules obeys_decode_claim)

lemmas cluster_rules = obeys_decode_claim obeys_required_claim obeys_insert_cluster
  obeys_get_cluster obeys_get_cluster_by_id

lemma op_ok_ensure: "op_ok (ensure_postgres_cluster_pending now u p c v)"
  unfolding ensure_postgres_cluster_pending_def by (intro op_rules cluster_rules)

lemma op_ok_activate: "op_ok (activate_postgres_cluster now i p c v)"
  unfolding activate_postgres_cluster_def Let_def by (intro op_rules cluster_rules)

lemma op_ok_remove_claim: "op_ok (remove_postgres_cluster_claim i p c v)"
  unfolding remove_postgres_cluster_claim_def Let_def by (intro op_rules cluster_rules)

lemma idle_get_cluster: "keeps_idle (get_postgres_cluster p)"
  unfolding get_postgres_cluster_def decode_claim_def by (intro idle_rules)

lemma idle_get_cluster_by_id: "keeps_idle (get_postgres_cluster_by_id p)"
  unfolding get_postgres_cluster_by_id_def decode_claim_def by (intro idle_rules)

lemma idle_ensure: "keeps_idle (ensure_postgres_cluster_pending now u p c v)"
  unfolding ensure_postgres_cluster_pending_def by (intro idle_rules op_rules cluster_rules)

lemma idle_activate: "keeps_idle (activate_postgres_cluster now i p c v)"
  unfolding activate_postgres_cluster_def Let_def by (intro idle_rules op_rules cluster_rules)

lemma idle_remove_claim: "keeps_idle (remove_postgres_cluster_claim i p c v)"
  unfolding remove_postgres_cluster_claim_def Let_def by (intro idle_rules op_rules cluster_rules)

section \<open>The life cycle of a claim\<close>

inductive claim_step :: "cluster_row list \<Rightarrow> cluster_row list \<Rightarrow> bool" where
  create: "pc_state r = ''pending'' \<Longrightarrow> pc_activated_at r = None \<Longrightarrow>
    pc_project_id r \<notin> pc_project_id ` set rows \<Longrightarrow> pc_cluster_id r \<notin> pc_cluster_id ` set rows \<Longrightarrow>
    claim_step rows (rows @ [r])"
| activate: "rows = xs @ r # ys \<Longrightarrow> pc_state r = ''pending'' \<Longrightarrow>
    claim_step rows (xs @ r\<lparr>pc_state := ''active'', pc_activated_at := Some now\<rparr> # ys)"
| remove: "rows = xs @ r # ys \<Longrightarrow> pc_state r = ''active'' \<Longrightarrow> claim_step rows (xs @ ys)"

inductive_cases claim_stepE: "claim_step rows rows'"

lemma unique_split:
  assumes "distinct (map key rows)" "r \<in> set rows"
  obtains xs ys where "rows = xs @ r # ys" "\<And>x. x \<in> set xs \<union> set ys \<Longrightarrow> key x \<noteq> key r"
proof -
  obtain xs ys where "rows = xs @ r # ys" using assms(2) by (meson split_list)
  moreover from this assms(1) have "\<And>x. x \<in> set xs \<union> set ys \<Longrightarrow> key x \<noteq> key r"
    by (auto simp: image_iff)
  ultimately show thesis using that by blast
qed

lemma update_one:
  assumes "\<And>x. x \<in> set xs \<union> set ys \<Longrightarrow> \<not> P x" "P r"
  shows "update_rows P f (xs @ r # ys) = xs @ f r # ys"
    and "delete_rows P (xs @ r # ys) = xs @ ys"
    and "count_rows P (xs @ r # ys) = 1"
proof -
  have "\<And>x. x \<in> set xs \<Longrightarrow> \<not> P x" "\<And>x. x \<in> set ys \<Longrightarrow> \<not> P x" using assms(1) by auto
  with assms(2) show "update_rows P f (xs @ r # ys) = xs @ f r # ys"
    "delete_rows P (xs @ r # ys) = xs @ ys" "count_rows P (xs @ r # ys) = 1"
    by (auto simp: update_rows_def delete_rows_def count_rows_def map_idI filter_empty_conv)
qed

lemma update_none: "(\<And>x. x \<in> set rows \<Longrightarrow> \<not> P x) \<Longrightarrow> update_rows P f rows = rows"
    "(\<And>x. x \<in> set rows \<Longrightarrow> \<not> P x) \<Longrightarrow> delete_rows P rows = rows"
  by (auto simp: update_rows_def delete_rows_def intro: map_idI)

lemma clusters_unique: "db_ok d \<Longrightarrow> distinct (map pc_cluster_id (postgres_clusters d))"
    "db_ok d \<Longrightarrow> distinct (map pc_project_id (postgres_clusters d))"
  by (simp_all add: db_ok_def postgres_clusters_ok_def unique_on_def)

text \<open>The database after an operation that publishes one: one step further in this table.\<close>

definition claim_moved :: "catalog_db \<Rightarrow> catalog_db \<Rightarrow> bool" where
  "claim_moved d d' \<longleftrightarrow> (\<exists>rows. claim_step (postgres_clusters d) rows \<and> d' = d\<lparr>postgres_clusters := rows\<rparr>)"

lemma claim_movedI: "claim_step (postgres_clusters d) rows \<Longrightarrow> claim_moved d (d\<lparr>postgres_clusters := rows\<rparr>)"
  by (auto simp: claim_moved_def)

lemma ensure_moves:
  assumes "idle c"
  shows "commits (claim_moved (committed c)) (ensure_postgres_cluster_pending now u p k v) c"
  unfolding ensure_postgres_cluster_pending_def
proof (intro commit_rules commits_with, goal_cases)
  case (3 project compose volume x c1)
  let ?row = "pending_row now (uuid_text u) project compose volume"
  from 3(4) have "working c1 = committed c \<or> (cluster_of_project project (committed c) = None \<and>
      working c1 = committed c\<lparr>postgres_clusters := postgres_clusters (committed c) @ [?row]\<rparr>)"
    by (auto simp: run_Inr insert_cluster_def required_claim_def idle_working[OF assms]
        split: option.splits if_splits)
  then show ?case
  proof (elim disjE conjE)
    assume "cluster_of_project project (committed c) = None"
      and w: "working c1 = committed c\<lparr>postgres_clusters := postgres_clusters (committed c) @ [?row]\<rparr>"
    then have "project \<notin> pc_project_id ` set (postgres_clusters (committed c))"
      by (auto simp: cluster_of_project_def filter_empty_conv)
    moreover have "uuid_text u \<notin> pc_cluster_id ` set (postgres_clusters (committed c))"
      using clusters_unique(1)[OF 3(5)] w by (simp add: pending_row_def)
    ultimately have "claim_step (postgres_clusters (committed c)) (postgres_clusters (committed c) @ [?row])"
      by (intro create) (simp_all add: pending_row_def)
    then show ?thesis unfolding w by (intro disjI2 claim_movedI)
  qed simp
qed (use assms in \<open>auto intro!: op_rules cluster_rules\<close>)

lemma cluster_by_id_Some: "cluster_by_id i d = Some r \<Longrightarrow> r \<in> set (postgres_clusters d) \<and> pc_cluster_id r = i"
  by (auto simp: cluster_by_id_def dest: fetchone_Some)

lemma activate_rows:
  assumes "db_ok d" "cluster_by_id i d = Some r" "pc_state r = ''pending''"
  shows "claim_step (postgres_clusters d) (update_rows (\<lambda>r. pc_cluster_id r = i \<and> pc_state r = ''pending'')
    (\<lambda>r. r\<lparr>pc_state := ''active'', pc_activated_at := Some now\<rparr>) (postgres_clusters d))"
proof -
  note r = cluster_by_id_Some[OF assms(2)]
  obtain xs ys where s: "postgres_clusters d = xs @ r # ys"
    "\<And>x. x \<in> set xs \<union> set ys \<Longrightarrow> pc_cluster_id x \<noteq> pc_cluster_id r"
    by (rule unique_split[OF clusters_unique(1)[OF assms(1)]]) (use r in blast)+
  with r assms(3) show ?thesis
    unfolding s(1) by (subst update_one) (auto intro: activate)
qed

lemma activate_moves:
  assumes "idle c"
  shows "commits (claim_moved (committed c)) (activate_postgres_cluster now i p k v) c"
  unfolding activate_postgres_cluster_def Let_def
proof (intro commit_rules commits_with, goal_cases)
  case (3 ident project compose volume x c1)
  let ?d = "committed c" and ?P = "\<lambda>r. pc_cluster_id r = ident \<and> pc_state r = ''pending''"
  let ?f = "\<lambda>r. r\<lparr>pc_state := ''active'', pc_activated_at := Some now\<rparr>"
  from 3(5) have "working c1 = ?d \<or> (\<exists>r claim. cluster_by_id ident ?d = Some r
      \<and> row_to_cluster_claim r = Inr claim \<and> cc_state claim = ''pending''
      \<and> working c1 = ?d\<lparr>postgres_clusters := update_rows ?P ?f (postgres_clusters ?d)\<rparr>)"
    by (auto simp: run_Inr required_claim_def idle_working[OF assms] split: option.splits if_splits)
  then show ?case
  proof (elim disjE exE conjE)
    fix r claim
    assume r: "cluster_by_id ident ?d = Some r" "row_to_cluster_claim r = Inr claim"
      "cc_state claim = ''pending''"
      and w: "working c1 = ?d\<lparr>postgres_clusters := update_rows ?P ?f (postgres_clusters ?d)\<rparr>"
    from r(2,3) have "pc_state r = ''pending''"
      by (auto simp: row_to_cluster_claim_def split: option.splits if_splits)
    then show ?thesis
      unfolding w using activate_rows[OF idle_db_ok[OF assms] r(1)] by (intro disjI2 claim_movedI)
  qed simp
qed (use assms in \<open>auto intro!: op_rules cluster_rules\<close>)

lemma remove_moves:
  assumes "idle c"
  shows "commits (claim_moved (committed c)) (remove_postgres_cluster_claim i p k v) c"
  unfolding remove_postgres_cluster_claim_def Let_def
proof (intro commit_rules commits_with, goal_cases)
  case (3 ident project compose volume x c1)
  let ?d = "committed c" and ?P = "\<lambda>r. pc_cluster_id r = ident \<and> pc_project_id r = project
    \<and> pc_compose_project r = compose \<and> pc_volume_name r = volume \<and> pc_state r = ''active''"
  from 3(5) have w: "working c1 = ?d\<lparr>postgres_clusters := delete_rows ?P (postgres_clusters ?d)\<rparr>"
    by (auto simp: run_Inr idle_working[OF assms])
  show ?case
  proof (cases "\<exists>r \<in> set (postgres_clusters ?d). ?P r")
    case True
    then obtain r where r: "r \<in> set (postgres_clusters ?d)" "?P r" by blast
    obtain xs ys where s: "postgres_clusters ?d = xs @ r # ys"
      "\<And>x. x \<in> set xs \<union> set ys \<Longrightarrow> pc_cluster_id x \<noteq> pc_cluster_id r"
      by (rule unique_split[OF clusters_unique(1)[OF idle_db_ok[OF assms]] r(1)]) blast
    from r s(2) have "delete_rows ?P (xs @ r # ys) = xs @ ys" by (intro update_one) auto
    with s(1) r(2) have "claim_step (postgres_clusters ?d) (delete_rows ?P (postgres_clusters ?d))"
      by (auto intro: remove)
    then show ?thesis unfolding w by (intro disjI2 claim_movedI)
  next
    case False
    then show ?thesis unfolding w by (subst update_none(2)) auto
  qed
qed (use assms in \<open>auto intro!: op_rules cluster_rules\<close>)

datatype cluster_call =
    EnsurePending string nat string string string
  | Activate string string string string string
  | RemoveClaim string string string string

fun perform :: "cluster_call \<Rightarrow> unit cat" where
  "perform (EnsurePending now u p k v) = abind (ensure_postgres_cluster_pending now u p k v) (\<lambda>_. ret ())"
| "perform (Activate now i p k v) = abind (activate_postgres_cluster now i p k v) (\<lambda>_. ret ())"
| "perform (RemoveClaim i p k v) = abind (remove_postgres_cluster_claim i p k v) (\<lambda>_. ret ())"

text \<open>A session of calls on one catalogue; what a call raises is its caller's business.\<close>

fun cluster_session :: "cluster_call list \<Rightarrow> conn \<Rightarrow> conn" where
  "cluster_session [] c = c"
| "cluster_session (x # xs) c = cluster_session xs (snd (perform x c))"

lemma call_moves: "idle c \<Longrightarrow> commits (claim_moved (committed c)) (perform x) c"
  by (cases x) (simp_all add: commits_then_ret ensure_moves activate_moves remove_moves)

definition activation_recorded :: "cluster_row list \<Rightarrow> bool" where
  "activation_recorded rows \<longleftrightarrow> list_all (\<lambda>r. (pc_state r = ''pending'') = (pc_activated_at r = None)) rows"

lemma claim_step_recorded: "claim_step rows rows' \<Longrightarrow> activation_recorded rows \<Longrightarrow> activation_recorded rows'"
  by (induction rule: claim_step.induct) (auto simp: activation_recorded_def)

lemma claim_steps_recorded: "claim_step\<^sup>*\<^sup>* rows rows' \<Longrightarrow> activation_recorded rows \<Longrightarrow> activation_recorded rows'"
  by (induction rule: rtranclp_induct) (auto intro: claim_step_recorded)

lemma session_moves:
  "idle c \<Longrightarrow> \<exists>rows. claim_step\<^sup>*\<^sup>* (postgres_clusters (committed c)) rows \<and>
     idle (cluster_session calls c) \<and>
     committed (cluster_session calls c) = committed c\<lparr>postgres_clusters := rows\<rparr>"
proof (induction calls arbitrary: c)
  case Nil
  then show ?case by (intro exI[of _ "postgres_clusters (committed c)"]) simp
next
  case (Cons x xs)
  obtain r c' where x: "perform x c = (r, c')" by force
  from call_moves[OF Cons.prems, of x] x show ?case
  proof (cases rule: commitsD[consumes 2])
    case 1
    with x Cons show ?thesis by simp
  next
    case (2 d)
    then obtain rows where rows: "claim_step (postgres_clusters (committed c)) rows"
      "d = committed c\<lparr>postgres_clusters := rows\<rparr>" by (auto simp: claim_moved_def)
    have "idle c'" using 2 Cons.prems by simp
    from Cons.IH[OF this] 2 rows x show ?thesis
      by (auto intro: converse_rtranclp_into_rtranclp)
  qed
qed

text \<open>
  C14: Any sequence of ensure, activate and remove calls, whatever they return or raise, moves the
  claim table by life-cycle steps only: claims are created pending, become active once, and leave
  only while active. No other table changes, every project keeps at most one claim, no transaction
  is left open, and claims carry an activation time exactly when they are active if they did so at
  the start.
\<close>

theorem cluster_session_lifecycle:
  assumes "idle c"
  shows "\<exists>rows. claim_step\<^sup>*\<^sup>* (postgres_clusters (committed c)) rows
    \<and> committed (cluster_session calls c) = committed c\<lparr>postgres_clusters := rows\<rparr>
    \<and> distinct (map pc_project_id rows) \<and> distinct (map pc_cluster_id rows)
    \<and> (activation_recorded (postgres_clusters (committed c)) \<longrightarrow> activation_recorded rows)
    \<and> \<not> in_tx (cluster_session calls c)"
proof -
  obtain rows where r: "claim_step\<^sup>*\<^sup>* (postgres_clusters (committed c)) rows"
    "idle (cluster_session calls c)"
    "committed (cluster_session calls c) = committed c\<lparr>postgres_clusters := rows\<rparr>"
    using session_moves[OF assms] by blast
  from clusters_unique[OF idle_db_ok[OF r(2)]] r(3)
  have "distinct (map pc_project_id rows)" "distinct (map pc_cluster_id rows)" by simp_all
  with r claim_steps_recorded[OF r(1)] show ?thesis by (auto simp: idle_def)
qed

lemma db_ok_append_cluster:
  assumes "db_ok d" "pc_state row = ''pending'' \<or> pc_state row = ''active''"
    "pc_project_id row \<notin> set (map pc_project_id (postgres_clusters d))"
    "pc_cluster_id row \<notin> set (map pc_cluster_id (postgres_clusters d))"
  shows "db_ok (d\<lparr>postgres_clusters := postgres_clusters d @ [row]\<rparr>)"
  using assms by (auto simp: db_ok_def table_ok_defs unique_on_def cluster_check_def)

section \<open>One claim from creation to removal\<close>

lemma uuid_cluster: "u < 2 ^ 128 \<Longrightarrow> cluster_uuid (uuid_text u) = Inr (uuid_text u)"
  by (simp add: cluster_uuid_def uuid_text_roundtrip)

lemma distinct_map_last: "distinct (map f (xs @ [r])) \<Longrightarrow> x \<in> set xs \<Longrightarrow> f x \<noteq> f r"
  by (auto simp: image_iff)

lemma fetch_last: "(\<And>x. x \<in> set xs \<Longrightarrow> \<not> P x) \<Longrightarrow> P r \<Longrightarrow> fetchone (filter P (xs @ [r])) = Some r"
  by (simp add: fetchone_def filter_empty_conv[symmetric])

lemma claim_of_row:
  assumes "u < 2 ^ 128" "pc_cluster_id r = uuid_text u" "fromisoformat (pc_created_at r) = Some t"
    "optional_time (pc_activated_at r) = Some a" "pc_state r \<in> {''pending'', ''active''}"
  shows "row_to_cluster_claim r = Inr \<lparr>cc_cluster_id = u, cc_project_id = pc_project_id r,
    cc_compose_project = pc_compose_project r, cc_volume_name = pc_volume_name r,
    cc_state = pc_state r, cc_created_at = t, cc_activated_at = a\<rparr>"
  using assms by (auto simp: row_to_cluster_claim_def uuid_text_roundtrip)

text \<open>The steps of one claim, each on the database the previous one published.\<close>

lemma ensure_new:
  assumes "idle c" "cluster_text p ''project_id'' = Inr project"
    "cluster_text k ''compose_project'' = Inr compose" "cluster_text v ''volume_name'' = Inr volume"
    "project \<notin> set (map pc_project_id (postgres_clusters (committed c)))"
    "uuid_text u \<notin> set (map pc_cluster_id (postgres_clusters (committed c)))"
    "row_to_cluster_claim (pending_row now (uuid_text u) project compose volume) = Inr claim"
  shows "ensure_postgres_cluster_pending now u p k v c = (Inr claim, publish c (committed c\<lparr>postgres_clusters :=
    postgres_clusters (committed c) @ [pending_row now (uuid_text u) project compose volume]\<rparr>))"
proof -
  let ?row = "pending_row now (uuid_text u) project compose volume"
  let ?d = "committed c\<lparr>postgres_clusters := postgres_clusters (committed c) @ [?row]\<rparr>"
  have ok: "db_ok ?d"
    using assms(5,6) by (intro db_ok_append_cluster idle_db_ok assms(1)) (auto simp: pending_row_def)
  have none: "cluster_of_project project (committed c) = None"
    using assms(5) by (auto simp: cluster_of_project_def filter_empty_conv)
  have "fetchone (filter (\<lambda>r. pc_cluster_id r = uuid_text u) (postgres_clusters (committed c) @ [?row])) = Some ?row"
    using assms(6) by (intro fetch_last) (force simp: pending_row_def)+
  then have "cluster_by_id (uuid_text u) ?d = Some ?row" by (simp add: cluster_by_id_def)
  then show ?thesis
    using assms(1-4,7) ok none idle_working[OF assms(1)]
    by (simp add: ensure_postgres_cluster_pending_def exec_defs insert_cluster_def required_claim_def
        publish_def idle_def)
qed

lemma ensure_existing:
  assumes "idle c" "cluster_text p ''project_id'' = Inr project"
    "cluster_text k ''compose_project'' = Inr compose" "cluster_text v ''volume_name'' = Inr volume"
    "cluster_of_project project (committed c) = Some r" "row_to_cluster_claim r = Inr claim"
    "cc_compose_project claim = compose" "cc_volume_name claim = volume"
  shows "ensure_postgres_cluster_pending now u p k v c = (Inr claim, c)"
  using assms idle_working[OF assms(1)]
  by (simp add: ensure_postgres_cluster_pending_def exec_defs idle_def)

lemma activate_pending:
  assumes "idle c" "cluster_uuid i = Inr ident" "cluster_text p ''project_id'' = Inr project"
    "cluster_text k ''compose_project'' = Inr compose" "cluster_text v ''volume_name'' = Inr volume"
    "postgres_clusters (committed c) = xs @ [r]" "pc_cluster_id r = ident" "pc_state r = ''pending''"
    "pc_project_id r = project" "pc_compose_project r = compose" "pc_volume_name r = volume"
    "row_to_cluster_claim r = Inr claim"
    "row_to_cluster_claim (r\<lparr>pc_state := ''active'', pc_activated_at := Some now\<rparr>) = Inr claim'"
  shows "activate_postgres_cluster now i p k v c = (Inr claim', publish c (committed c\<lparr>postgres_clusters :=
    xs @ [r\<lparr>pc_state := ''active'', pc_activated_at := Some now\<rparr>]\<rparr>))"
proof -
  let ?r = "r\<lparr>pc_state := ''active'', pc_activated_at := Some now\<rparr>"
  let ?d = "committed c\<lparr>postgres_clusters := xs @ [?r]\<rparr>"
  have ids: "pc_cluster_id x \<noteq> ident" if "x \<in> set xs" for x
    using clusters_unique(1)[OF idle_db_ok[OF assms(1)]] assms(6,7) distinct_map_last[of pc_cluster_id xs r x] that by simp
  have found: "cluster_by_id ident (committed c) = Some r" "cluster_by_id ident ?d = Some ?r"
    using ids assms(6,7) by (auto simp: cluster_by_id_def intro!: fetch_last simp del: filter_append)
  have upd: "update_rows (\<lambda>r. pc_cluster_id r = ident \<and> pc_state r = ''pending'')
      (\<lambda>r. r\<lparr>pc_state := ''active'', pc_activated_at := Some now\<rparr>) (xs @ [r]) = xs @ [?r]"
    using ids assms(7,8) by (intro update_one(1)[of xs "[]"]) auto
  have "db_ok ?d"
    using idle_db_ok[OF assms(1)] assms(6)
    by (auto simp: db_ok_def table_ok_defs unique_on_def cluster_check_def)
  moreover have "cc_project_id claim = project" "cc_compose_project claim = compose"
    "cc_volume_name claim = volume" "cc_state claim = ''pending''"
    using assms(8-12) by (auto simp: row_to_cluster_claim_def split: option.splits if_splits)
  ultimately show ?thesis
    using assms(1-6,12,13) found upd idle_working[OF assms(1)]
    by (simp add: activate_postgres_cluster_def exec_defs required_claim_def publish_def idle_def Let_def)
qed

lemma remove_active:
  assumes "idle c" "cluster_uuid i = Inr ident" "cluster_text p ''project_id'' = Inr project"
    "cluster_text k ''compose_project'' = Inr compose" "cluster_text v ''volume_name'' = Inr volume"
    "postgres_clusters (committed c) = xs @ [r]" "pc_cluster_id r = ident" "pc_state r = ''active''"
    "pc_project_id r = project" "pc_compose_project r = compose" "pc_volume_name r = volume"
  shows "remove_postgres_cluster_claim i p k v c = (Inr True, publish c (committed c\<lparr>postgres_clusters := xs\<rparr>))"
proof -
  let ?P = "\<lambda>r. pc_cluster_id r = ident \<and> pc_project_id r = project \<and> pc_compose_project r = compose
    \<and> pc_volume_name r = volume \<and> pc_state r = ''active''"
  have ids: "pc_cluster_id x \<noteq> ident" if "x \<in> set xs" for x
    using clusters_unique(1)[OF idle_db_ok[OF assms(1)]] assms(6,7) distinct_map_last[of pc_cluster_id xs r x] that by simp
  have "delete_rows ?P (xs @ [r]) = xs @ []" "count_rows ?P (xs @ [r]) = 1"
    using assms(7-11) ids by (intro update_one; auto)+
  moreover have "db_ok (committed c\<lparr>postgres_clusters := xs\<rparr>)"
    using idle_db_ok[OF assms(1)] assms(6)
    by (auto simp: db_ok_def table_ok_defs unique_on_def)
  ultimately show ?thesis
    using assms(1-6) idle_working[OF assms(1)]
    by (simp add: remove_postgres_cluster_claim_def exec_defs publish_def idle_def Let_def)
qed

text \<open>
  A claim through its whole life: the first ensure call creates it pending, activation makes the
  same claim active, reading the project returns it, a second ensure call reuses it instead of
  replacing its identity, and removing it restores the catalogue exactly as it was.
\<close>

theorem cluster_claim_life:
  assumes "idle c" "cluster_text p ''project_id'' = Inr project"
    "cluster_text k ''compose_project'' = Inr compose" "cluster_text v ''volume_name'' = Inr volume"
    "project \<notin> set (map pc_project_id (postgres_clusters (committed c)))"
    "uuid_text u \<notin> set (map pc_cluster_id (postgres_clusters (committed c)))" "u < 2 ^ 128"
    "fromisoformat now1 = Some t1" "fromisoformat now2 = Some t2"
  shows "\<exists>c1 c2 claim. ensure_postgres_cluster_pending now1 u p k v c =
      (Inr (claim\<lparr>cc_state := ''pending'', cc_activated_at := None\<rparr>), c1)
    \<and> activate_postgres_cluster now2 (uuid_text u) p k v c1 = (Inr claim, c2)
    \<and> claim = \<lparr>cc_cluster_id = u, cc_project_id = project, cc_compose_project = compose,
        cc_volume_name = volume, cc_state = ''active'', cc_created_at = t1, cc_activated_at = Some t2\<rparr>
    \<and> get_postgres_cluster p c2 = (Inr (Some claim), c2)
    \<and> ensure_postgres_cluster_pending now3 u' p k v c2 = (Inr claim, c2)
    \<and> remove_postgres_cluster_claim (uuid_text u) p k v c2 = (Inr True, c)"
proof -
  let ?d = "committed c" and ?xs = "postgres_clusters (committed c)"
  let ?r1 = "pending_row now1 (uuid_text u) project compose volume"
  let ?r2 = "?r1\<lparr>pc_state := ''active'', pc_activated_at := Some now2\<rparr>"
  let ?claim = "\<lparr>cc_cluster_id = u, cc_project_id = project, cc_compose_project = compose,
    cc_volume_name = volume, cc_state = ''active'', cc_created_at = t1, cc_activated_at = Some t2\<rparr>"
  let ?c1 = "publish c (?d\<lparr>postgres_clusters := ?xs @ [?r1]\<rparr>)"
  let ?c2 = "publish c (?d\<lparr>postgres_clusters := ?xs @ [?r2]\<rparr>)"
  have cl1: "row_to_cluster_claim ?r1 = Inr (?claim\<lparr>cc_state := ''pending'', cc_activated_at := None\<rparr>)"
    using assms(7,8) by (subst claim_of_row[where t = t1 and a = None]) (auto simp: pending_row_def optional_time_def)
  have cl2: "row_to_cluster_claim ?r2 = Inr ?claim"
    using assms(7-9) by (subst claim_of_row[where t = t1 and a = "Some t2"]) (auto simp: pending_row_def optional_time_def)
  have s1: "ensure_postgres_cluster_pending now1 u p k v c =
      (Inr (?claim\<lparr>cc_state := ''pending'', cc_activated_at := None\<rparr>), ?c1)"
    by (rule ensure_new[OF assms(1-6) cl1])
  have i1: "idle ?c1" using keeps_idle_def idle_ensure assms(1) s1 by (metis snd_conv)
  note u = uuid_cluster[OF assms(7)]
  have "activate_postgres_cluster now2 (uuid_text u) p k v ?c1 =
      (Inr ?claim, publish ?c1 (committed ?c1\<lparr>postgres_clusters := ?xs @ [?r2]\<rparr>))"
    by (rule activate_pending[OF i1 u assms(2-4) _ _ _ _ _ _ cl1 cl2]) (simp_all add: pending_row_def)
  then have s2: "activate_postgres_cluster now2 (uuid_text u) p k v ?c1 = (Inr ?claim, ?c2)" by simp
  have i2: "idle ?c2" using keeps_idle_def idle_activate i1 s2 by (metis snd_conv)
  have "fetchone (filter (\<lambda>r. pc_project_id r = project) (?xs @ [?r2])) = Some ?r2"
    using assms(5) by (intro fetch_last) (force simp: pending_row_def)+
  then have row: "cluster_of_project project (committed ?c2) = Some ?r2" by (simp add: cluster_of_project_def)
  have s3: "get_postgres_cluster p ?c2 = (Inr (Some ?claim), ?c2)"
    using row cl2 assms(2) by (simp add: get_postgres_cluster_def exec_defs decode_claim_def)
  have s4: "ensure_postgres_cluster_pending now3 u' p k v ?c2 = (Inr ?claim, ?c2)"
    by (rule ensure_existing[OF i2 assms(2-4) row cl2]) simp_all
  have "remove_postgres_cluster_claim (uuid_text u) p k v ?c2 =
      (Inr True, publish ?c2 (committed ?c2\<lparr>postgres_clusters := ?xs\<rparr>))"
    by (rule remove_active[where r = ?r2, OF i2 u assms(2-4)]) (simp_all add: pending_row_def)
  then have s5: "remove_postgres_cluster_claim (uuid_text u) p k v ?c2 = (Inr True, c)"
    using publish_same[OF assms(1)] by simp
  show ?thesis
    by (intro exI[of _ ?c1] exI[of _ ?c2] exI[of _ ?claim] conjI s1 s2 s3 s4 s5 refl)
qed

section \<open>Whose claim a checkout may use\<close>

lemma row_claim_project: "row_to_cluster_claim r = Inr claim \<Longrightarrow> cc_project_id claim = pc_project_id r"
  by (auto simp: row_to_cluster_claim_def split: option.splits if_splits)

lemma cluster_text_Inr: "cluster_text p l = Inr x \<Longrightarrow> x = strip_ws p"
  by (auto simp: cluster_text_def split: if_splits)

lemma cluster_of_project_Some: "cluster_of_project p d = Some r \<Longrightarrow> pc_project_id r = p"
  by (auto simp: cluster_of_project_def dest: fetchone_Some)

lemma get_cluster_own:
  assumes "get_postgres_cluster p c = (Inr (Some claim), c')"
  shows "cc_project_id claim = strip_ws p \<and> c' = c"
proof -
  from assms obtain x where x: "cluster_text p ''project_id'' = Inr x"
    "decode_claim (cluster_of_project x (working c)) c = (Inr (Some claim), c')"
    by (auto simp: get_postgres_cluster_def run_Inr)
  then obtain r where "cluster_of_project x (working c) = Some r" "row_to_cluster_claim r = Inr claim" "c' = c"
    by (cases "cluster_of_project x (working c)") (auto simp: decode_claim_def run_Inr)
  with x(1) show ?thesis
    using row_claim_project cluster_of_project_Some cluster_text_Inr by metis
qed

lemma row_claim_state: "row_to_cluster_claim r = Inr claim \<Longrightarrow> cc_state claim = pc_state r"
  by (auto simp: row_to_cluster_claim_def split: option.splits if_splits)

lemma get_cluster_by_id_Inr:
  assumes "get_postgres_cluster_by_id i c = (Inr found, c')"
  shows "c' = c \<and> (\<forall>claim. found = Some claim \<longrightarrow> (\<exists>r\<in>set (postgres_clusters (working c)).
    cluster_uuid i = Inr (pc_cluster_id r) \<and> pc_state r = cc_state claim \<and> pc_project_id r = cc_project_id claim))"
proof -
  from assms obtain x where x: "cluster_uuid i = Inr x"
    "decode_claim (cluster_by_id x (working c)) c = (Inr found, c')"
    by (auto simp: get_postgres_cluster_by_id_def run_Inr)
  show ?thesis
  proof (cases "cluster_by_id x (working c)")
    case None
    with x(2) show ?thesis by (auto simp: decode_claim_def run_Inr)
  next
    case (Some r)
    with x(2) obtain claim where cl: "row_to_cluster_claim r = Inr claim" "found = Some claim" "c' = c"
      by (auto simp: decode_claim_def run_Inr)
    from cluster_by_id_Some[OF Some] row_claim_state[OF cl(1)] row_claim_project[OF cl(1)] x(1) cl(2,3)
    show ?thesis by auto
  qed
qed

lemma get_cluster_none: "get_postgres_cluster p c = (Inr None, c') \<Longrightarrow> c' = c"
  by (auto simp: get_postgres_cluster_def run_Inr decode_claim_def split: option.splits)

lemma legacy_claim_own:
  assumes "legacy_claim fs get_postgres_cluster project_id rt common c = (Inr (Some claim), c')"
  shows "(\<exists>key. project_id = ''project_'' @ key \<and> cc_project_id claim = strip_ws key
    \<and> cc_compose_project claim = ''odcli_pg_'' @ key \<and> cc_volume_name claim = ''pgdata_'' @ key) \<and> c' = c"
proof -
  let ?key = "repo_key (host_fs.truncate fs) rt common"
  have p: "project_id = ''project_'' @ ?key"
    using assms by (auto simp: legacy_claim_def run_Inr Let_def split: if_splits)
  with assms obtain legacy c1 where l: "get_postgres_cluster ?key c = (Inr legacy, c1)"
    "(case legacy of None \<Rightarrow> ret None | Some l \<Rightarrow>
        if cc_compose_project l \<noteq> ''odcli_pg_'' @ ?key \<or> cc_volume_name l \<noteq> ''pgdata_'' @ ?key
        then ret None else (ret (Some l) :: cluster_claim option cat)) c1 = (Inr (Some claim), c')"
    by (simp only: legacy_claim_def abind_Inr_iff Let_def if_True if_False not_True_eq_False refl) blast
  then have "legacy = Some claim" "cc_compose_project claim = ''odcli_pg_'' @ ?key"
    "cc_volume_name claim = ''pgdata_'' @ ?key" "c' = c1"
    by (auto simp: run_Inr split: option.splits if_splits)
  with p l(1) get_cluster_own show ?thesis by blast
qed

text \<open>
  C15: A checkout is given a claim only when its Git identity was captured and proved: while its root
  exists the common Git directory read from it is the captured one. The claim is the project's own,
  or the legacy claim of the same repository key under its derived names, and reading changes
  nothing.
\<close>

theorem resolved_claim_owned:
  assumes "get_postgres_cluster_for_project fs project_id repository_root git_common_dir c = (Inr (Some claim), c')"
  shows "\<exists>captured. git_common_dir = Some captured
    \<and> captured_identity_ok fs repository_root (resolve (host_fs.truncate fs) captured)
    \<and> ((exists_or_raise fs repository_root = Some True) \<longrightarrow>
         parse_git_common_dir fs (resolve (host_fs.truncate fs) repository_root) =
           Some (resolve (host_fs.truncate fs) captured))
    \<and> (cc_project_id claim = strip_ws project_id \<or>
       (\<exists>key. project_id = ''project_'' @ key \<and> cc_project_id claim = strip_ws key
         \<and> cc_compose_project claim = ''odcli_pg_'' @ key \<and> cc_volume_name claim = ''pgdata_'' @ key))
    \<and> c' = c"
proof -
  from assms obtain captured first c1 where g: "git_common_dir = Some captured"
    "captured_identity_ok fs repository_root (resolve (host_fs.truncate fs) captured)"
    "get_postgres_cluster project_id c = (Inr first, c1)"
    "(case first of Some x \<Rightarrow> ret (Some x)
      | None \<Rightarrow> legacy_claim fs get_postgres_cluster project_id
          (resolve (host_fs.truncate fs) repository_root) (resolve (host_fs.truncate fs) captured)) c1 =
      (Inr (Some claim), c')"
    by (auto simp: get_postgres_cluster_for_project_def resolve_postgres_cluster_claim_def translate_Inr
        abind_Inr_iff ret_Inr Let_def split: option.splits if_splits)
  have "(cc_project_id claim = strip_ws project_id \<or>
       (\<exists>key. project_id = ''project_'' @ key \<and> cc_project_id claim = strip_ws key
         \<and> cc_compose_project claim = ''odcli_pg_'' @ key \<and> cc_volume_name claim = ''pgdata_'' @ key)) \<and> c' = c"
  proof (cases first)
    case None
    with g(3,4) get_cluster_none legacy_claim_own show ?thesis by fastforce
  next
    case (Some x)
    with g(3,4) get_cluster_own show ?thesis by (auto simp: ret_Inr)
  qed
  with g(1,2) show ?thesis by (auto simp: captured_identity_ok_def Let_def split: option.splits if_splits)
qed

section \<open>Concrete claims\<close>

lemma sample_idle: "idle (open_catalog sample_db)"
  by (rule idle_open[OF sample_db_ok])

definition sample_time :: py_datetime where
  "sample_time = \<lparr>year = 2024, month = 5, day = 1, hour = 10, minute = 0, sec = 0, microsecond = 0, tz = None\<rparr>"

lemma sample_time_text: "fromisoformat ''2024-05-01 10:00:00'' = Some sample_time"
  by code_simp

theorem cluster_session_lifecycle_witness:
  "\<exists>rows. claim_step\<^sup>*\<^sup>* [] rows
     \<and> committed (cluster_session [EnsurePending ''2024-05-01 10:00:00'' 5 ''p'' ''k'' ''v'',
         RemoveClaim (uuid_text 5) ''p'' ''k'' ''v''] (open_catalog sample_db)) =
       sample_db\<lparr>postgres_clusters := rows\<rparr> \<and> activation_recorded rows"
  using cluster_session_lifecycle[OF sample_idle, of "[EnsurePending ''2024-05-01 10:00:00'' 5 ''p'' ''k'' ''v'',
      RemoveClaim (uuid_text 5) ''p'' ''k'' ''v'']"]
  by (auto simp: open_catalog_def sample_db_def empty_db_def activation_recorded_def)

theorem cluster_claim_life_witness:
  "\<exists>c1 c2 claim. ensure_postgres_cluster_pending ''2024-05-01 10:00:00'' 5 '' p'' ''k'' ''v'' (open_catalog sample_db) =
      (Inr (claim\<lparr>cc_state := ''pending'', cc_activated_at := None\<rparr>), c1)
    \<and> activate_postgres_cluster ''2024-05-01 10:00:00'' (uuid_text 5) '' p'' ''k'' ''v'' c1 = (Inr claim, c2)
    \<and> get_postgres_cluster '' p'' c2 = (Inr (Some claim), c2)
    \<and> remove_postgres_cluster_claim (uuid_text 5) '' p'' ''k'' ''v'' c2 = (Inr True, open_catalog sample_db)"
proof -
  have t: "cluster_text '' p'' ''project_id'' = Inr ''p''" "cluster_text ''k'' ''compose_project'' = Inr ''k''"
    "cluster_text ''v'' ''volume_name'' = Inr ''v''" by code_simp+
  have "postgres_clusters (committed (open_catalog sample_db)) = []"
    by (simp add: open_catalog_def sample_db_def empty_db_def)
  with cluster_claim_life[OF sample_idle t _ _ _ sample_time_text sample_time_text, of 5 "[]" 6]
  show ?thesis by auto
qed

definition sample_repo :: git_fs where
  "sample_repo = \<lparr>resolve = id, sha256_hex = id, is_file = (\<lambda>_. False), path_exists = (\<lambda>_. True),
     is_symlink = (\<lambda>_. False), st_size = (\<lambda>_. None), content_sha256 = id,
     is_dir = (\<lambda>p. p = ''/erp/.git''), read_text = (\<lambda>_. None), exists_or_raise = (\<lambda>_. Some True)\<rparr>"

definition claim_db :: catalog_db where
  "claim_db = empty_db\<lparr>postgres_clusters := [\<lparr>pc_cluster_id = uuid_text 5, pc_project_id = ''p'',
     pc_compose_project = ''k'', pc_volume_name = ''v'', pc_state = ''active'',
     pc_created_at = ''2024-05-01 10:00:00'', pc_activated_at = Some ''2024-05-01 10:00:00''\<rparr>]\<rparr>"

theorem resolved_claim_owned_witness:
  "\<exists>claim. get_postgres_cluster_for_project sample_repo ''p'' ''/erp'' (Some ''/erp/.git'') (open_catalog claim_db) =
      (Inr (Some claim), open_catalog claim_db) \<and> cc_project_id claim = ''p''
    \<and> parse_git_common_dir sample_repo ''/erp'' = Some ''/erp/.git''"
proof -
  have ident: "captured_identity_ok sample_repo ''/erp'' ''/erp/.git''" by code_simp
  have trunc: "host_fs.truncate sample_repo = \<lparr>resolve = id, sha256_hex = id, is_file = (\<lambda>_. False),
      path_exists = (\<lambda>_. True), is_symlink = (\<lambda>_. False), st_size = (\<lambda>_. None), content_sha256 = id\<rparr>"
    by (simp add: sample_repo_def host_fs.defs)
  have t: "cluster_text ''p'' ''project_id'' = Inr ''p''" "strip_ws ''p'' = ''p''" by code_simp+
  let ?claim = "\<lparr>cc_cluster_id = 5, cc_project_id = ''p'', cc_compose_project = ''k'', cc_volume_name = ''v'',
    cc_state = ''active'', cc_created_at = sample_time, cc_activated_at = Some sample_time\<rparr>"
  have row: "row_to_cluster_claim (hd (postgres_clusters claim_db)) = Inr ?claim"
    by (subst claim_of_row[of 5 _ sample_time "Some sample_time"])
       (auto simp: claim_db_def sample_time_text optional_time_def)
  have d: "get_postgres_cluster_for_project sample_repo ''p'' ''/erp'' (Some ''/erp/.git'') (open_catalog claim_db) =
      (Inr (Some ?claim), open_catalog claim_db)"
    using row ident t(1)
    by (simp add: get_postgres_cluster_for_project_def resolve_postgres_cluster_claim_def trunc exec_defs
        get_postgres_cluster_def cluster_of_project_def open_catalog_def claim_db_def fetchone_def decode_claim_def)
  from resolved_claim_owned[OF d] d show ?thesis
    by (auto simp: trunc sample_repo_def[THEN arg_cong[where f = exists_or_raise]] t)
qed

end
