(* ===== verification/Catalog_Restore.thy ===== *)
theory Catalog_Restore
  imports Catalog_Cluster
begin

text \<open>
  Restore provenance and database life-cycle events (\<^verbatim>\<open>storage/catalog/restore.py\<close>,
  \<^verbatim>\<open>storage/catalog/provenance.py\<close>): what was restored where, which backup the current database came
  from, which databases a project owns, and the drop bookkeeping.

  A normalised UTC \<^verbatim>\<open>datetime\<close> is its instant in microseconds. The live check \<^verbatim>\<open>reconcile_databases_dropped\<close>
  runs is an argument, a call that either raises or returns.
\<close>

section \<open>Provenance\<close>

definition normalize_db_host :: "string option \<Rightarrow> string" where
  "normalize_db_host value = (case value of None \<Rightarrow> ''socket'' | Some h \<Rightarrow> h)"

definition restore_provenance :: "string option \<Rightarrow> string option \<Rightarrow> string option
    \<Rightarrow> (catalog_error, string \<times> string option \<times> string option) result" where
  "restore_provenance backup_id source_kind source_sha256 =
     (let kind = (case source_kind of Some k \<Rightarrow> if k \<noteq> [] then Some k
                    else if backup_id \<noteq> None then Some ''catalogue'' else None
                  | None \<Rightarrow> if backup_id \<noteq> None then Some ''catalogue'' else None) in
      if kind = Some ''catalogue'' then
        (case backup_id of
           Some b \<Rightarrow> if blank b \<or> source_sha256 \<noteq> None
             then Inl (BackupCatalogError ''catalogue restore provenance requires only backup_id'')
             else Inr (''catalogue'', Some b, None)
         | None \<Rightarrow> Inl (BackupCatalogError ''catalogue restore provenance requires only backup_id''))
      else if kind = Some ''local_archive'' then
        (case (backup_id, source_sha256) of
           (None, Some digest) \<Rightarrow>
             if length digest \<noteq> 64 \<or> list_ex (\<lambda>c. c \<notin> set ''0123456789abcdef'') digest
             then Inl (BackupCatalogError ''local_archive source_sha256 must be lowercase 64-hex'')
             else Inr (''local_archive'', None, Some digest)
         | _ \<Rightarrow> Inl (BackupCatalogError
             ''local_archive restore provenance requires source_sha256 and no backup_id''))
      else Inl (BackupCatalogError ''restore provenance requires a supported source_kind''))"

section \<open>Rows of one database\<close>

definition restore_of :: "string \<Rightarrow> int \<Rightarrow> string \<Rightarrow> restore_row \<Rightarrow> bool" where
  "restore_of host port name r \<longleftrightarrow> r_db_host r = host \<and> r_db_port r = port \<and> r_database_name r = name"

definition event_of :: "string \<Rightarrow> int \<Rightarrow> string \<Rightarrow> database_event_row \<Rightarrow> bool" where
  "event_of host port name e \<longleftrightarrow> de_db_host e = host \<and> de_db_port e = port \<and> de_database_name e = name"

definition binding_of :: "string \<Rightarrow> int \<Rightarrow> string \<Rightarrow> binding_row \<Rightarrow> bool" where
  "binding_of host port name b \<longleftrightarrow> pb_db_host b = host \<and> pb_db_port b = port \<and> pb_database_name b = name"

text \<open>\<^verbatim>\<open>ORDER BY restored_at DESC, sequence DESC\<close> and \<^verbatim>\<open>ORDER BY sequence DESC\<close>.\<close>

definition restore_recent :: "restore_row \<Rightarrow> restore_row \<Rightarrow> bool" where
  "restore_recent x y \<longleftrightarrow> r_restored_at y < r_restored_at x
     \<or> (r_restored_at x = r_restored_at y \<and> r_sequence y \<le> r_sequence x)"

definition event_recent :: "database_event_row \<Rightarrow> database_event_row \<Rightarrow> bool" where
  "event_recent x y \<longleftrightarrow> de_sequence y \<le> de_sequence x"

definition newest_restore :: "string \<Rightarrow> int \<Rightarrow> string \<Rightarrow> catalog_db \<Rightarrow> restore_row option" where
  "newest_restore host port name d =
     fetchone (order_by restore_recent (filter (restore_of host port name) (restores d)))"

definition newest_event :: "string \<Rightarrow> int \<Rightarrow> string \<Rightarrow> catalog_db \<Rightarrow> database_event_row option" where
  "newest_event host port name d =
     fetchone (order_by event_recent (filter (event_of host port name) (database_events d)))"

definition insert_restore :: "string \<Rightarrow> int \<Rightarrow> string \<Rightarrow> string option \<Rightarrow> string \<Rightarrow> string option \<Rightarrow> string
    \<Rightarrow> string option \<Rightarrow> string option \<Rightarrow> int option \<Rightarrow> string \<Rightarrow> nat cat" where
  "insert_restore host port name backup_id kind digest now identity data_dir oid state =
     dml (\<lambda>d. (d\<lparr>restores := restores d @ [\<lparr>r_sequence = next_sequence r_sequence (restores d),
       r_db_host = host, r_db_port = port, r_database_name = name, r_backup_id = backup_id,
       r_source_kind = kind, r_source_sha256 = digest, r_restored_at = now, r_cluster_id = identity,
       r_data_directory = data_dir, r_state = state, r_database_oid = oid\<rparr>]\<rparr>, 1))"

definition new_event :: "string \<Rightarrow> int \<Rightarrow> string \<Rightarrow> string \<Rightarrow> string \<Rightarrow> string option \<Rightarrow> string option
    \<Rightarrow> string option \<Rightarrow> string option \<Rightarrow> string option \<Rightarrow> catalog_db \<Rightarrow> database_event_row" where
  "new_event host port name event_type now backup_id kind digest identity data_dir d =
     \<lparr>de_sequence = next_sequence de_sequence (database_events d), de_db_host = host,
      de_db_port = port, de_database_name = name, de_event_type = event_type, de_occurred_at = now,
      de_backup_id = backup_id, de_source_kind = kind, de_source_sha256 = digest,
      de_cluster_id = identity, de_data_directory = data_dir\<rparr>"

definition insert_event :: "string \<Rightarrow> int \<Rightarrow> string \<Rightarrow> string \<Rightarrow> string \<Rightarrow> string option \<Rightarrow> string option
    \<Rightarrow> string option \<Rightarrow> string option \<Rightarrow> string option \<Rightarrow> nat cat" where
  "insert_event host port name event_type now backup_id kind digest identity data_dir =
     dml (\<lambda>d. (d\<lparr>database_events := database_events d @
       [new_event host port name event_type now backup_id kind digest identity data_dir d]\<rparr>, 1))"

section \<open>Recording a restore\<close>

definition require_active_claim :: "string option \<Rightarrow> string \<Rightarrow> unit cat" where
  "require_active_claim identity message = (case identity of None \<Rightarrow> ret ()
     | Some i \<Rightarrow> abind (get_postgres_cluster_by_id i) (\<lambda>claim.
         case claim of None \<Rightarrow> throw (BackupCatalogError message)
         | Some cl \<Rightarrow> if cc_state cl \<noteq> ''active'' then throw (BackupCatalogError message) else ret ()))"

definition optional_uuid :: "string option \<Rightarrow> (catalog_error, string option) result" where
  "optional_uuid cluster_id = (case cluster_id of None \<Rightarrow> Inr None
     | Some i \<Rightarrow> rbind (cluster_uuid i) (\<lambda>u. Inr (Some u)))"

definition record_restore :: "string \<Rightarrow> string option \<Rightarrow> int \<Rightarrow> string \<Rightarrow> string option \<Rightarrow> string option
    \<Rightarrow> string option \<Rightarrow> string option \<Rightarrow> string option \<Rightarrow> int option \<Rightarrow> string \<Rightarrow> unit cat" where
  "record_restore now db_host db_port database_name backup_id source_kind source_sha256 cluster_id
     data_directory database_oid state = translate_sqlite_error
     (let host = normalize_db_host db_host in
      abind (lift_result (restore_provenance backup_id source_kind source_sha256))
        (\<lambda>(kind, evidence_backup_id, digest).
      aseq (guard (state \<in> {''complete'', ''incomplete''})
        (BackupCatalogError (''restore state must be 'complete' or 'incomplete'' @ [SQ])))
      (abind (lift_result (optional_uuid cluster_id)) (\<lambda>identity.
      aseq (guard (case data_directory of None \<Rightarrow> True | Some dir \<Rightarrow> \<not> blank dir)
        (BackupCatalogError ''data_directory must not be empty''))
      (aseq (guard (case database_oid of None \<Rightarrow> True | Some oid \<Rightarrow> 0 < oid)
        (BackupCatalogError ''restore PostgreSQL identity is invalid''))
      (aseq (require_active_claim identity ''restore provenance requires an active cluster claim'')
      (with_conn
        (aseq (insert_restore host db_port database_name evidence_backup_id kind digest now identity
           data_directory database_oid state)
        (aseq (insert_event host db_port database_name ''restored'' now evidence_backup_id (Some kind)
           digest identity data_directory) (ret ()))))))))))"

section \<open>Environment replacement\<close>

definition find_environment :: "string \<Rightarrow> catalog_db \<Rightarrow> environment_row option" where
  "find_environment environment_id d = fetchone (filter (\<lambda>e. e_id e = environment_id) (environments d))"

definition update_environments :: "(environment_row \<Rightarrow> bool) \<Rightarrow> (environment_row \<Rightarrow> environment_row) \<Rightarrow> nat cat" where
  "update_environments P f = dml (\<lambda>d. (d\<lparr>environments := update_rows P f (environments d)\<rparr>,
     count_rows P (environments d)))"

definition insert_environment_event :: "string \<Rightarrow> string \<Rightarrow> string \<Rightarrow> string \<Rightarrow> string option \<Rightarrow> nat cat" where
  "insert_environment_event environment_id operation outcome now message =
     dml (\<lambda>d. (d\<lparr>environment_events := environment_events d @
       [\<lparr>ee_sequence = next_sequence ee_sequence (environment_events d),
         ee_environment_id = environment_id, ee_operation = operation, ee_outcome = outcome,
         ee_occurred_at = now, ee_message = message\<rparr>]\<rparr>, 1))"

definition publish_replacement :: "string \<Rightarrow> string \<Rightarrow> string \<Rightarrow> string \<Rightarrow> int \<Rightarrow> string \<Rightarrow> string \<Rightarrow> string
    \<Rightarrow> string \<Rightarrow> string \<Rightarrow> unit cat" where
  "publish_replacement now environment_id backup_id host db_port target_database identity data_dir
     outcome message =
     (aseq (update_environments (\<lambda>e. e_id e = environment_id) (\<lambda>e. e\<lparr>e_backup_id := Some backup_id,
          e_state := ''ready'', e_last_error := None, e_recovery_json := None\<rparr>))
      (aseq (insert_restore host db_port target_database (Some backup_id) ''catalogue'' None now
          (Some identity) (Some data_dir) None ''complete'')
      (aseq (insert_event host db_port target_database ''restored'' now (Some backup_id)
          (Some ''catalogue'') None (Some identity) (Some data_dir))
      (aseq (insert_environment_event environment_id ''sync'' outcome now (Some message)) (ret ())))))"

text \<open>The body of the transaction in \<^verbatim>\<open>_finalize_environment_replacement\<close>.\<close>

definition checked_replacement :: "string \<Rightarrow> string \<Rightarrow> string \<Rightarrow> string \<Rightarrow> int \<Rightarrow> string \<Rightarrow> string \<Rightarrow> string
    \<Rightarrow> unit cat" where
  "checked_replacement now environment_id backup_id host db_port target_database identity data_dir =
     abind (query_db (find_environment environment_id)) (\<lambda>environment.
     aseq (guard (case environment of None \<Rightarrow> False
         | Some e \<Rightarrow> e_state e \<in> {''ready'', ''cleanup_failed''} \<and> e_db_mode e = ''copy''
             \<and> e_target_db_name e = Some target_database)
       (BackupCatalogError ''environment replacement identity changed''))
     (abind (query_db (find_backup backup_id)) (\<lambda>backup.
     aseq (guard (case backup of None \<Rightarrow> False | Some b \<Rightarrow> b_state b = ''available'')
       (BackupCatalogError ''replacement backup is no longer available''))
     (abind (query_db (cluster_by_id identity)) (\<lambda>claim.
     aseq (guard (case claim of None \<Rightarrow> False | Some r \<Rightarrow> pc_state r = ''active'')
       (BackupCatalogError ''replacement cluster claim is not active''))
     (publish_replacement now environment_id backup_id host db_port target_database identity
       data_dir ''succeeded'' ''replacement''))))))"

definition finalize_environment_replacement :: "string \<Rightarrow> string \<Rightarrow> string \<Rightarrow> string option \<Rightarrow> int
    \<Rightarrow> string \<Rightarrow> string \<Rightarrow> string \<Rightarrow> unit cat" where
  "finalize_environment_replacement now environment_id backup_id db_host db_port target_database
     cluster_id data_directory = translate_sqlite_error
     (let host = normalize_db_host db_host in
      abind (lift_result (cluster_uuid cluster_id)) (\<lambda>identity.
      aseq (guard (\<not> blank data_directory)
        (BackupCatalogError ''replacement data_directory must not be empty''))
      (with_conn (checked_replacement now environment_id backup_id host db_port target_database
         identity data_directory))))"

definition rollback_environment_replacement :: "string \<Rightarrow> string \<Rightarrow> string \<Rightarrow> string option \<Rightarrow> int
    \<Rightarrow> string \<Rightarrow> string \<Rightarrow> string \<Rightarrow> unit cat" where
  "rollback_environment_replacement now environment_id backup_id db_host db_port target_database
     cluster_id data_directory = translate_sqlite_error
     (let host = normalize_db_host db_host in
      abind (lift_result (cluster_uuid cluster_id)) (\<lambda>identity.
      with_conn
        (abind (query_db (find_environment environment_id)) (\<lambda>row.
         aseq (guard (case row of None \<Rightarrow> False
             | Some e \<Rightarrow> e_db_mode e = ''copy'' \<and> e_target_db_name e = Some target_database)
           (BackupCatalogError ''environment replacement rollback identity changed''))
         (publish_replacement now environment_id backup_id host db_port target_database identity
           data_directory ''failed'' ''replacement compensated'')))))"

section \<open>Dropped databases\<close>

definition delete_restores :: "(restore_row \<Rightarrow> bool) \<Rightarrow> nat cat" where
  "delete_restores P = dml (\<lambda>d. (d\<lparr>restores := delete_rows P (restores d)\<rparr>, count_rows P (restores d)))"

definition delete_bindings :: "(binding_row \<Rightarrow> bool) \<Rightarrow> nat cat" where
  "delete_bindings P = dml (\<lambda>d. (d\<lparr>bindings := delete_rows P (bindings d)\<rparr>, count_rows P (bindings d)))"

definition not_dropped :: "database_event_row option \<Rightarrow> bool" where
  "not_dropped row = (case row of None \<Rightarrow> True | Some e \<Rightarrow> de_event_type e \<noteq> ''dropped'')"

definition clear_dropped :: "string \<Rightarrow> int \<Rightarrow> string \<Rightarrow> unit cat" where
  "clear_dropped host db_port database_name =
     aseq (delete_restores (\<lambda>r. restore_of host db_port database_name r \<and> r_state r = ''incomplete''))
     (aseq (delete_bindings (binding_of host db_port database_name)) (ret ()))"

definition record_database_dropped :: "string \<Rightarrow> string option \<Rightarrow> int \<Rightarrow> string \<Rightarrow> unit cat" where
  "record_database_dropped now db_host db_port database_name = translate_sqlite_error
     (let host = normalize_db_host db_host in
      abind (query_db (newest_event host db_port database_name)) (\<lambda>row.
      with_conn
        (aseq (if not_dropped row
           then aseq (insert_event host db_port database_name ''dropped'' now None None None None None) (ret ())
           else ret ())
         (clear_dropped host db_port database_name))))"

fun record_databases_dropped_in_transaction ::
  "string \<Rightarrow> string option \<Rightarrow> int \<Rightarrow> string list \<Rightarrow> string list cat" where
  "record_databases_dropped_in_transaction now db_host db_port [] = ret []"
| "record_databases_dropped_in_transaction now db_host db_port (database_name # names) =
     (let host = normalize_db_host db_host in
      abind (query_db (newest_event host db_port database_name)) (\<lambda>row.
      abind (if not_dropped row
          then aseq (insert_event host db_port database_name ''dropped'' now None None None None None)
            (ret [database_name])
          else ret []) (\<lambda>changed.
      aseq (clear_dropped host db_port database_name)
      (abind (record_databases_dropped_in_transaction now db_host db_port names) (\<lambda>rest.
        ret (changed @ rest))))))"

definition record_databases_dropped :: "string \<Rightarrow> string option \<Rightarrow> int \<Rightarrow> string list \<Rightarrow> string list cat" where
  "record_databases_dropped now db_host db_port database_names = translate_sqlite_error
     (with_conn (record_databases_dropped_in_transaction now db_host db_port database_names))"

text \<open>\<^verbatim>\<open>try: ... except Exception: self._conn.rollback(); raise\<close>.\<close>

definition rollback_on_error :: "'a cat \<Rightarrow> 'a cat" where
  "rollback_on_error m c = (case m c of (Inr x, c') \<Rightarrow> (Inr x, c')
     | (Inl e, c') \<Rightarrow> (Inl e, snd (rollback c')))"

definition reconcile_databases_dropped ::
  "string \<Rightarrow> string option \<Rightarrow> int \<Rightarrow> string list \<Rightarrow> (catalog_error, unit) result \<Rightarrow> string list cat" where
  "reconcile_databases_dropped now db_host db_port database_names validate = translate_sqlite_error
     (rollback_on_error
       (aseq begin_tx (aseq (lift_result validate)
        (abind (record_databases_dropped_in_transaction now db_host db_port database_names) (\<lambda>changed.
          aseq commit (ret changed))))))"

definition record_database_bootstrapped :: "string \<Rightarrow> string option \<Rightarrow> int \<Rightarrow> string \<Rightarrow> string \<Rightarrow> string
    \<Rightarrow> unit cat" where
  "record_database_bootstrapped now db_host db_port database_name cluster_id data_directory =
     translate_sqlite_error
     (let host = normalize_db_host db_host in
      aseq (guard (database_name = ''tmp'')
        (BackupCatalogError ''bootstrap provenance requires database tmp''))
      (aseq (guard (\<not> blank data_directory)
        (BackupCatalogError ''bootstrap provenance requires a data directory''))
      (abind (lift_result (cluster_uuid cluster_id)) (\<lambda>identity.
       aseq (require_active_claim (Some identity) ''bootstrap provenance requires an active cluster claim'')
       (with_conn (aseq (insert_event host db_port database_name ''bootstrapped'' now None None None
          (Some identity) (Some (strip_ws data_directory))) (ret ())))))))"

section \<open>Lookups\<close>

definition latest_database_event :: "string option \<Rightarrow> int \<Rightarrow> string \<Rightarrow> database_event_row option cat" where
  "latest_database_event db_host db_port database_name = translate_sqlite_error
     (query_db (newest_event (normalize_db_host db_host) db_port database_name))"

definition joined_backup :: "restore_row \<Rightarrow> catalog_db \<Rightarrow> backup_row option" where
  "joined_backup r d = (case r_backup_id r of None \<Rightarrow> None | Some b \<Rightarrow> find_backup b d)"

definition latest_restore :: "host_fs \<Rightarrow> string option \<Rightarrow> int \<Rightarrow> string \<Rightarrow> py_backup option cat" where
  "latest_restore fs db_host db_port database_name = translate_sqlite_error
     (abind (query_db (\<lambda>d. map_option (\<lambda>r. (r, joined_backup r d))
         (newest_restore (normalize_db_host db_host) db_port database_name d))) (\<lambda>row.
      case row of None \<Rightarrow> ret None
      | Some (r, joined) \<Rightarrow>
        if r_backup_id r = None \<or> r_state r \<noteq> ''complete'' then ret None
        else (case joined of None \<Rightarrow> ret None
          | Some b \<Rightarrow> if b_state b = ''deleted'' then ret None
              else if or_empty (b_path b) = [] then ret None
              else lift_result (row_to_backup fs True b))))"

definition latest_restore_provenance :: "host_fs \<Rightarrow> string option \<Rightarrow> int \<Rightarrow> string \<Rightarrow> py_backup option cat" where
  "latest_restore_provenance fs db_host db_port database_name = translate_sqlite_error
     (abind (query_db (\<lambda>d. map_option (\<lambda>r. (r, joined_backup r d))
         (newest_restore (normalize_db_host db_host) db_port database_name d))) (\<lambda>row.
      case row of None \<Rightarrow> ret None
      | Some (r, joined) \<Rightarrow>
        if r_backup_id r = None \<or> r_state r \<noteq> ''complete'' then ret None
        else (case joined of
            None \<Rightarrow> throw (PyTypeError ''one of the hex, bytes, bytes_le, fields, or int arguments must be given'')
          | Some b \<Rightarrow> lift_result (row_to_backup fs False b))))"

record current_provenance =
  cp_backup_id :: "nat option"
  cp_downloaded_at :: "int option"

definition unknown_provenance :: current_provenance where
  "unknown_provenance = \<lparr>cp_backup_id = None, cp_downloaded_at = None\<rparr>"

definition known :: "current_provenance \<Rightarrow> bool" where
  "known p \<longleftrightarrow> cp_backup_id p \<noteq> None \<and> cp_downloaded_at p \<noteq> None"

definition provenance_of_backup :: "backup_row option \<Rightarrow> current_provenance cat" where
  "provenance_of_backup backup = (case backup of None \<Rightarrow> ret unknown_provenance
     | Some b \<Rightarrow>
       if b_state b \<noteq> ''available'' then ret unknown_provenance
       else (case b_downloaded_at b of None \<Rightarrow> ret unknown_provenance
         | Some raw \<Rightarrow>
           if blank raw then ret unknown_provenance
           else (case (fromisoformat raw, uuid_of_text (b_id b)) of
               (Some t, Some u) \<Rightarrow> ret \<lparr>cp_backup_id = Some u, cp_downloaded_at = Some (utc_us t)\<rparr>
             | _ \<Rightarrow> throw (BackupCatalogError ''current backup provenance is malformed''))))"

definition event_proves :: "string \<Rightarrow> database_event_row \<Rightarrow> bool" where
  "event_proves identity e \<longleftrightarrow> de_event_type e = ''restored'' \<and> de_source_kind e = Some ''catalogue''
     \<and> de_cluster_id e = Some identity \<and> de_backup_id e \<noteq> None"

definition restore_agrees :: "string \<Rightarrow> database_event_row \<Rightarrow> restore_row \<Rightarrow> bool" where
  "restore_agrees identity e r \<longleftrightarrow> r_backup_id r = de_backup_id e \<and> r_source_kind r = ''catalogue''
     \<and> r_cluster_id r = Some identity \<and> r_state r = ''complete''"

definition current_database_backup_provenance ::
  "string option \<Rightarrow> int \<Rightarrow> string \<Rightarrow> string option \<Rightarrow> current_provenance cat" where
  "current_database_backup_provenance db_host db_port database_name cluster_id = translate_sqlite_error
     (case cluster_id of None \<Rightarrow> ret unknown_provenance
      | Some cid \<Rightarrow>
        abind (lift_result (cluster_uuid cid)) (\<lambda>identity.
        abind (latest_database_event db_host db_port database_name) (\<lambda>event.
        case event of None \<Rightarrow> ret unknown_provenance
        | Some e \<Rightarrow>
          if \<not> event_proves identity e then ret unknown_provenance
          else abind (query_db (newest_restore (normalize_db_host db_host) db_port database_name)) (\<lambda>restore.
            case restore of None \<Rightarrow> ret unknown_provenance
            | Some r \<Rightarrow>
              if \<not> restore_agrees identity e r then ret unknown_provenance
              else abind (query_db (case de_backup_id e of None \<Rightarrow> (\<lambda>_. None) | Some b \<Rightarrow> find_backup b))
                provenance_of_backup))))"

section \<open>Databases of a project\<close>

definition list_restore_bindings :: "string option \<Rightarrow> int \<Rightarrow> restore_row list cat" where
  "list_restore_bindings db_host db_port = translate_sqlite_error
     (query_db (\<lambda>d. order_by (\<lambda>x y. r_database_name x < r_database_name y
         \<or> (r_database_name x = r_database_name y \<and> restore_recent x y))
       (filter (\<lambda>r. r_db_host r = normalize_db_host db_host \<and> r_db_port r = db_port) (restores d))))"

definition latest_restore_binding :: "string option \<Rightarrow> int \<Rightarrow> string \<Rightarrow> restore_row option cat" where
  "latest_restore_binding db_host db_port database_name = translate_sqlite_error
     (query_db (newest_restore (normalize_db_host db_host) db_port database_name))"

definition restored_for_project :: "string \<Rightarrow> string \<Rightarrow> string \<Rightarrow> int \<Rightarrow> catalog_db \<Rightarrow> restore_row list" where
  "restored_for_project project_id identity host db_port d = filter (\<lambda>r.
     (case joined_backup r d of None \<Rightarrow> False
      | Some b \<Rightarrow> b_project_id b = Some project_id \<and> b_state b \<noteq> ''deleted'')
     \<and> r_state r = ''complete'' \<and> r_cluster_id r = Some identity \<and> r_db_host r = host
     \<and> r_db_port r = db_port \<and> r_database_oid r \<noteq> None) (restores d)"

definition project_restored_database_names ::
  "string \<Rightarrow> string \<Rightarrow> string option \<Rightarrow> int \<Rightarrow> string list cat" where
  "project_restored_database_names project_id cluster_id db_host db_port = translate_sqlite_error
     (abind (lift_result (cluster_uuid cluster_id)) (\<lambda>identity.
      query_db (\<lambda>d. order_by (\<le>) (remdups (map r_database_name
        (restored_for_project project_id identity (normalize_db_host db_host) db_port d))))))"

definition latest_sequence :: "restore_row \<Rightarrow> catalog_db \<Rightarrow> bool" where
  "latest_sequence r d \<longleftrightarrow> list_all (\<lambda>x.
     restore_of (r_db_host r) (r_db_port r) (r_database_name r) x \<longrightarrow> r_sequence x \<le> r_sequence r) (restores d)"

definition project_restored_database_records ::
  "string \<Rightarrow> string \<Rightarrow> string option \<Rightarrow> int \<Rightarrow> (string \<times> int) list cat" where
  "project_restored_database_records project_id cluster_id db_host db_port = translate_sqlite_error
     (abind (lift_result (cluster_uuid cluster_id)) (\<lambda>identity.
      query_db (\<lambda>d. List.map_filter (\<lambda>r. case r_database_oid r of None \<Rightarrow> None
           | Some oid \<Rightarrow> if 0 < oid then Some (r_database_name r, oid) else None)
        (order_by (\<lambda>x y. r_database_name x \<le> r_database_name y)
          (filter (\<lambda>r. latest_sequence r d)
            (restored_for_project project_id identity (normalize_db_host db_host) db_port d))))))"

definition project_bootstrapped_database_names :: "string \<Rightarrow> string option \<Rightarrow> int \<Rightarrow> string list cat" where
  "project_bootstrapped_database_names cluster_id db_host db_port = translate_sqlite_error
     (abind (lift_result (cluster_uuid cluster_id)) (\<lambda>identity.
      query_db (\<lambda>d. order_by (\<le>) (remdups (map de_database_name (filter (\<lambda>e.
        de_cluster_id e = Some identity \<and> de_db_host e = normalize_db_host db_host
        \<and> de_db_port e = db_port \<and> de_event_type e = ''bootstrapped'') (database_events d)))))))"

definition insert_or_ignore_binding :: "binding_row \<Rightarrow> nat cat" where
  "insert_or_ignore_binding row = dml (\<lambda>d.
     if binding_key row \<in> set (map binding_key (bindings d)) then (d, 0)
     else (d\<lparr>bindings := bindings d @ [row]\<rparr>, 1))"

definition record_project_database_binding :: "string \<Rightarrow> string \<Rightarrow> string \<Rightarrow> string option \<Rightarrow> int \<Rightarrow> string
    \<Rightarrow> int option \<Rightarrow> unit cat" where
  "record_project_database_binding now project_id cluster_id db_host db_port database_name database_oid =
     translate_sqlite_error
     (let project = strip_ws project_id; name = strip_ws database_name in
      aseq (guard (project \<noteq> [] \<and> name \<noteq> [] \<and> name \<notin> {''postgres'', ''template0'', ''template1''})
        (BackupCatalogError ''project database binding identity is invalid''))
      (aseq (guard (case database_oid of None \<Rightarrow> True | Some oid \<Rightarrow> 0 < oid)
        (BackupCatalogError ''project database binding PostgreSQL identity is invalid''))
      (abind (lift_result (cluster_uuid cluster_id)) (\<lambda>identity.
       abind (get_postgres_cluster_by_id identity) (\<lambda>claim.
       aseq (guard (case claim of None \<Rightarrow> False
           | Some cl \<Rightarrow> cc_state cl = ''active'' \<and> cc_project_id cl = project)
         (BackupCatalogError ''project database binding requires its active claim''))
       (with_conn (aseq (insert_or_ignore_binding \<lparr>pb_project_id = project, pb_cluster_id = identity,
          pb_db_host = normalize_db_host db_host, pb_db_port = db_port, pb_database_name = name,
          pb_database_oid = database_oid, pb_bound_at = now\<rparr>) (ret ()))))))))"

definition bound_rows :: "string \<Rightarrow> string \<Rightarrow> string option \<Rightarrow> int \<Rightarrow> catalog_db \<Rightarrow> binding_row list" where
  "bound_rows project_id identity db_host db_port d =
     order_by (\<lambda>x y. pb_database_name x \<le> pb_database_name y) (filter (\<lambda>b. pb_project_id b = project_id
       \<and> pb_cluster_id b = identity \<and> pb_db_host b = normalize_db_host db_host \<and> pb_db_port b = db_port)
       (bindings d))"

definition project_bound_database_records ::
  "string \<Rightarrow> string \<Rightarrow> string option \<Rightarrow> int \<Rightarrow> (string \<times> int option) list cat" where
  "project_bound_database_records project_id cluster_id db_host db_port = translate_sqlite_error
     (abind (lift_result (cluster_uuid cluster_id)) (\<lambda>identity.
      query_db (\<lambda>d. map (\<lambda>b. (pb_database_name b, pb_database_oid b))
        (bound_rows project_id identity db_host db_port d))))"

definition project_bound_database_names ::
  "string \<Rightarrow> string \<Rightarrow> string option \<Rightarrow> int \<Rightarrow> string list cat" where
  "project_bound_database_names project_id cluster_id db_host db_port = translate_sqlite_error
     (abind (lift_result (cluster_uuid cluster_id)) (\<lambda>identity.
      query_db (\<lambda>d. map pb_database_name (bound_rows project_id identity db_host db_port d))))"

text \<open>SQL leaves the order of this answer open.\<close>

definition distinct_restored_database_names :: "string option \<Rightarrow> int \<Rightarrow> string list cat" where
  "distinct_restored_database_names db_host db_port = translate_sqlite_error
     (query_db (\<lambda>d. remdups (map r_database_name (filter (\<lambda>r.
        r_db_host r = normalize_db_host db_host \<and> r_db_port r = db_port) (restores d)))))"

definition has_tracked_database :: "string option \<Rightarrow> int \<Rightarrow> string \<Rightarrow> bool cat" where
  "has_tracked_database db_host db_port database_name = translate_sqlite_error
     (query_db (\<lambda>d. list_ex (restore_of (normalize_db_host db_host) db_port database_name) (restores d)))"

section \<open>The contract of the operations\<close>

lemma obeys_statements:
  "obeys uncommitted (insert_restore a b n i k g t cl dd oi st)"
  "obeys uncommitted (insert_event a b n et t i2 k2 g cl dd)"
  "obeys uncommitted (update_environments P f)"
  "obeys uncommitted (insert_environment_event eid op oc t m)"
  "obeys uncommitted (delete_restores Q)"
  "obeys uncommitted (delete_bindings R)"
  "obeys uncommitted (insert_or_ignore_binding row)"
  by (simp_all add: insert_restore_def insert_event_def update_environments_def insert_environment_event_def
      delete_restores_def delete_bindings_def insert_or_ignore_binding_def obeys_dml)

lemma obeys_clear_dropped: "obeys uncommitted (clear_dropped h p n)"
  unfolding clear_dropped_def by (intro op_rules obeys_statements)

lemma obeys_publish_replacement: "obeys uncommitted (publish_replacement now e b h p t i dd oc m)"
  unfolding publish_replacement_def by (intro op_rules obeys_statements)

lemma obeys_checked_replacement: "obeys uncommitted (checked_replacement now e b h p t i dd)"
  unfolding checked_replacement_def by (intro op_rules obeys_publish_replacement)

lemma obeys_require_claim: "obeys uncommitted (require_active_claim i m)"
  unfolding require_active_claim_def by (intro op_rules cluster_rules)

lemma obeys_batch: "obeys uncommitted (record_databases_dropped_in_transaction now h p ns)"
  by (induction ns) (auto simp: Let_def intro!: op_rules obeys_statements obeys_clear_dropped)

lemmas restore_rules = obeys_statements obeys_clear_dropped obeys_publish_replacement obeys_checked_replacement
  obeys_require_claim obeys_batch

lemma op_ok_prod: "(\<And>a b. x = (a, b) \<Longrightarrow> op_ok (f a b)) \<Longrightarrow> op_ok (case x of (a, b) \<Rightarrow> f a b)"
  by (cases x) auto

lemma op_ok_rollback_on_error:
  assumes "op_ok m"
  shows "op_ok (rollback_on_error m)"
proof (rule op_okI)
  fix c r c'
  assume c: "conn_ok c" "rollback_on_error m c = (r, c')"
  obtain r1 c1 where m: "m c = (r1, c1)" by force
  from op_okD[OF assms c(1) m] c(2) m
  show "conn_ok c' \<and> read_only c' = read_only c \<and> (\<forall>e. r = Inl e \<longrightarrow> committed c' = committed c)"
    by (cases r1) (auto simp: rollback_on_error_def rollback_def conn_ok_def)
qed

lemma op_ok_record_restore: "op_ok (record_restore now h p n b k s cl dd oi st)"
  unfolding record_restore_def Let_def by (intro op_rules op_ok_prod restore_rules)

lemma op_ok_finalize_replacement: "op_ok (finalize_environment_replacement now e b h p t cl dd)"
  unfolding finalize_environment_replacement_def Let_def by (intro op_rules restore_rules)

lemma op_ok_rollback_replacement: "op_ok (rollback_environment_replacement now e b h p t cl dd)"
  unfolding rollback_environment_replacement_def Let_def by (intro op_rules restore_rules)

lemma op_ok_dropped: "op_ok (record_database_dropped now h p n)"
  unfolding record_database_dropped_def Let_def by (intro op_rules restore_rules)

lemma op_ok_dropped_batch: "op_ok (record_databases_dropped now h p ns)"
  unfolding record_databases_dropped_def by (intro op_rules restore_rules)

lemma op_ok_reconcile: "op_ok (reconcile_databases_dropped now h p ns v)"
  unfolding reconcile_databases_dropped_def aseq_def[of commit]
  by (intro op_rules op_ok_rollback_on_error op_ok_then_ret restore_rules)

lemma op_ok_bootstrapped: "op_ok (record_database_bootstrapped now h p n cl dd)"
  unfolding record_database_bootstrapped_def Let_def by (intro op_rules restore_rules)

lemma op_ok_binding: "op_ok (record_project_database_binding now pr cl h p n oi)"
  unfolding record_project_database_binding_def Let_def by (intro op_rules restore_rules cluster_rules)

section \<open>Recency\<close>

interpretation restore_recency: row_order restore_recent
proof
  fix a b c :: restore_row
  show "restore_recent a b \<or> restore_recent b a" by (auto simp: restore_recent_def)
  show "restore_recent a b \<Longrightarrow> restore_recent b c \<Longrightarrow> restore_recent a c"
    unfolding restore_recent_def by (elim disjE conjE) (auto dest: less_trans order_trans)
qed

interpretation event_recency: row_order event_recent
  by unfold_locales (auto simp: event_recent_def)

lemma newest_event_spec:
  assumes "newest_event host port name d = Some e"
  shows "e \<in> set (database_events d) \<and> event_of host port name e
    \<and> (\<forall>x\<in>set (database_events d). event_of host port name x \<longrightarrow> de_sequence x \<le> de_sequence e)"
  using event_recency.fetchone_least[OF assms[unfolded newest_event_def]] by (auto simp: event_recent_def)

lemma newest_restore_spec:
  assumes "newest_restore host port name d = Some r"
  shows "r \<in> set (restores d) \<and> restore_of host port name r
    \<and> (\<forall>x\<in>set (restores d). restore_of host port name x \<longrightarrow> restore_recent r x)"
  using restore_recency.fetchone_least[OF assms[unfolded newest_restore_def]] by auto

lemma newest_event_append:
  assumes "event_of host port name e" "\<And>x. x \<in> set (database_events d) \<Longrightarrow> de_sequence x < de_sequence e"
    "database_events d' = database_events d @ [e]"
  shows "newest_event host port name d' = Some e"
proof -
  have "newest_event host port name d' \<noteq> None" using assms(1,3) by (simp add: newest_event_def)
  then obtain x where x: "newest_event host port name d' = Some x" by blast
  from newest_event_spec[OF x] assms show ?thesis using x by fastforce
qed

section \<open>Drops\<close>

lemma db_ok_append_database_event:
  assumes "db_ok d" "database_event_check e" "de_sequence e = next_sequence de_sequence (database_events d)"
    "de_backup_id e = None \<or> de_backup_id e \<in> Some ` b_id ` set (backups d)"
  shows "db_ok (d\<lparr>database_events := database_events d @ [e]\<rparr>)"
proof -
  have "de_sequence e \<notin> de_sequence ` set (database_events d)"
    using next_sequence_fresh[of _ "database_events d" de_sequence] assms(3) by fastforce
  with assms show ?thesis by (auto simp: db_ok_def table_ok_defs unique_on_def refers_def image_image)
qed

lemma distinct_map_delete: "distinct (map f xs) \<Longrightarrow> distinct (map f (delete_rows P xs))"
  by (simp add: delete_rows_def distinct_map_filter)

lemma list_all_delete: "list_all Q xs \<Longrightarrow> list_all Q (delete_rows P xs)"
  by (auto simp: delete_rows_def list_all_iff)

lemma db_ok_delete_restores: "db_ok d \<Longrightarrow> db_ok (d\<lparr>restores := delete_rows P (restores d)\<rparr>)"
  by (auto simp: db_ok_def table_ok_defs unique_on_def refers_def distinct_map_delete list_all_delete)

lemma db_ok_delete_bindings: "db_ok d \<Longrightarrow> db_ok (d\<lparr>bindings := delete_rows P (bindings d)\<rparr>)"
  by (auto simp: db_ok_def table_ok_defs unique_on_def refers_def distinct_map_delete)

text \<open>What recording a drop means for the database: the reference the operations refine.\<close>

definition drop_event :: "string \<Rightarrow> string \<Rightarrow> int \<Rightarrow> string \<Rightarrow> catalog_db \<Rightarrow> catalog_db" where
  "drop_event now host port name d = (if not_dropped (newest_event host port name d)
     then d\<lparr>database_events := database_events d @
       [new_event host port name ''dropped'' now None None None None None d]\<rparr> else d)"

definition dropped_db :: "string \<Rightarrow> string \<Rightarrow> int \<Rightarrow> string \<Rightarrow> catalog_db \<Rightarrow> catalog_db" where
  "dropped_db now host port name d = (let d1 = drop_event now host port name d in
     d1\<lparr>restores := delete_rows (\<lambda>r. restore_of host port name r \<and> r_state r = ''incomplete'') (restores d1),
        bindings := delete_rows (binding_of host port name) (bindings d1)\<rparr>)"

lemma db_ok_drop_event: "db_ok d \<Longrightarrow> db_ok (drop_event now host port name d)"
  unfolding drop_event_def
  by (auto intro!: db_ok_append_database_event simp: new_event_def database_event_check_def)

lemma db_ok_dropped: "db_ok d \<Longrightarrow> db_ok (dropped_db now host port name d)"
  using db_ok_delete_bindings[OF db_ok_delete_restores[OF db_ok_drop_event]]
  by (fastforce simp: dropped_db_def Let_def)

lemma runs_delete_restores: "db_ok (working c) \<Longrightarrow>
    runs (delete_restores P) c (count_rows P (restores (working c)))
      ((working c)\<lparr>restores := delete_rows P (restores (working c))\<rparr>)"
  unfolding delete_restores_def by (rule runs_dml) (simp_all add: db_ok_delete_restores)

lemma runs_delete_bindings: "db_ok (working c) \<Longrightarrow>
    runs (delete_bindings P) c (count_rows P (bindings (working c)))
      ((working c)\<lparr>bindings := delete_rows P (bindings (working c))\<rparr>)"
  unfolding delete_bindings_def by (rule runs_dml) (simp_all add: db_ok_delete_bindings)

lemma runs_clear_dropped:
  assumes "db_ok (working c)"
  shows "runs (clear_dropped host port name) c () ((working c)\<lparr>
    restores := delete_rows (\<lambda>r. restore_of host port name r \<and> r_state r = ''incomplete'') (restores (working c)),
    bindings := delete_rows (binding_of host port name) (bindings (working c))\<rparr>)"
  unfolding clear_dropped_def
proof (rule runs_seq[OF runs_delete_restores[OF assms]], rule runs_seq[OF runs_delete_bindings])
  fix t
  show "db_ok (working (c\<lparr>in_tx := t, working := working c\<lparr>restores := delete_rows
      (\<lambda>r. restore_of host port name r \<and> r_state r = ''incomplete'') (restores (working c))\<rparr>\<rparr>))"
    using db_ok_delete_restores[OF assms] by simp
qed (auto intro: runs_ret)

lemma runs_drop_event:
  assumes "db_ok (working c)"
  shows "runs (if not_dropped (newest_event host port name (working c))
      then aseq (insert_event host port name ''dropped'' now None None None None None) (ret x) else ret y) c
    (if not_dropped (newest_event host port name (working c)) then x else y)
    (drop_event now host port name (working c))"
  using db_ok_drop_event[OF assms, of now host port name]
  by (auto simp: insert_event_def drop_event_def intro!: runs_ret runs_seq[OF runs_dml[OF refl]])

lemma runs_drop:
  assumes "db_ok (working c)"
  shows "runs (aseq (if not_dropped (newest_event host port name (working c))
      then aseq (insert_event host port name ''dropped'' now None None None None None) (ret ()) else ret ())
      (clear_dropped host port name)) c () (dropped_db now host port name (working c))"
proof (rule runs_seq[OF runs_drop_event[OF assms]])
  fix t
  let ?c = "c\<lparr>in_tx := t, working := drop_event now host port name (working c)\<rparr>"
  show "runs (clear_dropped host port name) ?c () (dropped_db now host port name (working c))"
    using runs_clear_dropped[of ?c host port name] db_ok_drop_event[OF assms] by (simp add: dropped_db_def Let_def)
qed

lemma run_dropped:
  assumes "idle c"
  shows "record_database_dropped now h port name c =
    (Inr (), publish c (dropped_db now (normalize_db_host h) port name (committed c)))"
  using runs_with[OF assms runs_drop[of c "normalize_db_host h" port name now]] assms
  by (simp add: record_database_dropped_def Let_def abind_query idle_working idle_db_ok translate_returns)

text \<open>The databases a batch reports, and what it leaves.\<close>

fun dropped_names :: "string \<Rightarrow> string \<Rightarrow> int \<Rightarrow> string list \<Rightarrow> catalog_db \<Rightarrow> string list" where
  "dropped_names now host port [] d = []"
| "dropped_names now host port (n # ns) d =
     (if not_dropped (newest_event host port n d) then [n] else [])
       @ dropped_names now host port ns (dropped_db now host port n d)"

lemma runs_batch:
  "db_ok (working c) \<Longrightarrow> runs (record_databases_dropped_in_transaction now h port names) c
     (dropped_names now (normalize_db_host h) port names (working c))
     (fold (dropped_db now (normalize_db_host h) port) names (working c))"
proof (induction names arbitrary: c)
  case Nil
  then show ?case by (simp add: runs_ret)
next
  case (Cons n ns)
  let ?h = "normalize_db_host h"
  let ?d1 = "drop_event now ?h port n (working c)" and ?d2 = "dropped_db now ?h port n (working c)"
  show ?case
    unfolding record_databases_dropped_in_transaction.simps Let_def
  proof (rule runs_query_bind, rule runs_bind[OF runs_drop_event[OF Cons.prems]], rule runs_seq)
    fix t
    let ?c1 = "c\<lparr>in_tx := t, working := ?d1\<rparr>"
    show "runs (clear_dropped ?h port n) ?c1 () ?d2"
      using runs_clear_dropped[of ?c1 ?h port n] db_ok_drop_event[OF Cons.prems] by (simp add: dropped_db_def Let_def)
    fix t'
    let ?c2 = "?c1\<lparr>in_tx := t', working := ?d2\<rparr>"
    have "db_ok (working ?c2)" using db_ok_dropped[OF Cons.prems] by simp
    from Cons.IH[OF this] show "runs (abind (record_databases_dropped_in_transaction now h port ns)
        (\<lambda>rest. ret ((if not_dropped (newest_event ?h port n (working c)) then [n] else []) @ rest))) ?c2
        (dropped_names now ?h port (n # ns) (working c)) (fold (dropped_db now ?h port) (n # ns) (working c))"
      by (intro runs_bind) (auto intro: runs_ret)
  qed
qed

lemma newest_event_cong: "database_events d = database_events d' \<Longrightarrow> newest_event h p n d = newest_event h p n d'"
  by (simp add: newest_event_def)

lemma dropped_db_events: "database_events (dropped_db now h p n d) = database_events (drop_event now h p n d)"
  by (simp add: dropped_db_def Let_def)

lemma newest_event_dropped: "\<not> not_dropped (newest_event h p n (dropped_db now h p n d))"
proof (cases "not_dropped (newest_event h p n d)")
  case True
  let ?e = "new_event h p n ''dropped'' now None None None None None d"
  have "newest_event h p n (dropped_db now h p n d) = Some ?e"
    by (rule newest_event_append[where d = d])
       (use True in \<open>auto simp: event_of_def new_event_def next_sequence_fresh dropped_db_events drop_event_def\<close>)
  then show ?thesis by (simp add: not_dropped_def new_event_def)
next
  case False
  then have "newest_event h p n (dropped_db now h p n d) = newest_event h p n d"
    by (intro newest_event_cong) (simp add: dropped_db_events drop_event_def)
  with False show ?thesis by simp
qed

lemma newest_event_other:
  "(h', p', m) \<noteq> (h, p, n) \<Longrightarrow> newest_event h' p' m (dropped_db now h p n d) = newest_event h' p' m d"
  by (auto simp: newest_event_def dropped_db_events drop_event_def new_event_def event_of_def)

lemma dropped_db_again: "\<not> not_dropped (newest_event h p n d) \<Longrightarrow>
    (\<And>r. r \<in> set (restores d) \<Longrightarrow> \<not> (restore_of h p n r \<and> r_state r = ''incomplete'')) \<Longrightarrow>
    (\<And>b. b \<in> set (bindings d) \<Longrightarrow> \<not> binding_of h p n b) \<Longrightarrow> dropped_db now h p n d = d"
  by (auto simp: dropped_db_def drop_event_def update_none)

lemma dropped_db_clean:
  "r \<in> set (restores (dropped_db now h p n d)) \<Longrightarrow> \<not> (restore_of h p n r \<and> r_state r = ''incomplete'')"
  "b \<in> set (bindings (dropped_db now h p n d)) \<Longrightarrow> \<not> binding_of h p n b"
  by (auto simp: dropped_db_def Let_def delete_rows_def)

lemma dropped_db_idem: "dropped_db now' h p n (dropped_db now h p n d) = dropped_db now h p n d"
  by (rule dropped_db_again[OF newest_event_dropped]) (simp_all add: dropped_db_clean)

lemma dropped_names_filter:
  "distinct names \<Longrightarrow> dropped_names now h p names d = filter (\<lambda>n. not_dropped (newest_event h p n d)) names"
proof (induction names arbitrary: d)
  case (Cons n ns)
  then have "filter (\<lambda>m. not_dropped (newest_event h p m (dropped_db now h p n d))) ns =
      filter (\<lambda>m. not_dropped (newest_event h p m d)) ns"
    by (intro filter_cong refl) (metis newest_event_other distinct.simps(2) prod.inject)
  with Cons show ?case by simp
qed simp

lemma db_ok_fold_dropped: "db_ok d \<Longrightarrow> db_ok (fold (dropped_db now h p) names d)"
  by (induction names arbitrary: d) (simp_all add: db_ok_dropped)

lemma fold_run_dropped:
  "idle c \<Longrightarrow> fold (\<lambda>n c. snd (record_database_dropped now h p n c)) names c =
     publish c (fold (dropped_db now (normalize_db_host h) p) names (committed c))"
proof (induction names arbitrary: c)
  case (Cons n ns)
  let ?c = "publish c (dropped_db now (normalize_db_host h) p n (committed c))"
  have "idle ?c" using Cons.prems by (simp add: db_ok_dropped idle_db_ok)
  from Cons.IH[OF this] run_dropped[OF Cons.prems] show ?case by simp
qed (simp add: publish_same)

lemma run_batch:
  assumes "idle c"
  shows "record_databases_dropped now h p names c =
    (Inr (dropped_names now (normalize_db_host h) p names (committed c)),
     publish c (fold (dropped_db now (normalize_db_host h) p) names (committed c)))"
  using runs_with[OF assms runs_batch[of c now h p names]] assms
  by (simp add: record_databases_dropped_def idle_working idle_db_ok translate_returns)

lemma run_reconcile:
  assumes "idle c"
  shows "reconcile_databases_dropped now h p names (Inr ()) c = record_databases_dropped now h p names c"
proof -
  let ?c = "c\<lparr>in_tx := True\<rparr>"
  have ok: "db_ok (working ?c)" using assms by (simp add: idle_working idle_db_ok)
  obtain t where "record_databases_dropped_in_transaction now h p names ?c =
      (Inr (dropped_names now (normalize_db_host h) p names (working ?c)),
       ?c\<lparr>in_tx := t, working := fold (dropped_db now (normalize_db_host h) p) names (working ?c)\<rparr>)"
    using runs_batch[OF ok, of now h p names] unfolding runs_def by blast
  then show ?thesis
    using assms unfolding run_batch[OF assms] reconcile_databases_dropped_def rollback_on_error_def
    by (intro translate_returns)
       (simp add: aseq_def abind_def begin_tx_def lift_result_def commit_def ret_def idle_def
         publish_def idle_working[OF assms])
qed

text \<open>
  C16: Recording a batch of drops in one transaction has the effect of recording them one by one. It
  cannot fail, and reports exactly the names whose latest life-cycle event was not already a drop.
  The reconciling variant does the same when the live check returns, and changes nothing at all
  when it raises.
\<close>

theorem batch_drop_equivalent:
  assumes "idle c" "distinct names"
  shows "record_databases_dropped now h p names c =
      (Inr (filter (\<lambda>n. not_dropped (newest_event (normalize_db_host h) p n (committed c))) names),
       fold (\<lambda>n c. snd (record_database_dropped now h p n c)) names c)
    \<and> reconcile_databases_dropped now h p names (Inr ()) c = record_databases_dropped now h p names c
    \<and> reconcile_databases_dropped now h p names (Inl e) c = (Inl (translate_error e), c)"
proof (intro conjI)
  show "reconcile_databases_dropped now h p names (Inl e) c = (Inl (translate_error e), c)"
    using assms(1) idle_working[OF assms(1)]
    by (auto simp: reconcile_databases_dropped_def rollback_on_error_def exec_defs begin_tx_def idle_def)
qed (simp_all add: run_batch[OF assms(1)] fold_run_dropped[OF assms(1)] dropped_names_filter[OF assms(2)]
    run_reconcile[OF assms(1)])


section \<open>Restores and what they prove\<close>


definition new_restore :: "string \<Rightarrow> int \<Rightarrow> string \<Rightarrow> string option \<Rightarrow> string \<Rightarrow> string option \<Rightarrow> string
    \<Rightarrow> string option \<Rightarrow> string option \<Rightarrow> int option \<Rightarrow> string \<Rightarrow> catalog_db \<Rightarrow> restore_row" where
  "new_restore host port name backup_id kind digest now identity data_dir oid state d =
     \<lparr>r_sequence = next_sequence r_sequence (restores d),
       r_db_host = host, r_db_port = port, r_database_name = name, r_backup_id = backup_id,
       r_source_kind = kind, r_source_sha256 = digest, r_restored_at = now, r_cluster_id = identity,
       r_data_directory = data_dir, r_state = state, r_database_oid = oid\<rparr>"

lemma insert_restore_eq: "insert_restore host port name b k g now i dd oid st =
    dml (\<lambda>d. (d\<lparr>restores := restores d @ [new_restore host port name b k g now i dd oid st d]\<rparr>, 1))"
  by (simp add: insert_restore_def new_restore_def)

lemma new_restore_sel [simp]:
  "r_sequence (new_restore h p n b k g now i dd oid st d) = next_sequence r_sequence (restores d)"
  "r_restored_at (new_restore h p n b k g now i dd oid st d) = now"
  "r_backup_id (new_restore h p n b k g now i dd oid st d) = b"
  "r_source_kind (new_restore h p n b k g now i dd oid st d) = k"
  "r_source_sha256 (new_restore h p n b k g now i dd oid st d) = g"
  "r_cluster_id (new_restore h p n b k g now i dd oid st d) = i"
  "r_state (new_restore h p n b k g now i dd oid st d) = st"
  "restore_of h p n (new_restore h p n b k g now i dd oid st d)"
  by (simp_all add: new_restore_def restore_of_def)

lemma new_event_sel [simp]:
  "de_event_type (new_event h p n t now b k g i dd d) = t"
  "de_backup_id (new_event h p n t now b k g i dd d) = b"
  "de_source_kind (new_event h p n t now b k g i dd d) = k"
  "de_source_sha256 (new_event h p n t now b k g i dd d) = g"
  "de_cluster_id (new_event h p n t now b k g i dd d) = i"
  "event_of h p n (new_event h p n t now b k g i dd d)"
  by (simp_all add: new_event_def event_of_def)

text \<open>The database after a restore record and its event.\<close>

definition with_restore :: "(catalog_db \<Rightarrow> restore_row) \<Rightarrow> (catalog_db \<Rightarrow> database_event_row) \<Rightarrow> catalog_db \<Rightarrow> catalog_db" where
  "with_restore r e d = d\<lparr>restores := restores d @ [r d], database_events := database_events d @ [e d]\<rparr>"

lemma new_event_restores [simp]: "new_event h p n t now b k g i dd (d\<lparr>restores := rs\<rparr>) = new_event h p n t now b k g i dd d"
  by (simp add: new_event_def)

lemma require_claim_Inr:
  assumes "require_active_claim i m c = (Inr x, c')"
  shows "c' = c \<and> (i = None \<or> (\<exists>u r. i = Some u \<and> r \<in> set (postgres_clusters (working c)) \<and> pc_state r = ''active''
      \<and> cluster_uuid u = Inr (pc_cluster_id r)))"
proof (cases i)
  case None
  with assms show ?thesis by (simp add: require_active_claim_def ret_Inr)
next
  case (Some u)
  with assms obtain found c1 where "get_postgres_cluster_by_id u c = (Inr found, c1)"
    "(case found of None \<Rightarrow> throw (BackupCatalogError m)
      | Some cl \<Rightarrow> if cc_state cl \<noteq> ''active'' then throw (BackupCatalogError m) else ret ()) c1 = (Inr (), c')"
    by (auto simp: require_active_claim_def abind_Inr_iff)
  with Some show ?thesis
    by (auto simp: run_Inr split: option.splits if_splits dest!: get_cluster_by_id_Inr)
qed

lemma record_restore_Inr:
  assumes "idle c" "record_restore now h p n backup_id source_kind sha cluster_id dd oid st c = (Inr u, c')"
  obtains kind b g i where "restore_provenance backup_id source_kind sha = Inr (kind, b, g)"
    "st \<in> {''complete'', ''incomplete''}" "optional_uuid cluster_id = Inr i"
    "i = None \<or> (\<exists>v r. i = Some v \<and> r \<in> set (postgres_clusters (committed c)) \<and> pc_state r = ''active''
      \<and> cluster_uuid v = Inr (pc_cluster_id r))"
    "c' = publish c (with_restore (new_restore (normalize_db_host h) p n b kind g now i dd oid st)
      (new_event (normalize_db_host h) p n ''restored'' now b (Some kind) g i dd) (committed c))"
    "db_ok (committed c')"
proof -
  let ?h = "normalize_db_host h"
  from assms(2) obtain kind b g i c0 where
    s: "restore_provenance backup_id source_kind sha = Inr (kind, b, g)" "st \<in> {''complete'', ''incomplete''}"
      "optional_uuid cluster_id = Inr i"
      "require_active_claim i ''restore provenance requires an active cluster claim'' c = (Inr (), c0)"
    and w0: "with_conn (aseq (insert_restore ?h p n b kind g now i dd oid st)
        (aseq (insert_event ?h p n ''restored'' now b (Some kind) g i dd) (ret ()))) c0 = (Inr (), c')"
    by (auto simp: record_restore_def Let_def translate_Inr abind_Inr_iff aseq_Inr lift_Inr guard_Inr
        split: prod.splits)
  note w = w0[unfolded conjunct1[OF require_claim_Inr[OF s(4)]]]
  from with_conn_Inr[OF assms(1), of "aseq (insert_restore ?h p n b kind g now i dd oid st)
        (aseq (insert_event ?h p n ''restored'' now b (Some kind) g i dd) (ret ()))" "()" c'] w
  obtain c1 where c1: "aseq (insert_restore ?h p n b kind g now i dd oid st)
        (aseq (insert_event ?h p n ''restored'' now b (Some kind) g i dd) (ret ())) c = (Inr (), c1)"
    "c' = publish c (working c1)"
    by (auto intro!: op_rules restore_rules)
  then have "working c1 = with_restore (new_restore ?h p n b kind g now i dd oid st)
      (new_event ?h p n ''restored'' now b (Some kind) g i dd) (committed c)" "db_ok (working c1)"
    using idle_working[OF assms(1)]
    by (auto simp: insert_restore_eq insert_event_def run_Inr with_restore_def)
  with s c1(2) that require_claim_Inr[OF s(4)] idle_working[OF assms(1)] show thesis by auto
qed

lemma restore_provenance_Inr:
  assumes "restore_provenance backup_id source_kind sha = Inr (kind, b, g)"
  shows "(kind = ''catalogue'' \<and> b = backup_id \<and> b \<noteq> None \<and> g = None) \<or>
    (kind = ''local_archive'' \<and> b = None \<and> g = sha \<and> (\<exists>s. g = Some s \<and> sha256_text s))"
proof -
  have hex: "c \<in> set ''0123456789abcdef'' \<Longrightarrow> lower_hex c" for c
    by (auto simp: lower_hex_def is_digit_def in_range_def code_def)
  from assms show ?thesis
    by (auto simp: restore_provenance_def Let_def sha256_text_def list_ex_iff list_all_iff simp del: set_simps
        split: if_splits option.splits intro: hex)
qed

lemma keeps_idle_prod: "(\<And>a b. x = (a, b) \<Longrightarrow> keeps_idle (f a b)) \<Longrightarrow> keeps_idle (case x of (a, b) \<Rightarrow> f a b)"
  by (cases x) auto

lemma idle_require_claim: "keeps_idle (require_active_claim i m)"
  unfolding require_active_claim_def by (intro idle_rules idle_get_cluster_by_id)

lemma idle_record_restore: "keeps_idle (record_restore now h p n b k s cl dd oi st)"
  unfolding record_restore_def Let_def
  by (intro idle_rules keeps_idle_prod idle_require_claim op_rules restore_rules)

lemma idle_finalize: "keeps_idle (finalize_environment_replacement now e b h p t cl dd)"
  unfolding finalize_environment_replacement_def Let_def by (intro idle_rules op_rules restore_rules)

lemma newest_restore_append:
  assumes "restore_of host port name r" "restores d' = restores d @ [r]"
    "\<And>x. x \<in> set (restores d) \<Longrightarrow> restore_of host port name x \<Longrightarrow> r_restored_at x \<le> r_restored_at r"
    "\<And>x. x \<in> set (restores d) \<Longrightarrow> r_sequence x < r_sequence r"
  shows "newest_restore host port name d' = Some r"
proof -
  have "newest_restore host port name d' \<noteq> None" using assms(1,2) by (simp add: newest_restore_def)
  then obtain x where x: "newest_restore host port name d' = Some x" by blast
  have "restore_recent x r" "x \<in> set (restores d')" "restore_of host port name x"
    using newest_restore_spec[OF x] assms(1,2) by auto
  then have "x = r"
    using assms(2) assms(3,4)[of x] by (auto simp: restore_recent_def dest: leD)
  with x show ?thesis by simp
qed

lemma newest_after_restore:
  "newest_event h p n (with_restore r (new_event h p n t now b k g i dd) d) = Some (new_event h p n t now b k g i dd d)"
  by (rule newest_event_append[where d = d])
     (simp_all add: event_of_def new_event_def next_sequence_fresh with_restore_def)

text \<open>
  C18: Recording a restore either raises and changes nothing, or appends one restore and one
  life-cycle event that carry the same evidence and become the latest event of that database. The
  evidence is either a backup that exists in the catalogue or a well-formed local digest, and a
  named cluster is one whose claim is active.
\<close>

theorem record_restore_evidence:
  assumes "idle c" "record_restore now h p n backup_id source_kind sha cluster_id dd oid st c = (res, c')"
  shows "(\<forall>e. res = Inl e \<longrightarrow> c' = c) \<and> (res = Inr () \<longrightarrow> (\<exists>r e.
    c' = publish c (committed c\<lparr>restores := restores (committed c) @ [r],
      database_events := database_events (committed c) @ [e]\<rparr>)
    \<and> restore_of (normalize_db_host h) p n r \<and> r_state r = st
    \<and> newest_event (normalize_db_host h) p n (committed c') = Some e \<and> de_event_type e = ''restored''
    \<and> de_backup_id e = r_backup_id r \<and> de_source_kind e = Some (r_source_kind r)
    \<and> de_source_sha256 e = r_source_sha256 r \<and> de_cluster_id e = r_cluster_id r
    \<and> ((r_source_kind r = ''catalogue'' \<and> (\<exists>b\<in>set (backups (committed c)). r_backup_id r = Some (b_id b)))
       \<or> (r_source_kind r = ''local_archive'' \<and> (\<exists>s. r_source_sha256 r = Some s \<and> sha256_text s)))
    \<and> (\<forall>i. r_cluster_id r = Some i \<longrightarrow>
        (\<exists>x\<in>set (postgres_clusters (committed c)). pc_state x = ''active'' \<and> cluster_uuid i = Inr (pc_cluster_id x)))))"
proof (cases res)
  case (Inl e)
  then show ?thesis
    using raise_changes_nothing[OF op_ok_record_restore idle_record_restore assms(1)] assms(2) by blast
next
  case (Inr u)
  let ?h = "normalize_db_host h"
  obtain kind b g i where s: "restore_provenance backup_id source_kind sha = Inr (kind, b, g)"
    "i = None \<or> (\<exists>v r. i = Some v \<and> r \<in> set (postgres_clusters (committed c)) \<and> pc_state r = ''active''
      \<and> cluster_uuid v = Inr (pc_cluster_id r))"
    "c' = publish c (with_restore (new_restore ?h p n b kind g now i dd oid st)
      (new_event ?h p n ''restored'' now b (Some kind) g i dd) (committed c))" "db_ok (committed c')"
    using record_restore_Inr[OF assms(1) assms(2)[unfolded Inr]] by metis
  let ?r = "new_restore ?h p n b kind g now i dd oid st (committed c)"
  let ?e = "new_event ?h p n ''restored'' now b (Some kind) g i dd (committed c)"
  have known: "\<exists>x\<in>set (backups (committed c)). b = Some (b_id x)" if "b \<noteq> None"
    using s(3,4) that by (auto simp: db_ok_def restores_ok_def refers_def with_restore_def new_restore_def)
  have "(kind = ''catalogue'' \<and> (\<exists>x\<in>set (backups (committed c)). b = Some (b_id x)))
       \<or> (kind = ''local_archive'' \<and> (\<exists>s. g = Some s \<and> sha256_text s))"
    using restore_provenance_Inr[OF s(1)] known by blast
  moreover have "newest_event ?h p n (committed c') = Some ?e" using s(3) by (simp add: newest_after_restore)
  moreover have "c' = publish c (committed c\<lparr>restores := restores (committed c) @ [?r],
      database_events := database_events (committed c) @ [?e]\<rparr>)" using s(3) by (simp add: with_restore_def)
  ultimately show ?thesis unfolding Inr using s(2)
    by (intro conjI allI impI exI[of _ ?r] exI[of _ ?e]) auto
qed

lemma fetch_unique: "distinct (map key rows) \<Longrightarrow> r \<in> set rows \<Longrightarrow> fetchone (filter (\<lambda>x. key x = key r) rows) = Some r"
  by (induction rows) (auto simp: fetchone_def image_iff filter_empty_conv split: list.splits)

lemma find_backup_unique: "db_ok d \<Longrightarrow> b \<in> set (backups d) \<Longrightarrow> find_backup (b_id b) d = Some b"
  unfolding find_backup_def by (rule fetch_unique) (simp_all add: db_ok_def backups_ok_def unique_on_def)


section \<open>Replacing the database of an environment\<close>

definition rebound :: "string \<Rightarrow> environment_row \<Rightarrow> environment_row" where
  "rebound backup_id e = e\<lparr>e_backup_id := Some backup_id, e_state := ''ready'', e_last_error := None,
     e_recovery_json := None\<rparr>"

lemma publish_replacement_Inr:
  assumes "publish_replacement now eid bid h p t i dd oc m c = (Inr u, c')"
  shows "environments (working c') = update_rows (\<lambda>e. e_id e = eid) (rebound bid) (environments (working c))
    \<and> restores (working c') = restores (working c) @ [new_restore h p t (Some bid) ''catalogue'' None now (Some i)
        (Some dd) None ''complete'' (working c)]
    \<and> database_events (working c') = database_events (working c) @ [new_event h p t ''restored'' now (Some bid)
        (Some ''catalogue'') None (Some i) (Some dd) (working c)]
    \<and> length (environment_events (working c')) = Suc (length (environment_events (working c)))
    \<and> backups (working c') = backups (working c) \<and> postgres_clusters (working c') = postgres_clusters (working c)"
  using assms
  by (auto simp: publish_replacement_def run_Inr update_environments_def insert_restore_eq insert_event_def
      insert_environment_event_def rebound_def[abs_def] new_restore_def new_event_def)

lemma find_environment_updated:
  assumes "find_environment i d = Some e" "environments d' = update_rows (\<lambda>x. e_id x = i) f (environments d)"
    "\<And>x. e_id (f x) = e_id x"
  shows "find_environment i d' = Some (f e)"
proof -
  have "filter (\<lambda>x. e_id x = i) (update_rows (\<lambda>x. e_id x = i) f rows) = map f (filter (\<lambda>x. e_id x = i) rows)" for rows
    using assms(3) by (induction rows) (auto simp: update_rows_def)
  with assms(1,2) show ?thesis by (auto simp: find_environment_def fetchone_def split: list.splits)
qed

text \<open>
  C21: Publishing a replaced environment database is all or nothing. It raises and changes nothing,
  or the environment was a copy-mode environment on that very database, ready or with failed
  cleanup, the backup was available and the cluster claim active, and afterwards the environment is
  ready and bound to the backup with its error and recovery data cleared, the latest event of the
  database is the restore of that backup on that cluster, and one sync event was added.
\<close>

theorem replacement_published:
  assumes "idle c" "finalize_environment_replacement now eid bid h p t cluster_id dd c = (res, c')"
  shows "(\<forall>x. res = Inl x \<longrightarrow> c' = c) \<and> (res = Inr () \<longrightarrow> (\<exists>e b i.
    find_environment eid (committed c) = Some e \<and> e_state e \<in> {''ready'', ''cleanup_failed''}
    \<and> e_db_mode e = ''copy'' \<and> e_target_db_name e = Some t
    \<and> find_backup bid (committed c) = Some b \<and> b_state b = ''available''
    \<and> cluster_uuid cluster_id = Inr i
    \<and> (\<exists>x\<in>set (postgres_clusters (committed c)). pc_cluster_id x = i \<and> pc_state x = ''active'')
    \<and> find_environment eid (committed c') = Some (rebound bid e)
    \<and> (\<exists>ev. newest_event (normalize_db_host h) p t (committed c') = Some ev \<and> event_proves i ev \<and> de_backup_id ev = Some bid)
    \<and> length (environment_events (committed c')) = Suc (length (environment_events (committed c)))))"
proof (cases res)
  case (Inl x)
  then show ?thesis
    using raise_changes_nothing[OF op_ok_finalize_replacement idle_finalize assms(1)] assms(2) by blast
next
  case (Inr u)
  let ?h = "normalize_db_host h"
  from assms(2)[unfolded Inr] obtain i where i: "cluster_uuid cluster_id = Inr i"
    and w: "with_conn (checked_replacement now eid bid ?h p t i dd) c = (Inr u, c')"
    by (auto simp: finalize_environment_replacement_def Let_def translate_Inr abind_Inr_iff lift_Inr aseq_Inr guard_Inr)
  from w obtain c1 where c1: "checked_replacement now eid bid ?h p t i dd c = (Inr u, c1)" "c' = publish c (working c1)"
    using with_conn_Inr[OF assms(1) obeys_checked_replacement] by blast
  from c1(1) have r: "publish_replacement now eid bid ?h p t i dd ''succeeded'' ''replacement'' c = (Inr u, c1)"
    and g: "case find_environment eid (committed c) of None \<Rightarrow> False
        | Some e \<Rightarrow> e_state e \<in> {''ready'', ''cleanup_failed''} \<and> e_db_mode e = ''copy'' \<and> e_target_db_name e = Some t"
      "case find_backup bid (committed c) of None \<Rightarrow> False | Some b \<Rightarrow> b_state b = ''available''"
      "case cluster_by_id i (committed c) of None \<Rightarrow> False | Some r \<Rightarrow> pc_state r = ''active''"
    unfolding checked_replacement_def run_Inr by (simp_all add: idle_working[OF assms(1)])
  obtain e b x where f: "find_environment eid (committed c) = Some e" "find_backup bid (committed c) = Some b"
    "cluster_by_id i (committed c) = Some x"
    using g by (metis (no_types, lifting) option.simps(4) not_Some_eq)
  note eff = publish_replacement_Inr[OF r, unfolded idle_working[OF assms(1)]]
  let ?ev = "new_event ?h p t ''restored'' now (Some bid) (Some ''catalogue'') None (Some i) (Some dd) (committed c)"
  have "newest_event ?h p t (working c1) = Some ?ev"
    by (rule newest_event_append[where d = "committed c"]) (use eff in \<open>simp_all add: new_event_def event_of_def next_sequence_fresh\<close>)
  moreover have "find_environment eid (working c1) = Some (rebound bid e)"
    using find_environment_updated[OF f(1)] eff by (simp add: rebound_def)
  ultimately show ?thesis
    unfolding Inr using f g i eff c1(2) cluster_by_id_Some[OF f(3)] by (auto simp: event_proves_def)
qed

section \<open>Concrete histories\<close>

definition sample_environment :: environment_row where
  "sample_environment = \<lparr>e_id = ''env1'', e_name = ''feature'', e_repository_root = ''/erp'', e_git_common_dir = ''/erp/.git'',
     e_branch = ''feature'', e_base_ref = ''main'', e_worktree_path = ''/wt'', e_generated_config_path = ''/cfg'',
     e_python_environment_path = ''/venv'', e_python_environment_owned = 1, e_dependency_lock_path = ''/lock'',
     e_db_mode = ''copy'', e_source_db_name = Some ''prod'', e_target_db_name = Some ''feature'', e_backup_id = None,
     e_runtime_json = ''{}'', e_state = ''ready'', e_created_at = ''2024-05-01 08:00:00'', e_last_used_at = None,
     e_removed_at = None, e_last_error = None, e_recovery_json = None, e_project_id = Some ''project_erp_01'',
     e_checkout_repository_root = None, e_checkout_git_common_dir = None, e_checkout_commit_sha = None,
     e_code_ownership = ''sdk_owned'', e_artifact_root = None, e_adoption_input_fingerprint = None,
     e_applied_settings_json = ''{}''\<rparr>"

definition restore_db :: catalog_db where
  "restore_db = sample_db\<lparr>environments := [sample_environment], postgres_clusters := postgres_clusters claim_db\<rparr>"

lemma restore_db_ok: "db_ok restore_db"
  by code_simp

lemma restore_idle: "idle (open_catalog restore_db)"
  by (rule idle_open[OF restore_db_ok])

theorem batch_drop_equivalent_witness:
  "record_databases_dropped ''2024-05-03 00:00:00'' None 5432 [''a'', ''b''] (open_catalog restore_db) =
     (Inr [''a'', ''b''], fold (\<lambda>n c. snd (record_database_dropped ''2024-05-03 00:00:00'' None 5432 n c)) [''a'', ''b'']
        (open_catalog restore_db))"
proof -
  have "newest_event (normalize_db_host None) 5432 n (committed (open_catalog restore_db)) = None" for n
    by (simp add: newest_event_def restore_db_def open_catalog_def sample_db_def empty_db_def)
  then show ?thesis
    using batch_drop_equivalent[OF restore_idle, of "[''a'', ''b'']" "''2024-05-03 00:00:00''" None 5432]
    by (simp add: not_dropped_def)
qed


abbreviation (input) sample_record :: "unit cat" where
  "sample_record \<equiv> record_restore ''2024-05-03 00:00:00'' None 5432 ''feature'' (Some (sample_id (CHR ''1''))) None None
     (Some (uuid_text 5)) None None ''complete''"

lemma sample_record_returns: "fst (sample_record (open_catalog restore_db)) = Inr ()"
  by code_simp

lemma sample_record_run: "\<exists>c'. sample_record (open_catalog restore_db) = (Inr (), c')"
  using sample_record_returns by (metis prod.collapse)

lemma restore_db_empty: "restores (committed (open_catalog restore_db)) = []"
    "database_events (committed (open_catalog restore_db)) = []"
  by (simp_all add: open_catalog_def restore_db_def sample_db_def empty_db_def)

theorem record_restore_evidence_witness:
  "\<exists>c' r e. sample_record (open_catalog restore_db) = (Inr (), c') \<and> restores (committed c') = [r]
    \<and> database_events (committed c') = [e] \<and> de_backup_id e = r_backup_id r \<and> de_event_type e = ''restored''"
proof -
  obtain c' where c': "sample_record (open_catalog restore_db) = (Inr (), c')" using sample_record_run by blast
  from record_restore_evidence[OF restore_idle c'] c' show ?thesis by (auto simp: restore_db_empty)
qed

definition recorded :: conn where
  "recorded = snd (sample_record (open_catalog restore_db))"

lemma recorded_provenance: "fst (current_database_backup_provenance None 5432 ''feature'' (Some (uuid_text 5)) recorded) =
    Inr \<lparr>cp_backup_id = uuid_of_text (sample_id (CHR ''1'')), cp_downloaded_at = Some (utc_us sample_time)\<rparr>"
  by code_simp

lemma sample_uuid: "\<exists>u. uuid_of_text (sample_id (CHR ''1'')) = Some u"
  using sample_canonical(2) canonical_uuid_iff uuid_text_roundtrip by metis



abbreviation (input) sample_replacement :: "unit cat" where
  "sample_replacement \<equiv> finalize_environment_replacement ''2024-05-03 00:00:00'' ''env1'' (sample_id (CHR ''1'')) None 5432
     ''feature'' (uuid_text 5) ''/data''"

lemma sample_replacement_returns: "fst (sample_replacement (open_catalog restore_db)) = Inr ()"
  by code_simp

theorem replacement_published_witness:
  "\<exists>c' e. sample_replacement (open_catalog restore_db) = (Inr (), c')
    \<and> find_environment ''env1'' (committed c') = Some (rebound (sample_id (CHR ''1'')) e)"
proof -
  obtain c' where c': "sample_replacement (open_catalog restore_db) = (Inr (), c')"
    using sample_replacement_returns by (metis prod.collapse)
  from replacement_published[OF restore_idle c'] c' show ?thesis by blast
qed

end
