(* ===== verification/Redaction.thy ===== *)
theory Redaction
  imports Sanitize
begin

text \<open>
  The field-aware redaction of \<^verbatim>\<open>internal/proc/redaction.py\<close>: text, structured values, argument vectors
  and environments are projected to a form that may be shown or stored.

  Text is a list of code points below 256, as everywhere. The values that are projected are JSON
  values; \<^verbatim>\<open>bytes\<close> and exceptions, which the source first turns into text, are not among them.
\<close>

section \<open>Text operations\<close>

text \<open>\<^verbatim>\<open>sub in s\<close>.\<close>

fun occurs :: "string \<Rightarrow> string \<Rightarrow> bool" where
  "occurs sub [] \<longleftrightarrow> sub = []"
| "occurs sub (c # cs) \<longleftrightarrow> startswith (c # cs) sub \<or> occurs sub cs"

text \<open>\<^verbatim>\<open>s.replace(old, rep)\<close> for a non-empty \<open>old\<close>: \<open>skip\<close> code points of a match remain to be dropped.\<close>

fun replace_from :: "string \<Rightarrow> string \<Rightarrow> nat \<Rightarrow> string \<Rightarrow> string" where
  "replace_from old rep skip [] = []"
| "replace_from old rep (Suc k) (c # cs) = replace_from old rep k cs"
| "replace_from old rep 0 (c # cs) =
     (if startswith (c # cs) old then rep @ replace_from old rep (length old - 1) cs
      else c # replace_from old rep 0 cs)"

definition py_replace :: "string \<Rightarrow> string \<Rightarrow> string \<Rightarrow> string" where
  "py_replace old rep s = replace_from old rep 0 s"

text \<open>
  \<^verbatim>\<open>s.casefold()\<close>. The micro sign folds to a code point beyond 255; the folded text is compared with
  ASCII text only, so it is left as it is.
\<close>

definition casefold :: "string \<Rightarrow> string" where
  "casefold s = concat (map (\<lambda>c. if code c = 223 then ''ss'' else [lower_char c]) s)"

text \<open>\<^verbatim>\<open>tuple(dict.fromkeys(xs))\<close>: the first occurrences, in order.\<close>

definition from_keys :: "'a list \<Rightarrow> 'a list" where
  "from_keys xs = rev (remdups (rev xs))"

text \<open>\<^verbatim>\<open>shlex.quote\<close> and \<^verbatim>\<open>shlex.join\<close>.\<close>

definition shell_safe :: "char \<Rightarrow> bool" where
  "shell_safe c \<longleftrightarrow> is_alnum c \<or> c \<in> set ''_@%+=:,./-''"

definition shlex_quote :: "string \<Rightarrow> string" where
  "shlex_quote s = (if s = [] then [SQ, SQ] else if list_all shell_safe s then s
     else [SQ] @ py_replace [SQ] [SQ, DQ, SQ, DQ, SQ] s @ [SQ])"

definition shlex_join :: "string list \<Rightarrow> string" where
  "shlex_join xs = join_with '' '' (map shlex_quote xs)"

section \<open>Patterns\<close>

definition REDACTION_MARKER :: string where
  "REDACTION_MARKER = ''<redacted>''"

text \<open>A marker of a secret assignment, the token of the batch prefilter, and whether streams use it.\<close>

definition ASSIGNMENT_MARKER_SPECS :: "(string \<times> string option \<times> bool) list" where
  "ASSIGNMENT_MARKER_SPECS = [
     (''password'', Some ''password'', True), (''passwd'', Some ''passwd'', True), (''pwd'', Some ''pwd'', True),
     (''secret'', Some ''secret'', True), (''token'', Some ''token'', True), (''cookie'', Some ''cookie'', True),
     (''jwt'', Some ''jwt'', True), (''oauth'', Some ''oauth'', True), (''api key'', Some ''api'', True),
     (''dsn'', Some ''dsn'', True), (''database url'', None, True), (''sentry dsn'', None, True),
     (''docker auth config'', None, True), (''authorization'', Some ''authorization'', True),
     (''bearer'', Some ''bearer'', True), (''credential'', Some ''credential'', True),
     (''private key'', Some ''private'', True), (''access key'', Some ''access'', True), (''auth'', Some ''auth'', True),
     (''refresh'', Some ''refresh'', False), (''client secret'', Some ''client'', False)]"

definition spaced_marker :: "string \<Rightarrow> re" where
  "spaced_marker marker = (case split_on (CHR '' '') marker of [] \<Rightarrow> Eps
     | w # ws \<Rightarrow> seqs (ci w # concat (map (\<lambda>v. [sep_opt, ci v]) ws)))"

definition ASSIGNMENT_SECRET :: re where
  "ASSIGNMENT_SECRET = alts (map (\<lambda>(marker, _). spaced_marker marker) ASSIGNMENT_MARKER_SPECS)"

definition ASSIGNMENT_TOKENS :: "string list" where
  "ASSIGNMENT_TOKENS = from_keys (List.map_filter (\<lambda>(_, prefilter_token, _). prefilter_token) ASSIGNMENT_MARKER_SPECS)"

definition assignment_key_char :: "char \<Rightarrow> bool" where
  "assignment_key_char c \<longleftrightarrow> is_alnum c \<or> c \<in> set ''_. -''"

definition ASSIGNMENT_GAP :: re where
  "ASSIGNMENT_GAP = seqs [Star (Cls is_space), one_of '':='', Star (Cls is_space)]"

definition ASSIGNMENT_VALUE :: re where
  "ASSIGNMENT_VALUE = alts [seqs [lit [DQ], Star (none_of [DQ]), lit [DQ]],
     seqs [lit [SQ], Star (none_of [SQ]), lit [SQ]], plus (Cls (\<lambda>c. \<not> is_space c \<and> c \<notin> set '',;''))]"

definition URI_USERINFO :: re where
  "URI_USERINFO = seqs [Cls is_alpha, Star (Cls (\<lambda>c. is_alnum c \<or> c \<in> set ''+.-'')), lit ''://'',
     plus (Cls (\<lambda>c. c \<notin> set ''/@'' \<and> \<not> is_space c)), lit ''@'']"

definition SENSITIVE_ARG :: re where
  "SENSITIVE_ARG = seqs [AtStart, Star (lit ''-''), Star (Seq (plus (Cls is_alnum)) (one_of ''-_'')),
     alts [ci ''password'', ci ''passwd'', ci ''pwd'', ci ''secret'', ci ''token'', ci ''cookie'', ci ''jwt'', ci ''oauth'',
       seqs [ci ''api'', opt (one_of ''-_''), ci ''key''], ci ''dsn'', ci ''authorization'', ci ''bearer'', ci ''credential'',
       seqs [ci ''private'', opt (one_of ''-_''), ci ''key''], seqs [ci ''access'', opt (one_of ''-_''), ci ''key''],
       ci ''auth'', ci ''refresh'', seqs [ci ''client'', opt (one_of ''-_''), ci ''secret'']],
     Star (Seq (one_of ''-_'') (plus (Cls is_alnum))), AtEnd]"

definition HEADER_OPTION :: re where
  "HEADER_OPTION = seqs [AtStart, alts [ci ''-h'', seqs [ci ''--header'', opt (ci ''s'')]], AtEnd]"

definition header_name :: re where
  "header_name = alts [ci ''authorization'', ci ''proxy-authorization'', ci ''cookie'', ci ''set-cookie'']"

definition SENSITIVE_HEADER :: re where
  "SENSITIVE_HEADER = seqs [LineStart, Star (Cls is_space), header_name, Star (Cls is_space), lit '':'',
     Star (Cls is_space), plus (none_of [CR, LF]), LineEnd]"

definition BEARER_VALUE :: re where
  "BEARER_VALUE = seqs [WordB, alts [ci ''bearer'', ci ''basic''], plus (Cls is_space),
     plus (Cls (\<lambda>c. is_alnum c \<or> c \<in> set ''._~+/=-''))]"

definition jwt_part :: re where
  "jwt_part = plus (Cls (\<lambda>c. is_alnum c \<or> c \<in> set ''_-''))"

definition JWT_VALUE :: re where
  "JWT_VALUE = seqs [Alt AtStart (Cls is_space), lit ''eyJ'', jwt_part, lit ''.'', jwt_part, lit ''.'', jwt_part,
     Alt AtEnd (Cls is_space)]"

definition SAFE_ENV_KEY :: re where
  "SAFE_ENV_KEY = seqs [AtStart, alts [lit ''LANG'',
       seqs [lit ''LC_'', plus (Cls (\<lambda>c. is_upper c \<or> is_digit c \<or> c = CHR ''_''))], lit ''TERM'', lit ''TZ'',
       lit ''PYTHONUNBUFFERED'', lit ''GIT_CONFIG_COUNT'',
       seqs [lit ''GIT_'', alts [lit ''AUTHOR'', lit ''COMMITTER''], lit ''_'', alts [lit ''NAME'', lit ''EMAIL'']]],
     AtEnd]"

section \<open>Text\<close>

text \<open>The gap before an assigned value and the text after the value, if the text goes on with one.\<close>

definition assignment_value :: "string \<Rightarrow> (string \<times> string) option" where
  "assignment_value r =
     (case concat (map (\<lambda>s. map (Pair s) (successes ASSIGNMENT_VALUE s)) (successes ASSIGNMENT_GAP (None, r))) of
        [] \<Rightarrow> None | (s, t) # _ \<Rightarrow> Some (take (length r - length (snd s)) r, snd t))"

lemma assignment_value_shorter:
  assumes "assignment_value r = Some (g, rest)"
  shows "length rest \<le> length r"
proof -
  let ?m = "concat (map (\<lambda>s. map (Pair s) (successes ASSIGNMENT_VALUE s)) (successes ASSIGNMENT_GAP (None, r)))"
  obtain s t where "(s, t) \<in> set ?m" "rest = snd t"
    using assms unfolding assignment_value_def by (cases ?m) auto
  then have st: "s \<in> set (successes ASSIGNMENT_GAP (None, r))" "t \<in> set (successes ASSIGNMENT_VALUE s)" by auto
  obtain u where "r = u @ snd s" using successes_suffix[of "fst s" "snd s" ASSIGNMENT_GAP None r] st(1) by auto
  moreover obtain v where "snd s = v @ snd t" using successes_suffix[of "fst t" "snd t" _ "fst s" "snd s"] st(2) by auto
  ultimately show ?thesis using \<open>rest = snd t\<close> by simp
qed

lemma run_shorter:
  assumes "dropWhile (\<lambda>c. \<not> P c) s \<noteq> []"
  shows "length (dropWhile P (dropWhile (\<lambda>c. \<not> P c) s)) < length s"
proof -
  obtain x xs where r: "dropWhile (\<lambda>c. \<not> P c) s = x # xs" using assms by (cases "dropWhile (\<lambda>c. \<not> P c) s") auto
  then have "P x" using hd_dropWhile[of "\<lambda>c. \<not> P c" s] by simp
  moreover have "length (x # xs) \<le> length s" using length_dropWhile_le[of "\<lambda>c. \<not> P c" s] r by simp
  ultimately show ?thesis using r length_dropWhile_le[of P xs] by simp
qed

text \<open>The scan goes from one maximal run of key characters to the next.\<close>

function redact_assignments :: "string \<Rightarrow> string" where
  "redact_assignments s =
     (let before_key = takeWhile (\<lambda>c. \<not> assignment_key_char c) s;
          r = dropWhile (\<lambda>c. \<not> assignment_key_char c) s
      in if r = [] then s
         else let key = takeWhile assignment_key_char r; r = dropWhile assignment_key_char r
           in before_key @ key @ (if \<not> re_search ASSIGNMENT_SECRET key then redact_assignments r
             else case assignment_value r of None \<Rightarrow> redact_assignments r
               | Some (gap, rest) \<Rightarrow> gap @ REDACTION_MARKER @ redact_assignments rest))"
  by pat_completeness auto
termination
  by (relation "measure length")
     (auto simp: run_shorter intro: le_less_trans[OF assignment_value_shorter run_shorter])

declare redact_assignments.simps [simp del]

definition header_replacement :: "string \<Rightarrow> string" where
  "header_replacement m = fst (partition_at (CHR '':'') m) @ '': '' @ REDACTION_MARKER"

text \<open>The user information holds no slash, so the scheme prefix of a match ends at its last slash.\<close>

definition uri_replacement :: "string \<Rightarrow> string" where
  "uri_replacement m = rev (dropWhile (\<lambda>c. c \<noteq> CHR ''/'') (rev m)) @ REDACTION_MARKER @ ''@''"

definition preserves_newlines :: "string \<Rightarrow> bool" where
  "preserves_newlines field \<longleftrightarrow> field \<in> {''stdin'', ''script'', ''stdout'', ''stderr'', ''result'', ''user_stdout''}"

definition redact_text :: "string \<Rightarrow> string list \<Rightarrow> string \<Rightarrow> string" where
  "redact_text value secrets field =
     (let text = fold (\<lambda>secret text. if secret = [] then text else py_replace secret REDACTION_MARKER text) secrets value;
          lowered = casefold text;
          text = (if list_ex (\<lambda>token. occurs token lowered) ASSIGNMENT_TOKENS then redact_assignments text else text);
          text = (if list_ex (\<lambda>header. occurs header lowered)
              [''authorization:'', ''proxy-authorization:'', ''cookie:'', ''set-cookie:'']
            then re_subf SENSITIVE_HEADER header_replacement text else text);
          text = (if occurs ''bearer '' lowered \<or> occurs ''basic '' lowered
            then re_sub BEARER_VALUE REDACTION_MARKER text else text);
          text = (if occurs ''eyj'' lowered then re_sub JWT_VALUE REDACTION_MARKER text else text);
          text = (if occurs ''://'' text then re_subf URI_USERINFO uri_replacement text else text)
      in sanitize_terminal_text text (preserves_newlines field))"

section \<open>Structured values\<close>

fun redacted_projection :: "string list \<Rightarrow> string \<Rightarrow> json \<Rightarrow> json"
  and redacted_items :: "string list \<Rightarrow> string \<Rightarrow> json list \<Rightarrow> json list"
  and redacted_fields :: "string list \<Rightarrow> (string \<times> json) list \<Rightarrow> (string \<times> json) list" where
  "redacted_projection secrets field (JStr value) = JStr (redact_text value secrets field)"
| "redacted_projection secrets field (JObj fields) = JObj (redacted_fields secrets fields)"
| "redacted_projection secrets field (JList items) = JList (redacted_items secrets field items)"
| "redacted_projection secrets field v = v"
| "redacted_items secrets field [] = []"
| "redacted_items secrets field (item # items) = redacted_projection secrets field item # redacted_items secrets field items"
| "redacted_fields secrets [] = []"
| "redacted_fields secrets ((name, item) # fields) =
     (name, if is_secret_key_name name then JStr REDACTION_MARKER else redacted_projection secrets name item)
     # redacted_fields secrets fields"

section \<open>Argument vectors\<close>

text \<open>The positions that the argument at \<open>index\<close> marks.\<close>

definition sensitive_positions :: "string list \<Rightarrow> string list \<Rightarrow> nat \<Rightarrow> nat list" where
  "sensitive_positions argv known_secrets index =
     (let argument = argv ! index; (name, separator, _) = partition_at (CHR ''='') argument;
          has_next = index + 1 < length argv
      in (if separator \<and> startswith name ''-'' \<and> re_fullmatch SENSITIVE_ARG name then [index] else [])
       @ (if startswith argument ''-'' \<and> re_fullmatch SENSITIVE_ARG argument
          then index # (if has_next then [index + 1] else []) else [])
       @ (if re_fullmatch HEADER_OPTION argument \<and> has_next \<and> re_fullmatch SENSITIVE_HEADER (argv ! (index + 1))
          then [index + 1] else [])
       @ (if re_search URI_USERINFO argument \<or> re_search BEARER_VALUE argument \<or> re_search JWT_VALUE argument
            \<or> list_ex (\<lambda>secret. occurs secret argument) known_secrets
          then [index] else []))"

definition capture_sensitive_argv_indices :: "string list \<Rightarrow> string list \<Rightarrow> nat list" where
  "capture_sensitive_argv_indices argv secrets =
     (let known_secrets = filter (\<lambda>secret. secret \<noteq> []) secrets
      in sort (remdups (concat (map (sensitive_positions argv known_secrets) [0..<length argv]))))"

definition redact_argument :: "string list \<Rightarrow> bool \<Rightarrow> string \<Rightarrow> string" where
  "redact_argument secrets captured argument =
     (if \<not> captured \<or> re_search URI_USERINFO argument then redact_text argument secrets ''argv''
      else let (name, separator, _) = partition_at (CHR ''='') argument
        in if \<not> separator \<and> startswith argument ''-'' \<and> re_fullmatch SENSITIVE_ARG argument then argument
           else if separator then name @ ''='' @ REDACTION_MARKER
           else REDACTION_MARKER)"

definition redact_argv :: "string list \<Rightarrow> string list \<Rightarrow> nat list option \<Rightarrow> string list" where
  "redact_argv argv secrets sensitive_indices =
     (let indices = (case sensitive_indices of None \<Rightarrow> capture_sensitive_argv_indices argv secrets | Some is \<Rightarrow> is)
      in map (\<lambda>(index, argument). redact_argument secrets (index \<in> set indices) argument) (enumerate 0 argv))"

definition redacted_argv :: "string list \<Rightarrow> string list \<Rightarrow> nat list option \<Rightarrow> string list" where
  "redacted_argv argv secrets sensitive_indices = redact_argv argv secrets sensitive_indices"

definition argv_secret_values :: "string list \<Rightarrow> nat list \<Rightarrow> string list \<Rightarrow> string list" where
  "argv_secret_values argv indices initial =
     from_keys (filter (\<lambda>value. value \<noteq> []) (initial @ List.map_filter (\<lambda>index.
       if index < length argv
       then let argument = argv ! index; (_, separator, value) = partition_at (CHR ''='') argument
         in if separator then (if value = [] then None else Some value)
            else if \<not> startswith argument ''-'' \<and> argument \<noteq> [] then Some argument else None
       else None) indices))"

definition captured_argv_secret_values :: "string list \<Rightarrow> string list \<Rightarrow> string list" where
  "captured_argv_secret_values argv secrets = argv_secret_values argv (capture_sensitive_argv_indices argv secrets)
     (filter (\<lambda>secret. secret \<noteq> []) secrets)"

section \<open>Environments\<close>

text \<open>\<^verbatim>\<open>GIT_CONFIG_KEY_<n>\<close> and \<^verbatim>\<open>GIT_CONFIG_VALUE_<n>\<close>: whether it is a key, and the digits.\<close>

definition git_config_index :: "string \<Rightarrow> (bool \<times> string) option" where
  "git_config_index key =
     (let number = (\<lambda>prefix. drop (length prefix) key);
          is = (\<lambda>prefix. startswith key prefix \<and> number prefix \<noteq> [] \<and> list_all is_digit (number prefix))
      in if is ''GIT_CONFIG_KEY_'' then Some (True, number ''GIT_CONFIG_KEY_'')
         else if is ''GIT_CONFIG_VALUE_'' then Some (False, number ''GIT_CONFIG_VALUE_'') else None)"

definition git_config_pairs :: "(string \<times> string) list
    \<Rightarrow> (string, (nat \<times> string) option \<times> (nat \<times> string) option) dict" where
  "git_config_pairs environment = fold (\<lambda>(index, key, value) pairs.
     case git_config_index key of None \<Rightarrow> pairs
     | Some (is_key, number) \<Rightarrow>
         let (k, v) = (case map_of pairs number of None \<Rightarrow> (None, None) | Some pair \<Rightarrow> pair)
         in dset pairs number (if is_key then (Some (index, value), v) else (k, Some (index, value))))
     (enumerate 0 environment) []"

definition safe_git_config_indices :: "(string \<times> string) list \<Rightarrow> nat list" where
  "safe_git_config_indices environment = concat (map (\<lambda>(_, pair).
     case pair of (Some (i, config_key), Some (j, config_value)) \<Rightarrow>
       if config_key = ''trailer.separators'' \<and> config_value = '' '' then [i, j] else []
     | _ \<Rightarrow> []) (git_config_pairs environment))"

definition redacted_environment :: "(string \<times> string) list \<Rightarrow> string list \<Rightarrow> (string \<times> string) list" where
  "redacted_environment environment secrets =
     (let safe_git_config = safe_git_config_indices environment
      in map (\<lambda>(index, key, value).
        (key, if (re_fullmatch SAFE_ENV_KEY key \<or> index \<in> set safe_git_config) \<and> \<not> is_secret_key_name key
              then redact_text value secrets key else REDACTION_MARKER)) (enumerate 0 environment))"

definition override_secret_values :: "(string \<times> string) list \<Rightarrow> string list" where
  "override_secret_values overrides =
     (let safe_git_config = safe_git_config_indices overrides
      in List.map_filter (\<lambda>(index, key, value).
        if value \<noteq> [] \<and> \<not> re_fullmatch SAFE_ENV_KEY key \<and> index \<notin> set safe_git_config then Some value else None)
        (enumerate 0 overrides))"

section \<open>What a projection shows\<close>

text \<open>Text without terminal control characters, line feeds apart.\<close>

definition inert_lines :: "string \<Rightarrow> bool" where
  "inert_lines s \<longleftrightarrow> list_all (\<lambda>c. is_control c \<longrightarrow> c = LF) s"

lemma terminal_text_inert: "inert_lines (sanitize_terminal_text s b)"
  by (auto simp: inert_lines_def list_all_iff sanitize_terminal_text_def split: if_splits dest: escape_control_plain)

lemma redact_text_inert: "inert_lines (redact_text v secrets field)"
  unfolding redact_text_def Let_def by (rule terminal_text_inert)

lemma redact_text_single_line:
  "\<not> preserves_newlines field \<Longrightarrow> c \<in> set (redact_text v secrets field) \<Longrightarrow> \<not> is_control c"
  unfolding redact_text_def Let_def using terminal_text_no_control by auto

text \<open>\<open>w\<close> is \<open>v\<close> with inert texts and with every field of a secret name replaced by the marker.\<close>

fun safe_view :: "json \<Rightarrow> json \<Rightarrow> bool"
  and safe_items :: "json list \<Rightarrow> json list \<Rightarrow> bool"
  and safe_fields :: "(string \<times> json) list \<Rightarrow> (string \<times> json) list \<Rightarrow> bool" where
  "safe_view (JStr v) w \<longleftrightarrow> (case w of JStr t \<Rightarrow> inert_lines t | _ \<Rightarrow> False)"
| "safe_view (JObj fields) w \<longleftrightarrow> (case w of JObj fields' \<Rightarrow> safe_fields fields fields' | _ \<Rightarrow> False)"
| "safe_view (JList items) w \<longleftrightarrow> (case w of JList items' \<Rightarrow> safe_items items items' | _ \<Rightarrow> False)"
| "safe_view v w \<longleftrightarrow> w = v"
| "safe_items [] ws \<longleftrightarrow> ws = []"
| "safe_items (v # vs) ws \<longleftrightarrow> (case ws of [] \<Rightarrow> False | w # ws' \<Rightarrow> safe_view v w \<and> safe_items vs ws')"
| "safe_fields [] ws \<longleftrightarrow> ws = []"
| "safe_fields ((name, v) # vs) ws \<longleftrightarrow> (case ws of [] \<Rightarrow> False
     | (name', w) # ws' \<Rightarrow> name' = name \<and> (if is_secret_key_name name then w = JStr REDACTION_MARKER else safe_view v w)
         \<and> safe_fields vs ws')"

text \<open>
  A structured value is projected without losing its shape: lists keep their length and order,
  objects their field names and order, numbers and booleans their value; every text of the
  projection is free of terminal control characters other than line feeds, and every field whose
  name is classified as secret holds the redaction marker, at any depth.
\<close>

theorem redacted_projection_safe: "safe_view v (redacted_projection secrets field v)"
proof -
  have "safe_view v (redacted_projection secrets field v)" "safe_items vs (redacted_items secrets field vs)"
    "safe_fields fs (redacted_fields secrets fs)" for vs fs
    by (induction secrets field v and secrets field vs and secrets fs
        rule: redacted_projection_redacted_items_redacted_fields.induct) (simp_all add: redact_text_inert)
  then show ?thesis by blast
qed

subsection \<open>Argument vectors\<close>

lemma length_redact_argv [simp]: "length (redact_argv argv secrets is) = length argv"
  by (simp add: redact_argv_def Let_def)

lemma redact_argv_nth: "i < length argv \<Longrightarrow> redact_argv argv secrets None ! i =
    redact_argument secrets (i \<in> set (capture_sensitive_argv_indices argv secrets)) (argv ! i)"
  by (simp add: redact_argv_def nth_enumerate_eq)

lemma captured_iff: "i \<in> set (capture_sensitive_argv_indices argv secrets) \<longleftrightarrow>
    (\<exists>k < length argv. i \<in> set (sensitive_positions argv (filter (\<lambda>s. s \<noteq> []) secrets) k))"
  by (auto simp: capture_sensitive_argv_indices_def)

definition option_with_value :: "string \<Rightarrow> bool" where
  "option_with_value argument \<longleftrightarrow> (case partition_at (CHR ''='') argument of (name, separator, _) \<Rightarrow>
     separator \<and> startswith name ''-'' \<and> re_fullmatch SENSITIVE_ARG name)"

text \<open>What makes a position sensitive: the value of a sensitive option, an option with its value, a header, a credential.\<close>

definition carries_secret :: "string list \<Rightarrow> string list \<Rightarrow> nat \<Rightarrow> bool" where
  "carries_secret argv secrets i \<longleftrightarrow>
     (0 < i \<and> startswith (argv ! (i - 1)) ''-'' \<and> re_fullmatch SENSITIVE_ARG (argv ! (i - 1)))
   \<or> (0 < i \<and> re_fullmatch HEADER_OPTION (argv ! (i - 1)) \<and> re_fullmatch SENSITIVE_HEADER (argv ! i))
   \<or> option_with_value (argv ! i) \<or> re_search BEARER_VALUE (argv ! i) \<or> re_search JWT_VALUE (argv ! i)
   \<or> list_ex (\<lambda>s. s \<noteq> [] \<and> occurs s (argv ! i)) secrets"

lemma sensitive_positions_mem: "j \<in> set (sensitive_positions argv ks i) \<longleftrightarrow>
    (j = i \<and> (option_with_value (argv ! i) \<or> startswith (argv ! i) ''-'' \<and> re_fullmatch SENSITIVE_ARG (argv ! i)
       \<or> re_search URI_USERINFO (argv ! i) \<or> re_search BEARER_VALUE (argv ! i) \<or> re_search JWT_VALUE (argv ! i)
       \<or> list_ex (\<lambda>s. occurs s (argv ! i)) ks))
    \<or> (j = Suc i \<and> Suc i < length argv \<and> (startswith (argv ! i) ''-'' \<and> re_fullmatch SENSITIVE_ARG (argv ! i)
       \<or> re_fullmatch HEADER_OPTION (argv ! i) \<and> re_fullmatch SENSITIVE_HEADER (argv ! Suc i)))"
  unfolding sensitive_positions_def option_with_value_def
  by (cases "startswith (argv ! i) ''-'' \<and> re_fullmatch SENSITIVE_ARG (argv ! i)")
     (simp_all add: Let_def partition_at_def, blast+)

lemma carries_secret_captured:
  assumes "i < length argv" "carries_secret argv secrets i"
  shows "i \<in> set (capture_sensitive_argv_indices argv secrets)"
proof -
  let ?at = "\<lambda>k. i \<in> set (sensitive_positions argv (filter (\<lambda>s. s \<noteq> []) secrets) k)"
  consider "0 < i" "startswith (argv ! (i - 1)) ''-''" "re_fullmatch SENSITIVE_ARG (argv ! (i - 1))"
    | "0 < i" "re_fullmatch HEADER_OPTION (argv ! (i - 1))" "re_fullmatch SENSITIVE_HEADER (argv ! i)"
    | "option_with_value (argv ! i) \<or> re_search BEARER_VALUE (argv ! i) \<or> re_search JWT_VALUE (argv ! i)"
    | "list_ex (\<lambda>s. s \<noteq> [] \<and> occurs s (argv ! i)) secrets"
    using assms(2) unfolding carries_secret_def by blast
  then have "?at i \<or> 0 < i \<and> ?at (i - 1)"
    using assms(1) by cases (simp_all add: sensitive_positions_mem list_ex_iff, blast+)
  then show ?thesis unfolding captured_iff using assms(1) by (metis less_imp_diff_less)
qed

text \<open>
  C40: The public argument vector keeps the argument boundaries, and at every position that carries
  a secret (the value of a sensitive option or header, an option with its value, a bearer or JWT
  credential, a configured secret) and no URI user information, it shows nothing after the first
  equals sign: the argument is the bare name of a sensitive option, or it becomes the marker, or the
  text before its first equals sign followed by the marker.
\<close>

theorem argv_secret_hidden:
  assumes "i < length argv" "carries_secret argv secrets i" "\<not> re_search URI_USERINFO (argv ! i)"
  shows "length (redacted_argv argv secrets None) = length argv
    \<and> redacted_argv argv secrets None ! i =
       (if CHR ''='' \<in> set (argv ! i) then takeWhile (\<lambda>c. c \<noteq> CHR ''='') (argv ! i) @ ''='' @ REDACTION_MARKER
        else if startswith (argv ! i) ''-'' \<and> re_fullmatch SENSITIVE_ARG (argv ! i) then argv ! i
        else REDACTION_MARKER)"
  using carries_secret_captured[OF assms(1,2)] assms(1,3)
  by (simp add: redacted_argv_def redact_argv_nth redact_argument_def partition_at_def)

theorem argv_secret_hidden_witness:
  "redacted_argv [''psql'', ''--password'', ''hunter2''] [] None ! 2 = REDACTION_MARKER"
proof -
  let ?a = "[''psql'', ''--password'', ''hunter2'']"
  have "carries_secret ?a [] 2" "\<not> re_search URI_USERINFO (?a ! 2)" by code_simp+
  with argv_secret_hidden[of 2 ?a "[]"] show ?thesis by (simp add: startswith_def)
qed

text \<open>
  What this does not hide: the text before the first equals sign. A padded base64 credential in a
  header argument, or a configured secret with an equals sign in it, is shown up to that sign.
\<close>

lemma padded_credential_shown:
  "redacted_argv [''curl'', ''-H'', ''Authorization: Basic dXNlcjpwYXNz=''] [] None =
     [''curl'', ''-H'', ''Authorization: Basic dXNlcjpwYXNz=<redacted>'']"
  "redacted_argv [''tool'', ''c2VjcmV0=''] [''c2VjcmV0=''] None = [''tool'', ''c2VjcmV0=<redacted>'']"
  by code_simp+

text \<open>
  In text, the assignment rule replaces the scheme of a header that does not start its line, and the
  bearer rule then no longer sees the token.
\<close>

lemma inline_bearer_token_shown:
  "redact_text ''sent Authorization: Bearer abc123'' [] ''stderr'' = ''sent Authorization: <redacted> abc123''"
  by code_simp

text \<open>A token takes the white space around it with it, so the next one no longer starts after white space.\<close>

lemma adjacent_token_shown:
  "redact_text ''eyJhbG.eyJzdWI.c2ln eyJhbG.eyJhZG0.c2lx'' [] ''stdout'' = ''<redacted>eyJhbG.eyJhZG0.c2lx''"
  by code_simp

subsection \<open>Environments\<close>

text \<open>The recorded half of a pair is an entry of the environment with a matching name.\<close>

definition entry_of :: "(nat \<times> string \<times> string) set \<Rightarrow> (nat \<times> string) option \<Rightarrow> bool" where
  "entry_of E half \<longleftrightarrow> (\<forall>i v. half = Some (i, v) \<longrightarrow> (\<exists>key. (i, key, v) \<in> E \<and> git_config_index key \<noteq> None))"

lemma git_config_pairs_step:
  assumes "\<forall>(n, k, v) \<in> set pairs. entry_of E k \<and> entry_of E v" "(index, key, value) \<in> E"
    and "pairs' = (case git_config_index key of None \<Rightarrow> pairs
     | Some (is_key, number) \<Rightarrow>
         let (k, v) = (case map_of pairs number of None \<Rightarrow> (None, None) | Some pair \<Rightarrow> pair)
         in dset pairs number (if is_key then (Some (index, value), v) else (k, Some (index, value))))"
  shows "\<forall>(n, k, v) \<in> set pairs'. entry_of E k \<and> entry_of E v"
proof (cases "git_config_index key")
  case (Some a)
  obtain is_key number where a: "a = (is_key, number)" by force
  obtain k v where kv: "(case map_of pairs number of None \<Rightarrow> (None, None) | Some pair \<Rightarrow> pair) = (k, v)" by force
  have "entry_of E k \<and> entry_of E v"
    using kv assms(1) by (auto simp: entry_of_def dest: map_of_SomeD split: option.splits) (fastforce dest: map_of_SomeD)+
  moreover have "entry_of E (Some (index, value))" using assms(2) Some by (auto simp: entry_of_def)
  moreover have "set pairs' \<subseteq> insert (number, if is_key then (Some (index, value), v) else (k, Some (index, value))) (set pairs)"
    using assms(3) Some a kv by (simp add: Let_def set_dset)
  ultimately show ?thesis using assms(1) by (cases is_key) auto
qed (use assms in simp)

lemma git_config_pairs_entries:
  "(n, k, v) \<in> set (git_config_pairs environment) \<Longrightarrow>
     entry_of (set (enumerate 0 environment)) k \<and> entry_of (set (enumerate 0 environment)) v"
proof -
  let ?step = "\<lambda>(index, key, value) pairs. case git_config_index key of None \<Rightarrow> pairs
     | Some (is_key, number) \<Rightarrow>
         let (k, v) = (case map_of pairs number of None \<Rightarrow> (None, None) | Some pair \<Rightarrow> pair)
         in dset pairs number (if is_key then (Some (index, value), v) else (k, Some (index, value)))"
  have "\<forall>(n, k, v) \<in> set (fold ?step xs pairs). entry_of E k \<and> entry_of E v"
    if "set xs \<subseteq> E" "\<forall>(n, k, v) \<in> set pairs. entry_of E k \<and> entry_of E v" for xs pairs and E :: "(nat \<times> string \<times> string) set"
    using that
  proof (induction xs arbitrary: pairs)
    case (Cons x xs)
    obtain i key vl where x: "x = (i, key, vl)" by (cases x)
    have "\<forall>(n, k, v) \<in> set (?step x pairs). entry_of E k \<and> entry_of E v"
      using git_config_pairs_step[OF Cons.prems(2), of i key vl] Cons.prems(1) by (simp add: x)
    then show ?case using Cons by simp
  qed simp
  from this[of "enumerate 0 environment" "set (enumerate 0 environment)" "[]"]
  show "(n, k, v) \<in> set (git_config_pairs environment) \<Longrightarrow> ?thesis"
    unfolding git_config_pairs_def by auto
qed

lemma safe_git_config_entry:
  assumes "i \<in> set (safe_git_config_indices environment)" "i < length environment"
  shows "git_config_index (fst (environment ! i)) \<noteq> None \<and> snd (environment ! i) \<in> {''trailer.separators'', '' ''}"
proof -
  obtain n a b x y where p: "(n, Some (a, x), Some (b, y)) \<in> set (git_config_pairs environment)"
    and xy: "x = ''trailer.separators''" "y = '' ''" "i = a \<or> i = b"
    using assms(1) by (auto simp: safe_git_config_indices_def split: option.splits if_splits prod.splits)
  obtain j z where "i = j" "z \<in> {x, y}" "entry_of (set (enumerate 0 environment)) (Some (j, z))"
    using git_config_pairs_entries[OF p] xy(3) by auto
  then obtain key where "(i, key, z) \<in> set (enumerate 0 environment)" "git_config_index key \<noteq> None"
    by (auto simp: entry_of_def)
  with assms(2) xy \<open>z \<in> {x, y}\<close> show ?thesis by (auto simp: in_set_enumerate_eq)
qed

lemma redacted_environment_keys [simp]: "map fst (redacted_environment environment secrets) = map fst environment"
  by (simp add: redacted_environment_def Let_def list_eq_iff_nth_eq nth_enumerate_eq split: prod.splits)

lemma redacted_environment_shown:
  "i < length environment \<Longrightarrow> snd (redacted_environment environment secrets ! i) \<noteq> REDACTION_MARKER \<Longrightarrow>
     (re_fullmatch SAFE_ENV_KEY (fst (environment ! i)) \<or> i \<in> set (safe_git_config_indices environment))
     \<and> \<not> is_secret_key_name (fst (environment ! i))"
  by (auto simp: redacted_environment_def Let_def nth_enumerate_eq split: prod.splits if_splits)

text \<open>
  The public view of an environment lists exactly the given names in order, and shows a value
  only under a name that is not classified as secret and is on the allow-list, or in a git
  configuration pair whose value is the trailer separator setting; every other value is the marker.
\<close>

theorem redacted_environment_allowlist:
  assumes "i < length environment"
  shows "map fst (redacted_environment environment secrets) = map fst environment
    \<and> (snd (redacted_environment environment secrets ! i) \<noteq> REDACTION_MARKER \<longrightarrow>
       \<not> is_secret_key_name (fst (environment ! i))
       \<and> (re_fullmatch SAFE_ENV_KEY (fst (environment ! i))
          \<or> git_config_index (fst (environment ! i)) \<noteq> None
            \<and> snd (environment ! i) \<in> {''trailer.separators'', '' ''}))"
  using redacted_environment_shown[OF assms] safe_git_config_entry[OF _ assms] by auto

theorem redacted_environment_allowlist_witness:
  "redacted_environment [(''LANG'', ''C''), (''PGPASSWORD'', ''hunter2'')] [] = [(''LANG'', ''C''), (''PGPASSWORD'', ''<redacted>'')]
   \<and> \<not> is_secret_key_name ''LANG''"
proof -
  let ?e = "[(''LANG'', ''C''), (''PGPASSWORD'', ''hunter2'')]"
  have r: "redacted_environment ?e [] = [(''LANG'', ''C''), (''PGPASSWORD'', ''<redacted>'')]" by code_simp
  have "snd (redacted_environment ?e [] ! 0) \<noteq> REDACTION_MARKER" by (simp add: r REDACTION_MARKER_def)
  with redacted_environment_allowlist[of 0 ?e "[]"] r show ?thesis by simp
qed

end
