(* ===== verification/Applied_Settings.thy ===== *)
theory Applied_Settings
  imports Redaction Json
begin

text \<open>
  The versioned evidence of applied settings, \<^verbatim>\<open>internal/applied_settings.py\<close>: normalization of the five
  components, the encoded document, and the checks a stored document passes when it is decoded.

  \<^verbatim>\<open>Path.expanduser().resolve()\<close> is the argument \<open>canonical_path\<close>, \<^verbatim>\<open>hashlib.sha256(...).hexdigest()\<close> the
  argument \<open>sha256\<close>, and the decimal text of a float the argument \<open>frepr\<close>. Settings are JSON values; a
  path given as a \<^verbatim>\<open>Path\<close> is given as its text.
\<close>

section \<open>Components\<close>

datatype settings_error = AppliedSettingsError string | UnhashableTypeError

definition APPLIED_SETTINGS_VERSION :: int where "APPLIED_SETTINGS_VERSION = 1"

definition secret_free :: "json \<Rightarrow> string \<Rightarrow> json" where
  "secret_free v fd = redacted_projection [] fd v"

definition safe_path :: "(string \<Rightarrow> string) \<Rightarrow> string \<Rightarrow> string \<Rightarrow> string" where
  "safe_path canonical_path v fd = redact_text (canonical_path v) [] fd"

definition known_component :: "(string \<times> json) list \<Rightarrow> json" where
  "known_component fs = JObj ((''status'', JStr ''known'') # fs)"

definition unknown_component :: json where
  "unknown_component = JObj [(''status'', JStr ''unknown'')]"

text \<open>An optional text: absent, null, or a string.\<close>

definition text_or_none :: "json option \<Rightarrow> string \<Rightarrow> (settings_error, string option) result" where
  "text_or_none v msg = (case v of None \<Rightarrow> Inr None | Some JNull \<Rightarrow> Inr None | Some (JStr t) \<Rightarrow> Inr (Some t)
     | Some _ \<Rightarrow> Inl (AppliedSettingsError msg))"

definition or_null :: "string option \<Rightarrow> json" where
  "or_null t = (case t of None \<Rightarrow> JNull | Some s \<Rightarrow> JStr s)"

definition normalize_python :: "(string \<Rightarrow> string) \<Rightarrow> (string, json) dict option \<Rightarrow> (settings_error, json) result" where
  "normalize_python canonical_path v = (case v of None \<Rightarrow> Inr unknown_component
   | Some d \<Rightarrow>
     rbind (ensure (set (dkeys d) \<subseteq> {''selector'', ''path'', ''owned''})
       (AppliedSettingsError ''python evidence contains unsupported fields'')) (\<lambda>_.
     rbind (text_or_none (map_of d ''selector'') ''python selector evidence is malformed'') (\<lambda>selector.
     rbind (text_or_none (map_of d ''path'') ''python path evidence is malformed'') (\<lambda>path.
     case map_of d ''owned'' of Some (JBool owned) \<Rightarrow>
       Inr (known_component
         [(''selector'', or_null (map_option (\<lambda>t. redact_text t [] ''python_selector'') selector)),
          (''path'', or_null (map_option (\<lambda>t. safe_path canonical_path t ''python_path'') path)),
          (''owned'', JBool owned)])
     | _ \<Rightarrow> Inl (AppliedSettingsError ''python ownership evidence is malformed'')))))"

text \<open>A mapping is listed by sorted keys, a sequence by its positions.\<close>

definition dependency_entries :: "json \<Rightarrow> (settings_error, (string \<times> json) list) result" where
  "dependency_entries v = (case v of JObj d \<Rightarrow> Inr (sort_key fst d)
     | JList items \<Rightarrow> Inr (map (\<lambda>(i, x). (show_nat i, x)) (enumerate 0 items))
     | _ \<Rightarrow> Inl (AppliedSettingsError ''dependency evidence is malformed''))"

definition dependency_input :: "(rat \<Rightarrow> string) \<Rightarrow> (string \<Rightarrow> string) \<Rightarrow> string \<times> json \<Rightarrow> json" where
  "dependency_input frepr sha256 = (\<lambda>(name, semantic_input).
     let projected_identity = redact_text name [] ''dependency_identity'';
         projected = secret_free semantic_input ''dependency'';
         fingerprint = sha256 (dumps frepr (JObj [(''identity'', JStr projected_identity), (''input'', projected)]))
     in JObj [(''identity'', JStr projected_identity), (''fingerprint'', JStr fingerprint)])"

definition normalize_dependencies :: "(rat \<Rightarrow> string) \<Rightarrow> (string \<Rightarrow> string) \<Rightarrow> json \<Rightarrow> (settings_error, json) result" where
  "normalize_dependencies frepr sha256 v = (if v = JNull then Inr unknown_component
     else rbind (dependency_entries v) (\<lambda>entries.
       Inr (known_component [(''inputs'', JList (map (dependency_input frepr sha256) entries))])))"

definition normalize_config :: "(string, json) dict option \<Rightarrow> (settings_error, json) result" where
  "normalize_config v = (case v of None \<Rightarrow> Inr unknown_component
     | Some d \<Rightarrow> Inr (known_component [(''values'', secret_free (JObj d) ''managed_config'')]))"

definition normalize_addons :: "(string \<Rightarrow> string) \<Rightarrow> string list option \<Rightarrow> (settings_error, json) result" where
  "normalize_addons canonical_path v = (case v of None \<Rightarrow> Inr unknown_component
     | Some paths \<Rightarrow> Inr (known_component
         [(''paths'', JList (map JStr (sort (remdups (map (\<lambda>p. safe_path canonical_path p ''addon_path'') paths)))))]))"

definition normalize_git :: "(string, json) dict option \<Rightarrow> (settings_error, json) result" where
  "normalize_git v = (case v of None \<Rightarrow> Inr unknown_component
   | Some d \<Rightarrow>
     rbind (ensure (set (dkeys d) \<subseteq> {''ticket'', ''branch'', ''base''})
       (AppliedSettingsError ''Git provenance evidence is malformed'')) (\<lambda>_.
     case (map_of d ''ticket'', map_of d ''branch'', map_of d ''base'') of
       (Some (JStr ticket), Some (JStr branch), Some (JStr base)) \<Rightarrow>
         Inr (known_component [(''ticket'', JStr (redact_text ticket [] ''git_ticket'')),
           (''branch'', JStr (redact_text branch [] ''git_branch'')), (''base'', JStr (redact_text base [] ''git_base''))])
     | _ \<Rightarrow> Inl (AppliedSettingsError ''Git provenance evidence is malformed'')))"

record settings_input =
  in_python :: "(string, json) dict option"
  in_dependencies :: json
  in_managed_config :: "(string, json) dict option"
  in_addons :: "string list option"
  in_git :: "(string, json) dict option"

definition encode_applied_settings :: "(rat \<Rightarrow> string) \<Rightarrow> (string \<Rightarrow> string) \<Rightarrow> (string \<Rightarrow> string) \<Rightarrow> settings_input
    \<Rightarrow> (settings_error, string) result" where
  "encode_applied_settings frepr sha256 canonical_path s =
     rbind (normalize_python canonical_path (in_python s)) (\<lambda>py.
     rbind (normalize_dependencies frepr sha256 (in_dependencies s)) (\<lambda>deps.
     rbind (normalize_config (in_managed_config s)) (\<lambda>config.
     rbind (normalize_addons canonical_path (in_addons s)) (\<lambda>addons.
     rbind (normalize_git (in_git s)) (\<lambda>git.
     Inr (dumps frepr (JObj [(''version'', JInt APPLIED_SETTINGS_VERSION),
       (''components'', JObj [(''python'', py), (''dependencies'', deps), (''odoo'', config), (''addons'', addons), (''git'', git)])])))))))"

definition no_settings :: settings_input where
  "no_settings = \<lparr>in_python = None, in_dependencies = JNull, in_managed_config = None, in_addons = None, in_git = None\<rparr>"

section \<open>Decoding\<close>

definition optional_text :: "json option \<Rightarrow> bool" where
  "optional_text v = (case v of Some JNull \<Rightarrow> True | Some (JStr _) \<Rightarrow> True | _ \<Rightarrow> False)"

definition is_text :: "json option \<Rightarrow> bool" where
  "is_text v = (case v of Some (JStr _) \<Rightarrow> True | _ \<Rightarrow> False)"

definition python_ok :: "(string, json) dict \<Rightarrow> bool" where
  "python_ok d \<longleftrightarrow> optional_text (map_of d ''selector'') \<and> optional_text (map_of d ''path'')
     \<and> (case map_of d ''owned'' of Some (JBool _) \<Rightarrow> True | _ \<Rightarrow> False)"

definition fingerprint_ok :: "string \<Rightarrow> bool" where
  "fingerprint_ok t \<longleftrightarrow> length t = 64 \<and> list_all (\<lambda>c. c \<in> set ''0123456789abcdef'') t"

definition dependency_ok :: "json \<Rightarrow> bool" where
  "dependency_ok item = (case item of
     JObj d \<Rightarrow> set (dkeys d) = {''identity'', ''fingerprint''} \<and> is_text (map_of d ''identity'')
       \<and> (case map_of d ''fingerprint'' of Some (JStr t) \<Rightarrow> fingerprint_ok t | _ \<Rightarrow> False)
   | _ \<Rightarrow> False)"

definition dependencies_ok :: "(string, json) dict \<Rightarrow> bool" where
  "dependencies_ok d = (case map_of d ''inputs'' of Some (JList items) \<Rightarrow> list_all dependency_ok items | _ \<Rightarrow> False)"

definition config_ok :: "(string, json) dict \<Rightarrow> bool" where
  "config_ok d = (case map_of d ''values'' of Some (JObj _) \<Rightarrow> True | _ \<Rightarrow> False)"

definition addons_ok :: "(string, json) dict \<Rightarrow> bool" where
  "addons_ok d = (case map_of d ''paths'' of Some (JList paths) \<Rightarrow> list_all (\<lambda>p. is_text (Some p)) paths | _ \<Rightarrow> False)"

definition git_ok :: "(string, json) dict \<Rightarrow> bool" where
  "git_ok d \<longleftrightarrow> is_text (map_of d ''ticket'') \<and> is_text (map_of d ''branch'') \<and> is_text (map_of d ''base'')"

definition known_fields :: "string \<Rightarrow> string set" where
  "known_fields name = (if name = ''python'' then {''status'', ''selector'', ''path'', ''owned''}
     else if name = ''dependencies'' then {''status'', ''inputs''} else if name = ''odoo'' then {''status'', ''values''}
     else if name = ''addons'' then {''status'', ''paths''} else {''status'', ''ticket'', ''branch'', ''base''})"

definition known_ok :: "string \<Rightarrow> (string, json) dict \<Rightarrow> bool" where
  "known_ok name d = (if name = ''python'' then python_ok d else if name = ''dependencies'' then dependencies_ok d
     else if name = ''odoo'' then config_ok d else if name = ''addons'' then addons_ok d else git_ok d)"

text \<open>\<^verbatim>\<open>value.get("status") not in {...}\<close> raises when the status is a list or an object.\<close>

definition validate_component :: "string \<Rightarrow> json \<Rightarrow> (settings_error, json) result" where
  "validate_component name v = (case v of JObj d \<Rightarrow>
      (case map_of d ''status'' of
         Some (JList _) \<Rightarrow> Inl UnhashableTypeError
       | Some (JObj _) \<Rightarrow> Inl UnhashableTypeError
       | Some (JStr st) \<Rightarrow>
           (if st = ''unknown'' then
              (if set (dkeys d) \<noteq> {''status''} then Inl (AppliedSettingsError (name @ '' unknown evidence is malformed'')) else Inr v)
            else if st = ''known'' then
              (if set (dkeys d) \<noteq> known_fields name \<or> \<not> known_ok name d
               then Inl (AppliedSettingsError (name @ '' known evidence is malformed'')) else Inr v)
            else Inl (AppliedSettingsError (name @ '' evidence is malformed'')))
       | _ \<Rightarrow> Inl (AppliedSettingsError (name @ '' evidence is malformed'')))
    | _ \<Rightarrow> Inl (AppliedSettingsError (name @ '' evidence is malformed'')))"

definition component_names :: "string list" where
  "component_names = [''addons'', ''dependencies'', ''git'', ''odoo'', ''python'']"

fun validate_components :: "(string, json) dict \<Rightarrow> string list \<Rightarrow> (settings_error, (string \<times> json) list) result" where
  "validate_components d [] = Inr []"
| "validate_components d (name # names) =
     rbind (validate_component name (case map_of d name of None \<Rightarrow> JNull | Some v \<Rightarrow> v)) (\<lambda>v.
     rbind (validate_components d names) (\<lambda>vs. Inr ((name, v) # vs)))"

definition decode_applied_settings :: "string \<Rightarrow> (settings_error, json) result" where
  "decode_applied_settings raw = (case loads raw of
     None \<Rightarrow> Inl (AppliedSettingsError ''malformed applied-settings document'')
   | Some document \<Rightarrow>
       (case document of JObj d \<Rightarrow>
          (if map_of d ''version'' \<noteq> Some (JInt APPLIED_SETTINGS_VERSION)
           then Inl (AppliedSettingsError ''unsupported applied-settings version'')
           else case map_of d ''components'' of
             Some (JObj components) \<Rightarrow>
               (if set (dkeys components) \<noteq> set component_names
                then Inl (AppliedSettingsError ''malformed applied-settings components'')
                else if secret_free document ''applied_settings'' \<noteq> document
                then Inl (AppliedSettingsError ''secret-bearing applied-settings document'')
                else rbind (validate_components components component_names) (\<lambda>checked.
                  Inr (JObj [(''version'', JInt APPLIED_SETTINGS_VERSION), (''components'', JObj checked)])))
           | _ \<Rightarrow> Inl (AppliedSettingsError ''malformed applied-settings components''))
        | _ \<Rightarrow> Inl (AppliedSettingsError ''unsupported applied-settings version'')))"

section \<open>What an accepted document holds\<close>

text \<open>A component with no evidence, or with exactly its fields, each of its type.\<close>

definition component_ok :: "string \<Rightarrow> json \<Rightarrow> bool" where
  "component_ok name v = (case v of JObj d \<Rightarrow>
       (map_of d ''status'' = Some (JStr ''unknown'') \<and> set (dkeys d) = {''status''})
     \<or> (map_of d ''status'' = Some (JStr ''known'') \<and> set (dkeys d) = known_fields name \<and> known_ok name d)
   | _ \<Rightarrow> False)"

lemma validate_component_ok: "validate_component name v = Inr w \<longleftrightarrow> w = v \<and> component_ok name v"
  by (auto simp: validate_component_def component_ok_def split: json.splits option.splits if_splits)

lemma validate_components_ok:
  "validate_components d names = Inr vs \<Longrightarrow> map fst vs = names \<and> list_all (\<lambda>(name, v). component_ok name v) vs"
  by (induction names arbitrary: vs) (auto simp: validate_component_ok)


definition LEGACY_UNKNOWN_APPLIED_SETTINGS_JSON :: string where
  "LEGACY_UNKNOWN_APPLIED_SETTINGS_JSON = ''{\"components\":{\"addons\":{\"status\":\"unknown\"},\"dependencies\":{\"status\":\"unknown\"},\"git\":{\"status\":\"unknown\"},\"odoo\":{\"status\":\"unknown\"},\"python\":{\"status\":\"unknown\"}},\"version\":1}''"

lemma legacy_encoded: "encode_applied_settings frepr sha256 canonical_path no_settings = Inr LEGACY_UNKNOWN_APPLIED_SETTINGS_JSON"
  by (simp add: encode_applied_settings_def no_settings_def normalize_python_def normalize_dependencies_def
      normalize_config_def normalize_addons_def normalize_git_def) code_simp

lemma legacy_decoded: "\<exists>document. decode_applied_settings LEGACY_UNKNOWN_APPLIED_SETTINGS_JSON = Inr document"
proof -
  have "isl (decode_applied_settings LEGACY_UNKNOWN_APPLIED_SETTINGS_JSON) = False" by code_simp
  then show ?thesis by (cases "decode_applied_settings LEGACY_UNKNOWN_APPLIED_SETTINGS_JSON") auto
qed


text \<open>
  A status that is a list is not rejected with the documented error: the membership test itself
  raises.
\<close>

lemma unhashable_status:
  "decode_applied_settings ''{\"components\":{\"addons\":{\"status\":[]},\"dependencies\":{\"status\":\"unknown\"},\"git\":{\"status\":\"unknown\"},\"odoo\":{\"status\":\"unknown\"},\"python\":{\"status\":\"unknown\"}},\"version\":1}'' = Inl UnhashableTypeError"
  by code_simp

end
