(* ===== verification/Cursors.thy ===== *)
theory Cursors
  imports Json Catalog_Backup
begin

text \<open>
  The opaque page cursors of the catalogue: \<^verbatim>\<open>encode_catalog_cursor\<close> and \<^verbatim>\<open>decode_catalog_cursor\<close> of
  \<^verbatim>\<open>storage/catalog/helpers.py\<close> and the backup cursors of \<^verbatim>\<open>storage/catalog/read.py\<close>. A cursor is URL-safe
  base64 without padding of a JSON object.
\<close>

section \<open>Base64\<close>

definition b64_char :: "nat \<Rightarrow> char" where
  "b64_char n = (if n < 26 then char_of (65 + n) else if n < 52 then char_of (71 + n)
     else if n < 62 then char_of (n - 4) else if n = 62 then CHR ''-'' else CHR ''_'')"

text \<open>The URL-safe alphabet is translated to the standard one first, so both are accepted.\<close>

definition b64_value :: "char \<Rightarrow> nat option" where
  "b64_value c = (if is_upper c then Some (code c - 65) else if is_lower c then Some (code c - 71)
     else if is_digit c then Some (code c + 4) else if c \<in> set ''-+'' then Some 62
     else if c \<in> set ''_/'' then Some 63 else None)"

fun urlsafe_b64encode :: "string \<Rightarrow> string" where
  "urlsafe_b64encode [] = []"
| "urlsafe_b64encode [a] = [b64_char (code a div 4), b64_char (code a mod 4 * 16), CHR ''='', CHR ''='']"
| "urlsafe_b64encode [a, b] =
     [b64_char (code a div 4), b64_char (code a mod 4 * 16 + code b div 16), b64_char (code b mod 16 * 4), CHR ''='']"
| "urlsafe_b64encode (a # b # c # r) =
     [b64_char (code a div 4), b64_char (code a mod 4 * 16 + code b div 16),
      b64_char (code b mod 16 * 4 + code c div 64), b64_char (code c mod 64)] @ urlsafe_b64encode r"

text \<open>
  \<^verbatim>\<open>binascii.a2b_base64\<close> without strict mode: the position in a quadruple, the bits left over and the
  padding seen. Other characters are skipped, and a complete padding ends the text.
\<close>

fun a2b_base64 :: "nat \<Rightarrow> nat \<Rightarrow> nat \<Rightarrow> string \<Rightarrow> string option" where
  "a2b_base64 q l pads [] = (if q = 0 then Some [] else None)"
| "a2b_base64 q l pads (c # cs) =
     (if c = CHR ''='' then
        (if 2 \<le> q \<and> 4 \<le> q + Suc pads then Some [] else a2b_base64 q l (if 2 \<le> q then Suc pads else pads) cs)
      else case b64_value c of None \<Rightarrow> a2b_base64 q l pads cs
        | Some v \<Rightarrow>
            (if q = 0 then a2b_base64 1 v 0 cs
             else if q = 1 then map_option (Cons (char_of (l * 4 + v div 16))) (a2b_base64 2 (v mod 16) 0 cs)
             else if q = 2 then map_option (Cons (char_of (l * 16 + v div 4))) (a2b_base64 3 (v mod 4) 0 cs)
             else map_option (Cons (char_of (l * 64 + v))) (a2b_base64 0 0 0 cs)))"

definition urlsafe_b64decode :: "string \<Rightarrow> string option" where
  "urlsafe_b64decode s = (if list_all (\<lambda>c. code c < 128) s then a2b_base64 0 0 0 s else None)"

text \<open>\<^verbatim>\<open>bytes.decode("utf-8")\<close> on the encodings of code points below 256.\<close>

fun utf8_decode :: "string \<Rightarrow> string option" where
  "utf8_decode [] = Some []"
| "utf8_decode (c # cs) =
     (if code c < 128 then map_option (Cons c) (utf8_decode cs)
      else if code c \<in> {194, 195} then
        (case cs of [] \<Rightarrow> None | d # ds \<Rightarrow> if in_range 128 191 d
           then map_option (Cons (char_of ((code c - 192) * 64 + (code d - 128)))) (utf8_decode ds) else None)
      else None)"

definition strip_padding :: "string \<Rightarrow> string" where
  "strip_padding s = rstrip (\<lambda>c. c = CHR ''='') s"

definition add_padding :: "string \<Rightarrow> string" where
  "add_padding s = s @ replicate ((4 - length s mod 4) mod 4) (CHR ''='')"

section \<open>Cursors\<close>

definition cursor_payload :: "string \<Rightarrow> json option" where
  "cursor_payload cursor = Option.bind (urlsafe_b64decode (add_padding cursor)) (\<lambda>raw. Option.bind (utf8_decode raw) loads)"

definition encode_payload :: "json \<Rightarrow> string" where
  "encode_payload payload = strip_padding (urlsafe_b64encode (dumps (\<lambda>_. []) payload))"

definition bad_catalog_cursor :: catalog_error where
  "bad_catalog_cursor = BackupCatalogError ''catalog cursor is invalid''"

definition encode_catalog_cursor :: "string \<Rightarrow> string \<Rightarrow> string" where
  "encode_catalog_cursor timestamp key = encode_payload (JObj [(''key'', JStr key), (''timestamp'', JStr timestamp)])"

definition decode_catalog_cursor :: "string \<Rightarrow> (catalog_error, string \<times> string) result" where
  "decode_catalog_cursor cursor = (case cursor_payload cursor of
     Some (JObj fs) \<Rightarrow> (case (map_of fs ''timestamp'', map_of fs ''key'') of
         (Some (JStr timestamp), Some (JStr key)) \<Rightarrow> if key = [] then Inl bad_catalog_cursor else Inr (timestamp, key)
       | _ \<Rightarrow> Inl bad_catalog_cursor)
   | _ \<Rightarrow> Inl bad_catalog_cursor)"

definition bad_backup_cursor :: catalog_error where
  "bad_backup_cursor = BackupCatalogError ''Backup cursor is invalid''"

definition encode_backup_cursor :: "string \<Rightarrow> string \<Rightarrow> string" where
  "encode_backup_cursor catalogue_time backup_id =
     encode_payload (JObj [(''catalogue_time'', JStr catalogue_time), (''id'', JStr backup_id)])"

text \<open>\<^verbatim>\<open>_canonical_backup_id\<close> raises on a value that is not a string.\<close>

definition decode_backup_cursor :: "string \<Rightarrow> (catalog_error, string \<times> string) result" where
  "decode_backup_cursor cursor = (if cursor = [] then Inl bad_backup_cursor else case cursor_payload cursor of
     Some (JObj fs) \<Rightarrow> (if set (map fst fs) \<noteq> {''catalogue_time'', ''id''} then Inl bad_backup_cursor
       else case (map_of fs ''catalogue_time'', map_of fs ''id'') of
         (Some (JStr catalogue_time), Some (JStr raw)) \<Rightarrow>
           (if catalogue_time = [] then Inl bad_backup_cursor
            else case canonical_backup_id raw of Inl _ \<Rightarrow> Inl bad_backup_cursor | Inr i \<Rightarrow> Inr (catalogue_time, i))
       | _ \<Rightarrow> Inl bad_backup_cursor)
   | _ \<Rightarrow> Inl bad_backup_cursor)"

section \<open>Round trips\<close>

lemma b64_alphabet: "list_all (\<lambda>n. b64_value (b64_char n) = Some n \<and> b64_char n \<noteq> CHR ''='' \<and> code (b64_char n) < 128) [0..<64]"
  by code_simp

lemma b64_char_facts [simp]:
  assumes "n < 64"
  shows "b64_value (b64_char n) = Some n" "b64_char n \<noteq> CHR ''=''" "code (b64_char n) < 128"
  using b64_alphabet assms by (auto simp: list_all_iff)

lemma char_of_code [simp]: "char_of (code c) = c"
  by (simp add: code_def)

lemma sextets [simp]:
  "code a div 4 < 64" "code a mod 4 * 16 < 64" "code a mod 4 * 16 + code b div 16 < 64" "code b mod 16 * 4 < 64"
  "code b mod 16 * 4 + code c div 64 < 64" "code c mod 64 < 64"
proof -
  have "code x < 256" for x by (simp add: code_def)
  then have d: "code a div 4 < 64" "code b div 16 < 16" "code c div 64 < 4" by (simp_all add: less_mult_imp_div_less)
  have m: "code a mod 4 < 4" "code b mod 16 < 16" by simp_all
  show "code a div 4 < 64" "code a mod 4 * 16 < 64" "code a mod 4 * 16 + code b div 16 < 64" "code b mod 16 * 4 < 64"
    "code b mod 16 * 4 + code c div 64 < 64" "code c mod 64 < 64" using d m by linarith+
qed

lemma code_halves [simp]:
  "code b div 16 div 16 = 0" "code b div 16 mod 16 = code b div 16" "code c div 64 div 4 = 0" "code c div 64 mod 4 = code c div 64"
proof -
  have "code x < 256" for x by (simp add: code_def)
  then have "code b div 16 < 16" "code c div 64 < 4" by (simp_all add: less_mult_imp_div_less)
  then show "code b div 16 div 16 = 0" "code b div 16 mod 16 = code b div 16" "code c div 64 div 4 = 0"
    "code c div 64 mod 4 = code c div 64" by simp_all
qed

lemma a2b_encode: "a2b_base64 0 l p (urlsafe_b64encode s) = Some s"
proof (induction s arbitrary: l p rule: urlsafe_b64encode.induct)
  case (2 a)
  then show ?case by simp
next
  case (3 a b)
  then show ?case by simp
next
  case (4 a b c r)
  then show ?case by simp
qed simp

lemma encode_shape:
  "\<exists>body k. urlsafe_b64encode s = body @ replicate k (CHR ''='') \<and> CHR ''='' \<notin> set body \<and> k = (4 - length body mod 4) mod 4"
proof (induction s rule: urlsafe_b64encode.induct)
  case 1
  then show ?case by (intro exI[of _ "[]"]) simp
next
  case (2 a)
  then show ?case
    by (intro exI[of _ "[b64_char (code a div 4), b64_char (code a mod 4 * 16)]"] exI[of _ 2]) (auto simp: numeral_2_eq_2 dest: sym)
next
  case (3 a b)
  then show ?case
    by (intro exI[of _ "[b64_char (code a div 4), b64_char (code a mod 4 * 16 + code b div 16), b64_char (code b mod 16 * 4)]"] exI[of _ 1])
       (auto dest: sym)
next
  case (4 a b c r)
  then obtain body k where b: "urlsafe_b64encode r = body @ replicate k (CHR ''='')" "CHR ''='' \<notin> set body"
    "k = (4 - length body mod 4) mod 4" by blast
  then show ?case
    by (intro exI[of _ "[b64_char (code a div 4), b64_char (code a mod 4 * 16 + code b div 16),
      b64_char (code b mod 16 * 4 + code c div 64), b64_char (code c mod 64)] @ body"] exI[of _ k]) (auto dest: sym)
qed

lemma padding_roundtrip: "add_padding (strip_padding (urlsafe_b64encode s)) = urlsafe_b64encode s"
proof -
  obtain body k where b: "urlsafe_b64encode s = body @ replicate k (CHR ''='')" "CHR ''='' \<notin> set body"
    "k = (4 - length body mod 4) mod 4" using encode_shape by blast
  have "dropWhile (\<lambda>c. c = CHR ''='') (replicate k (CHR ''='') @ rev body) = rev body"
    using b(2) by (induction k; cases body rule: rev_cases) auto
  then have "strip_padding (urlsafe_b64encode s) = body" unfolding b(1) by (simp add: strip_padding_def rstrip_def)
  then show ?thesis using b by (simp add: add_padding_def)
qed

lemma encoded_ascii: "list_all (\<lambda>c. code c < 128) (urlsafe_b64encode s)"
  by (induction s rule: urlsafe_b64encode.induct) (simp_all, simp_all add: code_def)

lemma utf8_ascii: "list_all (\<lambda>c. code c < 128) s \<Longrightarrow> utf8_decode s = Some s"
  by (induction s) auto

text \<open>JSON text is ASCII.\<close>

definition ascii :: "string \<Rightarrow> bool" where
  "ascii s \<longleftrightarrow> list_all (\<lambda>c. code c < 128) s"

lemma ascii_simps [simp]: "ascii (a @ b) \<longleftrightarrow> ascii a \<and> ascii b" "ascii []" "ascii (c # s) \<longleftrightarrow> code c < 128 \<and> ascii s"
  by (auto simp: ascii_def)

lemma ascii_escape: "ascii (json_escape c)"
proof -
  have h: "code (hex_char n) < 128" if "n < 16" for n using that by (auto simp: hex_char_def code_def)
  have "ascii (hex_pad w n)" for w n by (induction w n rule: hex_pad.induct) (auto simp: h)
  moreover have "list_all (\<lambda>x. ascii [BS, x]) [DQ, BS, CHR ''n'', CHR ''r'', CHR ''t'', CHR ''f'', CHR ''b'', CHR ''u'']" by code_simp
  ultimately show ?thesis unfolding json_escape_def in_range_def by simp
qed

lemma ascii_string: "ascii (dumps_string s)"
proof -
  have "ascii (concat (map json_escape s))" by (induction s) (auto simp: ascii_escape)
  moreover have "ascii [DQ]" by code_simp
  ultimately show ?thesis by (simp add: dumps_string_def)
qed

lemma cursor_payload_encode:
  assumes "plain_json v" "ascii (dumps (\<lambda>_. []) v)"
  shows "cursor_payload (encode_payload v) = Some (sorted_json v)"
  using assms loads_dumps[OF assms(1)] a2b_encode encoded_ascii utf8_ascii
  by (simp add: cursor_payload_def encode_payload_def padding_roundtrip urlsafe_b64decode_def ascii_def)

lemma ascii_pair: "ascii (dumps (\<lambda>_. []) (JObj [(a, JStr x), (b, JStr y)]))"
proof -
  have "list_all (\<lambda>c. ascii [c]) ''{},:''" by code_simp
  then show ?thesis using ascii_string by (simp add: ascii_json.dumps_object)
qed

lemma encode_payload_nonempty: "encode_payload (JObj fs) \<noteq> []"
proof
  assume "encode_payload (JObj fs) = []"
  then have "urlsafe_b64encode (dumps (\<lambda>_. []) (JObj fs)) = []"
    using padding_roundtrip[of "dumps (\<lambda>_. []) (JObj fs)"] by (simp add: encode_payload_def add_padding_def)
  moreover have "urlsafe_b64encode (c # r) \<noteq> []" for c r by (cases "(c # r)" rule: urlsafe_b64encode.cases) auto
  ultimately show False by simp
qed

lemma cursor_pair:
  assumes "a \<le> b" "a \<noteq> b"
  shows "cursor_payload (encode_payload (JObj [(a, JStr x), (b, JStr y)])) = Some (JObj [(a, JStr x), (b, JStr y)])"
  using assms by (subst cursor_payload_encode[OF _ ascii_pair]) simp_all

lemma catalog_cursor_roundtrip:
  "key \<noteq> [] \<Longrightarrow> decode_catalog_cursor (encode_catalog_cursor timestamp key) = Inr (timestamp, key)"
proof -
  have "''key'' \<le> ''timestamp''" by code_simp
  then show "key \<noteq> [] \<Longrightarrow> ?thesis" by (simp add: decode_catalog_cursor_def encode_catalog_cursor_def cursor_pair)
qed

lemma backup_cursor_roundtrip:
  "timestamp \<noteq> [] \<Longrightarrow> canonical_backup_id i = Inr i \<Longrightarrow>
   decode_backup_cursor (encode_backup_cursor timestamp i) = Inr (timestamp, i)"
proof -
  have "''catalogue_time'' \<le> ''id''" by code_simp
  then show "timestamp \<noteq> [] \<Longrightarrow> canonical_backup_id i = Inr i \<Longrightarrow> ?thesis"
    by (simp add: decode_backup_cursor_def encode_backup_cursor_def cursor_pair encode_payload_nonempty)
qed

text \<open>
  A page cursor decodes to exactly what was encoded in it: for every non-empty timestamp text
  and key, decoding an encoded catalogue cursor returns both, and decoding an encoded backup cursor
  returns the time and the canonical identifier. A client that sends a cursor back therefore
  continues after the very row its page ended with.
\<close>

theorem cursor_roundtrip:
  assumes "key \<noteq> []" "timestamp \<noteq> []" "canonical_backup_id i = Inr i"
  shows "decode_catalog_cursor (encode_catalog_cursor timestamp key) = Inr (timestamp, key)
    \<and> decode_backup_cursor (encode_backup_cursor timestamp i) = Inr (timestamp, i)"
  using assms by (simp add: catalog_cursor_roundtrip backup_cursor_roundtrip)

theorem cursor_roundtrip_witness:
  "decode_catalog_cursor (encode_catalog_cursor ''2024-05-01 10:00:00'' ''42'') = Inr (''2024-05-01 10:00:00'', ''42'')
   \<and> decode_backup_cursor (encode_backup_cursor ''2024-05-01 10:00:00'' (sample_id (CHR ''1''))) =
       Inr (''2024-05-01 10:00:00'', sample_id (CHR ''1''))"
proof -
  have "canonical_backup_id (sample_id (CHR ''1'')) = Inr (sample_id (CHR ''1''))"
    using sample_canonical by (simp add: canonical_backup_id_eq)
  from cursor_roundtrip[OF _ _ this, of "''42''" "''2024-05-01 10:00:00''"] show ?thesis by simp
qed

end
