(* ===== verification/Catalog_Environment.thy ===== *)
theory Catalog_Environment
  imports Catalog_Restore Applied_Settings Cursors
begin

text \<open>
  Environments of the catalogue (\<^verbatim>\<open>storage/catalog/environment.py\<close>): creation, life-cycle updates, the
  copy journal, recorded events, the runtime table, and the bounded read projections.

  \<^verbatim>\<open>datetime('now')\<close> is the argument \<open>now\<close>, \<^verbatim>\<open>julianday\<close> the argument \<open>jd\<close>, and \<open>jd_at\<close> is \<^verbatim>\<open>julianday\<close> of the text
  of a UTC instant.
\<close>

section \<open>Creation\<close>

text \<open>The mapping given to \<^verbatim>\<open>create_environment\<close>; a key with a default is optional, its value may be null.\<close>

record new_environment =
  ne_id :: string
  ne_name :: string
  ne_repository_root :: string
  ne_git_common_dir :: string
  ne_branch :: string
  ne_base_ref :: string
  ne_worktree_path :: string
  ne_generated_config_path :: string
  ne_python_environment_path :: string
  ne_python_environment_owned :: bool
  ne_dependency_lock_path :: string
  ne_db_mode :: string
  ne_source_db_name :: "string option"
  ne_target_db_name :: "string option"
  ne_backup_id :: "string option"
  ne_runtime_json :: string
  ne_applied_settings_json :: "string option"
  ne_state :: string
  ne_created_at :: string
  ne_last_used_at :: "string option"
  ne_removed_at :: "string option"
  ne_last_error :: "string option"
  ne_recovery_json :: "string option"
  ne_project_id :: "string option"
  ne_checkout_repository_root :: "string option option"
  ne_checkout_git_common_dir :: "string option option"
  ne_checkout_commit_sha :: "string option"
  ne_code_ownership :: "string option"
  ne_artifact_root :: "string option option"
  ne_adoption_input_fingerprint :: "string option"

definition dict_get :: "'v option \<Rightarrow> 'v \<Rightarrow> 'v" where
  "dict_get v dflt = (case v of None \<Rightarrow> dflt | Some x \<Rightarrow> x)"

definition environment_of :: "new_environment \<Rightarrow> environment_row" where
  "environment_of env = \<lparr>e_id = ne_id env, e_name = ne_name env, e_repository_root = ne_repository_root env,
     e_git_common_dir = ne_git_common_dir env, e_branch = ne_branch env, e_base_ref = ne_base_ref env,
     e_worktree_path = ne_worktree_path env, e_generated_config_path = ne_generated_config_path env,
     e_python_environment_path = ne_python_environment_path env,
     e_python_environment_owned = (if ne_python_environment_owned env then 1 else 0),
     e_dependency_lock_path = ne_dependency_lock_path env, e_db_mode = ne_db_mode env,
     e_source_db_name = ne_source_db_name env, e_target_db_name = ne_target_db_name env,
     e_backup_id = ne_backup_id env, e_runtime_json = ne_runtime_json env, e_state = ne_state env,
     e_created_at = ne_created_at env, e_last_used_at = ne_last_used_at env, e_removed_at = ne_removed_at env,
     e_last_error = (if or_empty (ne_last_error env) = [] then None else sanitize_last_error (ne_last_error env)),
     e_recovery_json = ne_recovery_json env, e_project_id = ne_project_id env,
     e_checkout_repository_root = dict_get (ne_checkout_repository_root env) (Some (ne_repository_root env)),
     e_checkout_git_common_dir = dict_get (ne_checkout_git_common_dir env) (Some (ne_git_common_dir env)),
     e_checkout_commit_sha = ne_checkout_commit_sha env,
     e_code_ownership = dict_get (ne_code_ownership env) ''sdk_owned'',
     e_artifact_root = dict_get (ne_artifact_root env) (Some (path_parent (ne_worktree_path env))),
     e_adoption_input_fingerprint = ne_adoption_input_fingerprint env,
     e_applied_settings_json = dict_get (ne_applied_settings_json env) LEGACY_UNKNOWN_APPLIED_SETTINGS_JSON\<rparr>"

text \<open>Only \<^verbatim>\<open>AppliedSettingsError\<close> is translated.\<close>

definition require_settings :: "string \<Rightarrow> unit cat" where
  "require_settings raw = (case decode_applied_settings raw of
     Inr _ \<Rightarrow> ret ()
   | Inl (AppliedSettingsError _) \<Rightarrow> throw (BackupCatalogError ''invalid applied_settings_json'')
   | Inl UnhashableTypeError \<Rightarrow> throw (PyTypeError ''unhashable type''))"

definition create_environment :: "new_environment \<Rightarrow> unit cat" where
  "create_environment env = translate_sqlite_error
     (aseq (require_settings (e_applied_settings_json (environment_of env)))
      (aseq (dml (\<lambda>d. (d\<lparr>environments := environments d @ [environment_of env]\<rparr>, 1))) commit))"

section \<open>Life cycle\<close>

definition recovery_ok :: "string \<Rightarrow> bool" where
  "recovery_ok recovery_json \<longleftrightarrow> recovery_json \<noteq> [] \<and> length recovery_json \<le> 16384"

definition update_one_environment :: "string \<Rightarrow> (environment_row \<Rightarrow> bool) \<Rightarrow> (environment_row \<Rightarrow> environment_row)
    \<Rightarrow> string \<Rightarrow> unit cat" where
  "update_one_environment environment_id P f message =
     abind (update_environments (\<lambda>e. e_id e = environment_id \<and> P e) f) (\<lambda>rowcount.
       guard (rowcount = 1) (BackupCatalogError message))"

definition record_environment_replacement_failure ::
  "string \<Rightarrow> string \<Rightarrow> string \<Rightarrow> string \<Rightarrow> string \<Rightarrow> unit cat" where
  "record_environment_replacement_failure now environment_id recovery_json last_error message =
     translate_sqlite_error
     (aseq (guard (recovery_ok recovery_json) (BackupCatalogError ''replacement recovery is invalid''))
      (let diagnostic = sanitize_text last_error;
           diagnostic = (if diagnostic = [] then ''copy replacement cleanup failed'' else diagnostic) in
       with_conn
        (aseq (update_one_environment environment_id (\<lambda>_. True) (\<lambda>e. e\<lparr>e_state := ''cleanup_failed'',
            e_last_error := Some diagnostic, e_recovery_json := Some recovery_json\<rparr>)
            ''environment row disappeared during replacement failure'')
         (aseq (insert_environment_event environment_id ''sync'' ''failed'' now
            (sanitize_event_message (Some message))) (ret ())))))"

definition adopt_environment_replacement_recovery :: "string \<Rightarrow> string \<Rightarrow> unit cat" where
  "adopt_environment_replacement_recovery environment_id recovery_json = translate_sqlite_error
     (aseq (guard (recovery_ok recovery_json) (BackupCatalogError ''replacement recovery is invalid''))
      (with_conn (update_one_environment environment_id
         (\<lambda>e. e_state e = ''cleanup_failed'' \<and> e_recovery_json e = None)
         (\<lambda>e. e\<lparr>e_recovery_json := Some recovery_json\<rparr>)
         ''replacement recovery adoption identity changed'')))"

definition finalize_environment_checkout :: "string \<Rightarrow> string \<Rightarrow> string \<Rightarrow> unit cat" where
  "finalize_environment_checkout now environment_id applied_settings_json = translate_sqlite_error
     (aseq (require_settings applied_settings_json)
      (with_conn
        (aseq (update_one_environment environment_id (\<lambda>_. True) (\<lambda>e. e\<lparr>e_state := ''ready'',
            e_applied_settings_json := applied_settings_json\<rparr>)
            ''environment row disappeared during checkout finalization'')
         (aseq (insert_environment_event environment_id ''checkout'' ''succeeded'' now None) (ret ())))))"

definition record_environment_sync_success :: "string \<Rightarrow> string \<Rightarrow> string \<Rightarrow> unit cat" where
  "record_environment_sync_success now environment_id applied_settings_json = translate_sqlite_error
     (aseq (require_settings applied_settings_json)
      (with_conn
        (aseq (update_one_environment environment_id (\<lambda>_. True)
            (\<lambda>e. e\<lparr>e_applied_settings_json := applied_settings_json\<rparr>)
            ''environment row disappeared during sync finalization'')
         (aseq (insert_environment_event environment_id ''sync'' ''succeeded'' now None) (ret ())))))"

definition update_environment_state :: "string \<Rightarrow> string \<Rightarrow> string option \<Rightarrow> string option \<Rightarrow> unit cat" where
  "update_environment_state environment_id state last_error removed_at = translate_sqlite_error
     (aseq (update_environments (\<lambda>e. e_id e = environment_id) (\<lambda>e.
         let e = e\<lparr>e_state := state\<rparr>;
             e = (case last_error of None \<Rightarrow> e | Some m \<Rightarrow> e\<lparr>e_last_error := sanitize_last_error (Some m)\<rparr>)
         in (case removed_at of None \<Rightarrow> e | Some t \<Rightarrow> e\<lparr>e_removed_at := Some t\<rparr>))) commit)"

text \<open>One column assignment of \<^verbatim>\<open>update_environment\<close>. The identifier column is always left as it is.\<close>

datatype environment_column =
    Set_name string
  | Set_repository_root string
  | Set_git_common_dir string
  | Set_branch string
  | Set_base_ref string
  | Set_worktree_path string
  | Set_generated_config_path string
  | Set_python_environment_path string
  | Set_python_environment_owned int
  | Set_dependency_lock_path string
  | Set_db_mode string
  | Set_source_db_name "string option"
  | Set_target_db_name "string option"
  | Set_backup_id "string option"
  | Set_runtime_json string
  | Set_state string
  | Set_created_at string
  | Set_last_used_at "string option"
  | Set_removed_at "string option"
  | Set_last_error "string option"
  | Set_recovery_json "string option"
  | Set_project_id "string option"
  | Set_checkout_repository_root "string option"
  | Set_checkout_git_common_dir "string option"
  | Set_checkout_commit_sha "string option"
  | Set_code_ownership string
  | Set_artifact_root "string option"
  | Set_adoption_input_fingerprint "string option"
  | Set_applied_settings_json string

fun set_column :: "environment_column \<Rightarrow> environment_row \<Rightarrow> environment_row" where
  "set_column (Set_name v) e = e\<lparr>e_name := v\<rparr>"
| "set_column (Set_repository_root v) e = e\<lparr>e_repository_root := v\<rparr>"
| "set_column (Set_git_common_dir v) e = e\<lparr>e_git_common_dir := v\<rparr>"
| "set_column (Set_branch v) e = e\<lparr>e_branch := v\<rparr>"
| "set_column (Set_base_ref v) e = e\<lparr>e_base_ref := v\<rparr>"
| "set_column (Set_worktree_path v) e = e\<lparr>e_worktree_path := v\<rparr>"
| "set_column (Set_generated_config_path v) e = e\<lparr>e_generated_config_path := v\<rparr>"
| "set_column (Set_python_environment_path v) e = e\<lparr>e_python_environment_path := v\<rparr>"
| "set_column (Set_python_environment_owned v) e = e\<lparr>e_python_environment_owned := v\<rparr>"
| "set_column (Set_dependency_lock_path v) e = e\<lparr>e_dependency_lock_path := v\<rparr>"
| "set_column (Set_db_mode v) e = e\<lparr>e_db_mode := v\<rparr>"
| "set_column (Set_source_db_name v) e = e\<lparr>e_source_db_name := v\<rparr>"
| "set_column (Set_target_db_name v) e = e\<lparr>e_target_db_name := v\<rparr>"
| "set_column (Set_backup_id v) e = e\<lparr>e_backup_id := v\<rparr>"
| "set_column (Set_runtime_json v) e = e\<lparr>e_runtime_json := v\<rparr>"
| "set_column (Set_state v) e = e\<lparr>e_state := v\<rparr>"
| "set_column (Set_created_at v) e = e\<lparr>e_created_at := v\<rparr>"
| "set_column (Set_last_used_at v) e = e\<lparr>e_last_used_at := v\<rparr>"
| "set_column (Set_removed_at v) e = e\<lparr>e_removed_at := v\<rparr>"
| "set_column (Set_last_error v) e = e\<lparr>e_last_error := v\<rparr>"
| "set_column (Set_recovery_json v) e = e\<lparr>e_recovery_json := v\<rparr>"
| "set_column (Set_project_id v) e = e\<lparr>e_project_id := v\<rparr>"
| "set_column (Set_checkout_repository_root v) e = e\<lparr>e_checkout_repository_root := v\<rparr>"
| "set_column (Set_checkout_git_common_dir v) e = e\<lparr>e_checkout_git_common_dir := v\<rparr>"
| "set_column (Set_checkout_commit_sha v) e = e\<lparr>e_checkout_commit_sha := v\<rparr>"
| "set_column (Set_code_ownership v) e = e\<lparr>e_code_ownership := v\<rparr>"
| "set_column (Set_artifact_root v) e = e\<lparr>e_artifact_root := v\<rparr>"
| "set_column (Set_adoption_input_fingerprint v) e = e\<lparr>e_adoption_input_fingerprint := v\<rparr>"
| "set_column (Set_applied_settings_json v) e = e\<lparr>e_applied_settings_json := v\<rparr>"

definition mutable_field :: "environment_column \<Rightarrow> environment_column" where
  "mutable_field f = (case f of Set_last_error (Some m) \<Rightarrow> Set_last_error (sanitize_last_error (Some m)) | _ \<Rightarrow> f)"

definition update_environment :: "string \<Rightarrow> environment_column list \<Rightarrow> unit cat" where
  "update_environment environment_id fields_map = translate_sqlite_error
     (if fields_map = [] then ret ()
      else aseq (update_environments (\<lambda>e. e_id e = environment_id) (fold (set_column \<circ> mutable_field) fields_map)) commit)"

definition record_environment_use :: "string \<Rightarrow> string \<Rightarrow> string \<Rightarrow> unit cat" where
  "record_environment_use now environment_id last_used_at = translate_sqlite_error
     (with_conn
        (aseq (update_environments (\<lambda>e. e_id e = environment_id) (\<lambda>e. e\<lparr>e_last_used_at := Some last_used_at\<rparr>))
         (aseq (insert_environment_event environment_id ''use'' ''succeeded'' now None) (ret ()))))"

definition add_environment_event :: "string \<Rightarrow> string \<Rightarrow> string \<Rightarrow> string \<Rightarrow> string option \<Rightarrow> unit cat" where
  "add_environment_event now environment_id operation outcome message = translate_sqlite_error
     (aseq (insert_environment_event environment_id operation outcome now (sanitize_event_message message)) commit)"

section \<open>Lookups and listings\<close>

definition get_environment :: "string \<Rightarrow> environment_row option cat" where
  "get_environment environment_id = translate_sqlite_error (query_db (find_environment environment_id))"

definition registered :: "project_row \<Rightarrow> bool" where
  "registered p \<longleftrightarrow> pr_registration_state p = ''registered''"

definition same_repository :: "environment_row \<Rightarrow> project_row \<Rightarrow> bool" where
  "same_repository e p \<longleftrightarrow> pr_repository_root p = e_repository_root e \<and> pr_git_common_dir p = e_git_common_dir e"

text \<open>An environment is hidden while the project it belongs to is forgotten.\<close>

definition environment_visible :: "catalog_db \<Rightarrow> environment_row \<Rightarrow> bool" where
  "environment_visible d e = (case e_project_id e of
     Some i \<Rightarrow> list_ex (\<lambda>p. pr_project_id p = i \<and> registered p) (projects d)
   | None \<Rightarrow> \<not> list_ex (same_repository e) (projects d)
       \<or> list_ex (\<lambda>p. same_repository e p \<and> registered p) (projects d))"

definition owned_by_project :: "catalog_db \<Rightarrow> string \<Rightarrow> environment_row \<Rightarrow> bool" where
  "owned_by_project d project_id e \<longleftrightarrow>
     (e_project_id e = Some project_id \<and> list_ex (\<lambda>p. pr_project_id p = project_id \<and> registered p) (projects d))
     \<or> (e_project_id e = None \<and> list_ex (\<lambda>p. pr_project_id p = project_id \<and> same_repository e p \<and> registered p) (projects d))"

definition legacy_owner :: "host_fs \<Rightarrow> string option \<Rightarrow> string option \<Rightarrow> string \<Rightarrow> environment_row \<Rightarrow> bool" where
  "legacy_owner fs repository_root git_common_dir project_id e = (case (repository_root, git_common_dir) of
     (Some rt, Some common) \<Rightarrow> project_identity fs rt common = project_id
       \<and> e_project_id e = None \<and> e_repository_root e = rt \<and> e_git_common_dir e = common
   | _ \<Rightarrow> False)"

definition environment_recent :: "environment_row \<Rightarrow> environment_row \<Rightarrow> bool" where
  "environment_recent x y \<longleftrightarrow> (e_created_at y, e_id y) \<le> (e_created_at x, e_id x)"

definition list_environments :: "host_fs \<Rightarrow> string option \<Rightarrow> string option \<Rightarrow> string option \<Rightarrow> bool
    \<Rightarrow> environment_row list cat" where
  "list_environments fs git_common_dir repository_root project_id include_removed = translate_sqlite_error
     (query_db (\<lambda>d. order_by environment_recent (filter (\<lambda>e. environment_visible d e
        \<and> (case (git_common_dir, project_id) of
             (Some common, None) \<Rightarrow> e_git_common_dir e = common
           | (Some common, Some p) \<Rightarrow> owned_by_project d p e \<or> legacy_owner fs repository_root git_common_dir p e
           | (None, Some p) \<Rightarrow> e_project_id e = Some p
               \<and> list_ex (\<lambda>x. pr_project_id x = p \<and> registered x) (projects d)
           | (None, None) \<Rightarrow> True)
        \<and> (include_removed \<or> e_state e \<noteq> ''removed'')) (environments d))))"

definition active_environment_for :: "string \<Rightarrow> string \<Rightarrow> environment_row option cat" where
  "active_environment_for git_common_dir branch = translate_sqlite_error
     (query_db (\<lambda>d. fetchone (order_by (\<lambda>x y. e_created_at y \<le> e_created_at x) (filter (\<lambda>e.
        e_git_common_dir e = git_common_dir \<and> e_branch e = branch \<and> e_state e \<noteq> ''removed'') (environments d)))))"

definition adopted_environment_for :: "string \<Rightarrow> string \<Rightarrow> string \<Rightarrow> environment_row option cat" where
  "adopted_environment_for project_id checkout_path checkout_git_common_dir = translate_sqlite_error
     (query_db (\<lambda>d. fetchone (order_by environment_recent (filter (\<lambda>e. e_project_id e = Some project_id
        \<and> e_worktree_path e = checkout_path \<and> e_checkout_git_common_dir e = Some checkout_git_common_dir
        \<and> e_state e \<noteq> ''removed'') (environments d)))))"

definition get_project :: "string \<Rightarrow> project_row option cat" where
  "get_project project_id = translate_sqlite_error (query_db (find_project project_id))"

definition get_project_for_lifecycle :: "string \<Rightarrow> project_row option cat" where
  "get_project_for_lifecycle project_id = get_project project_id"

section \<open>The copy journal\<close>

datatype copy_journal_stage = PREPARED | BACKED_UP | RESTORE_PENDING | RESTORED | DROPPED | BACKUP_DELETED

fun stage_value :: "copy_journal_stage \<Rightarrow> string" where
  "stage_value PREPARED = ''prepared''"
| "stage_value BACKED_UP = ''backed_up''"
| "stage_value RESTORE_PENDING = ''restore_pending''"
| "stage_value RESTORED = ''restored''"
| "stage_value DROPPED = ''dropped''"
| "stage_value BACKUP_DELETED = ''backup_deleted''"

definition upsert_row :: "('r \<Rightarrow> 'k) \<Rightarrow> 'r \<Rightarrow> 'r list \<Rightarrow> 'r list" where
  "upsert_row key row rows = (if key row \<in> set (map key rows)
     then update_rows (\<lambda>r. key r = key row) (\<lambda>_. row) rows else rows @ [row])"

definition upsert_copy_journal :: "string \<Rightarrow> string \<Rightarrow> string \<Rightarrow> string option \<Rightarrow> int \<Rightarrow> string option
    \<Rightarrow> string option \<Rightarrow> copy_journal_stage \<Rightarrow> string \<Rightarrow> unit cat" where
  "upsert_copy_journal now environment_id target_database db_host db_port db_user backup_id stage
     backup_ownership = translate_sqlite_error
     (aseq (guard (backup_ownership \<in> {''owned'', ''borrowed'', ''unknown''})
        (PyValueError ''backup_ownership must be owned, borrowed, or unknown''))
      (aseq (dml (\<lambda>d. (d\<lparr>copy_journal := upsert_row cj_environment_id
         \<lparr>cj_environment_id = environment_id, cj_target_database = target_database,
          cj_db_host = normalize_db_host db_host, cj_db_port = db_port, cj_db_user = db_user,
          cj_backup_id = backup_id, cj_backup_ownership = Some backup_ownership,
          cj_stage = stage_value stage, cj_updated_at = now\<rparr> (copy_journal d)\<rparr>, 1))) commit))"

definition get_copy_journal :: "string \<Rightarrow> copy_journal_row option cat" where
  "get_copy_journal environment_id = translate_sqlite_error
     (query_db (\<lambda>d. fetchone (filter (\<lambda>j. cj_environment_id j = environment_id) (copy_journal d))))"

definition is_owned_copy_backup :: "string \<Rightarrow> bool cat" where
  "is_owned_copy_backup backup_id = translate_sqlite_error
     (query_db (\<lambda>d. list_ex (\<lambda>j. cj_backup_id j = Some backup_id \<and> cj_backup_ownership j = Some ''owned''
        \<and> cj_stage j \<noteq> ''backup_deleted''
        \<and> list_ex (\<lambda>e. e_id e = cj_environment_id j \<and> e_state e = ''removing'') (environments d)) (copy_journal d)))"

section \<open>Runtimes\<close>

definition owner_kind_ok :: "string \<Rightarrow> bool" where
  "owner_kind_ok owner_kind \<longleftrightarrow> owner_kind \<in> {''environment'', ''project''}"

definition bad_owner :: catalog_error where
  "bad_owner = BackupCatalogError ''runtime owner must be exactly environment or project''"

definition runtime_of :: "string \<Rightarrow> string \<Rightarrow> runtime_row \<Rightarrow> bool" where
  "runtime_of owner_kind owner_id r \<longleftrightarrow> rt_owner_kind r = owner_kind \<and> rt_owner_id r = owner_id"

definition get_runtime :: "string \<Rightarrow> string \<Rightarrow> runtime_row option cat" where
  "get_runtime owner_kind owner_id = translate_sqlite_error
     (aseq (guard (owner_kind_ok owner_kind) bad_owner)
        (query_db (\<lambda>d. fetchone (filter (runtime_of owner_kind owner_id) (runtime d)))))"

text \<open>The view \<^verbatim>\<open>environment_runtime\<close> holds the runtimes of environments.\<close>

definition get_environment_runtime :: "string \<Rightarrow> runtime_row option cat" where
  "get_environment_runtime environment_id = translate_sqlite_error
     (query_db (\<lambda>d. fetchone (filter (runtime_of ''environment'' environment_id) (runtime d))))"

definition list_environment_runtimes :: "runtime_row list cat" where
  "list_environment_runtimes = translate_sqlite_error
     (query_db (\<lambda>d. order_by (\<lambda>x y. rt_owner_id x \<le> rt_owner_id y)
        (filter (\<lambda>r. rt_owner_kind r = ''environment'') (runtime d))))"

definition upsert_runtime :: "runtime_row \<Rightarrow> unit cat" where
  "upsert_runtime row = translate_sqlite_error
     (let owner_kind = rt_owner_kind row; owner_id = rt_owner_id row in
      aseq (guard (owner_kind_ok owner_kind \<and> \<not> blank owner_id) bad_owner)
      (aseq (if owner_kind = ''environment''
         then abind (get_environment owner_id) (\<lambda>e.
           guard (e \<noteq> None) (BackupCatalogError (''runtime environment does not exist: '' @ owner_id)))
         else abind (query_db (find_project owner_id)) (\<lambda>p.
           guard (p \<noteq> None) (BackupCatalogError (''runtime project is not registered: '' @ owner_id))))
      (aseq (dml (\<lambda>d. (d\<lparr>runtime := upsert_row (\<lambda>r. (rt_owner_kind r, rt_owner_id r)) row (runtime d)\<rparr>, 1)))
        commit)))"

definition delete_runtime :: "(runtime_row \<Rightarrow> bool) \<Rightarrow> nat cat" where
  "delete_runtime P = dml (\<lambda>d. (d\<lparr>runtime := delete_rows P (runtime d)\<rparr>, count_rows P (runtime d)))"

definition clear_runtime :: "string \<Rightarrow> string \<Rightarrow> unit cat" where
  "clear_runtime owner_kind owner_id = translate_sqlite_error
     (aseq (guard (owner_kind_ok owner_kind) bad_owner)
      (aseq (delete_runtime (runtime_of owner_kind owner_id)) commit))"

definition upsert_environment_runtime :: "runtime_row \<Rightarrow> unit cat" where
  "upsert_environment_runtime row = translate_sqlite_error (upsert_runtime (row\<lparr>rt_owner_kind := ''environment''\<rparr>))"

definition clear_environment_runtime :: "string \<Rightarrow> unit cat" where
  "clear_environment_runtime environment_id = translate_sqlite_error (clear_runtime ''environment'' environment_id)"

definition clear_runtime_if_matches :: "string \<Rightarrow> string \<Rightarrow> int \<Rightarrow> rat \<Rightarrow> string option \<Rightarrow> bool cat" where
  "clear_runtime_if_matches owner_kind owner_id root_pid create_time launch_identity_json =
     translate_sqlite_error
     (aseq (guard (owner_kind_ok owner_kind) bad_owner)
      (abind (with_conn (delete_runtime (\<lambda>r. runtime_of owner_kind owner_id r \<and> rt_root_pid r = root_pid
          \<and> rt_create_time r = create_time \<and> rt_launch_identity_json r = launch_identity_json)))
        (\<lambda>rowcount. ret (rowcount = 1))))"

definition clear_environment_runtime_if_matches :: "string \<Rightarrow> int \<Rightarrow> rat \<Rightarrow> bool cat" where
  "clear_environment_runtime_if_matches environment_id root_pid create_time = translate_sqlite_error
     (clear_runtime_if_matches ''environment'' environment_id root_pid create_time None)"

section \<open>The monitor snapshot\<close>

record monitor_snapshot =
  ms_environments :: "(environment_row \<times> backup_row option \<times> runtime_row option) list"
  ms_projects :: "project_row list"
  ms_project_runtimes :: "runtime_row list"
  ms_backups :: "backup_row list"

definition snapshot_environments :: "host_fs \<Rightarrow> bool \<Rightarrow> string option \<Rightarrow> string option \<Rightarrow> string option
    \<Rightarrow> catalog_db \<Rightarrow> environment_row list" where
  "snapshot_environments fs include_removed project_id repository_root git_common_dir d =
     order_by environment_recent (filter (\<lambda>e. environment_visible d e
       \<and> (include_removed \<or> e_state e \<noteq> ''removed'')
       \<and> (case project_id of None \<Rightarrow> True
          | Some p \<Rightarrow> owned_by_project d p e \<or> legacy_owner fs repository_root git_common_dir p e)) (environments d))"

definition snapshot_runtimes :: "string option \<Rightarrow> environment_row list \<Rightarrow> catalog_db \<Rightarrow> runtime_row list" where
  "snapshot_runtimes project_id envs d = order_by (\<lambda>x y. rt_owner_id x \<le> rt_owner_id y) (filter (\<lambda>r.
     rt_owner_kind r = ''environment'' \<and> (case project_id of
       None \<Rightarrow> (case find_environment (rt_owner_id r) d of None \<Rightarrow> True | Some e \<Rightarrow> environment_visible d e)
     | Some _ \<Rightarrow> rt_owner_id r \<in> set (map e_id envs))) (runtime d))"

definition monitor_snapshot_rows :: "host_fs \<Rightarrow> bool \<Rightarrow> string option \<Rightarrow> string option \<Rightarrow> string option
    \<Rightarrow> monitor_snapshot cat" where
  "monitor_snapshot_rows fs include_removed project_id repository_root git_common_dir = translate_sqlite_error
     (aseq begin_tx (abind (query_db (\<lambda>d.
       let envs = snapshot_environments fs include_removed project_id repository_root git_common_dir d;
           runtimes = snapshot_runtimes project_id envs d;
           reg = (\<lambda>i. list_ex (\<lambda>p. pr_project_id p = i \<and> registered p) (projects d))
       in \<lparr>ms_environments = map (\<lambda>e. (e, Option.bind (e_backup_id e) (\<lambda>b. find_backup b d),
               find (\<lambda>r. rt_owner_id r = e_id e) (rev runtimes))) envs,
           ms_projects = order_by (\<lambda>x y. pr_project_id x \<le> pr_project_id y) (filter (\<lambda>p. registered p
               \<and> matches_opt project_id (pr_project_id p)) (projects d)),
           ms_project_runtimes = order_by (\<lambda>x y. rt_owner_id x \<le> rt_owner_id y) (filter (\<lambda>r.
               rt_owner_kind r = ''project'' \<and> matches_opt project_id (rt_owner_id r) \<and> reg (rt_owner_id r)) (runtime d)),
           ms_backups = (case project_id of
               None \<Rightarrow> order_by (\<lambda>x y. (or_empty (b_project_id x), b_id x) \<le> (or_empty (b_project_id y), b_id y))
                 (filter (\<lambda>b. case b_project_id b of None \<Rightarrow> False | Some i \<Rightarrow> reg i) (backups d))
             | Some p \<Rightarrow> order_by (\<lambda>x y. b_id x \<le> b_id y) (filter (\<lambda>b. b_project_id b = Some p) (backups d)))\<rparr>))
       (\<lambda>snap. aseq commit (ret snap))))"

definition list_environments_with_runtimes :: "host_fs \<Rightarrow> bool
    \<Rightarrow> (environment_row \<times> backup_row option \<times> runtime_row option) list cat" where
  "list_environments_with_runtimes fs include_removed = translate_sqlite_error
     (abind (monitor_snapshot_rows fs include_removed None None None) (\<lambda>snap. ret (ms_environments snap)))"

section \<open>Bounded read projections\<close>

definition catalogue_datetime :: "string \<Rightarrow> string \<Rightarrow> (catalog_error, int) result" where
  "catalogue_datetime value field =
     (if blank value then Inl (BackupCatalogError (field @ '' is invalid''))
      else case fromisoformat value of None \<Rightarrow> Inl (BackupCatalogError (field @ '' is invalid''))
        | Some parsed \<Rightarrow> Inr (utc_us parsed))"

definition optional_instant :: "py_datetime option \<Rightarrow> string \<Rightarrow> (catalog_error, int option) result" where
  "optional_instant value field = (case value of None \<Rightarrow> Inr None
     | Some t \<Rightarrow> rbind (catalogue_datetime (isoformat t) field) (\<lambda>v. Inr (Some v)))"

definition in_window :: "julian \<Rightarrow> (int \<Rightarrow> int) \<Rightarrow> int option \<Rightarrow> int option \<Rightarrow> string \<Rightarrow> bool" where
  "in_window jd jd_at after_value before_value t \<longleftrightarrow>
     (case after_value of None \<Rightarrow> True | Some a \<Rightarrow> (case jd t of None \<Rightarrow> False | Some v \<Rightarrow> jd_at a \<le> v))
     \<and> (case before_value of None \<Rightarrow> True | Some b \<Rightarrow> (case jd t of None \<Rightarrow> False | Some v \<Rightarrow> v \<le> jd_at b))"

definition range_ok :: "int option \<Rightarrow> int option \<Rightarrow> bool" where
  "range_ok after_value before_value = (case (after_value, before_value) of (Some a, Some b) \<Rightarrow> a \<le> b | _ \<Rightarrow> True)"

record incomplete_row =
  io_object_type :: string
  io_object_id :: string
  io_state :: string
  io_occurred_at :: string
  io_error :: "string option"
  io_sequence :: nat
  io_cursor_key :: string

text \<open>Rows are never deleted from these tables, so a \<^verbatim>\<open>rowid\<close> is the position of its row, from one.\<close>

definition incomplete_backups :: "catalog_db \<Rightarrow> incomplete_row list" where
  "incomplete_backups d = List.map_filter (\<lambda>(i, b).
     if b_state b \<in> {''downloading'', ''failed''}
     then Some \<lparr>io_object_type = ''backup'', io_object_id = b_id b, io_state = b_state b,
       io_occurred_at = dict_get (b_failed_at b) (b_started_at b), io_error = b_error_message b,
       io_sequence = i, io_cursor_key = ''backup:'' @ b_id b\<rparr>
     else None) (enumerate 1 (backups d))"

definition incomplete_restores :: "catalog_db \<Rightarrow> incomplete_row list" where
  "incomplete_restores d = List.map_filter (\<lambda>r.
     if r_state r = ''incomplete''
     then Some \<lparr>io_object_type = ''restore'', io_object_id = show_nat (r_sequence r), io_state = r_state r,
       io_occurred_at = r_restored_at r, io_error = None, io_sequence = r_sequence r,
       io_cursor_key = ''restore:'' @ show_nat (r_sequence r)\<rparr>
     else None) (restores d)"

definition incomplete_environments :: "catalog_db \<Rightarrow> incomplete_row list" where
  "incomplete_environments d = List.map_filter (\<lambda>(i, e).
     if e_state e \<notin> {''ready'', ''removed''} \<or> e_last_error e \<noteq> None \<or> e_recovery_json e \<noteq> None
     then Some \<lparr>io_object_type = ''environment'', io_object_id = e_id e, io_state = e_state e,
       io_occurred_at = dict_get (e_last_used_at e) (e_created_at e), io_error = e_last_error e,
       io_sequence = i, io_cursor_key = ''environment:'' @ e_id e\<rparr>
     else None) (enumerate 1 (environments d))"

definition incomplete_rows :: "julian \<Rightarrow> (int \<Rightarrow> int) \<Rightarrow> string option \<Rightarrow> string option \<Rightarrow> int option \<Rightarrow> int option
    \<Rightarrow> catalog_db \<Rightarrow> incomplete_row list" where
  "incomplete_rows jd jd_at object_type state after_value before_value d = filter (\<lambda>r.
     matches_opt object_type (io_object_type r) \<and> matches_opt state (io_state r)
     \<and> in_window jd jd_at after_value before_value (io_occurred_at r))
     (incomplete_backups d @ incomplete_restores d @ incomplete_environments d)"

definition decode_cursor :: "string option \<Rightarrow> (catalog_error, (string \<times> string) option) result" where
  "decode_cursor cursor = (case cursor of None \<Rightarrow> Inr None | Some c \<Rightarrow> rbind (decode_catalog_cursor c) (\<lambda>p. Inr (Some p)))"

definition encode_cursor :: "(string \<times> string) option \<Rightarrow> string option" where
  "encode_cursor next_key = map_option (\<lambda>(t, k). encode_catalog_cursor t k) next_key"

record incomplete_operation =
  op_sequence :: nat
  op_object_type :: string
  op_object_id :: string
  op_state :: string
  op_occurred_at :: int
  op_error :: "string option"

definition safe_or_unknown :: "string \<Rightarrow> string" where
  "safe_or_unknown t = (let s = sanitize_text t in if s = [] then ''unknown'' else s)"

definition incomplete_operation_of :: "incomplete_row \<Rightarrow> (catalog_error, incomplete_operation) result" where
  "incomplete_operation_of r = rbind (catalogue_datetime (io_occurred_at r) ''incomplete operation time'') (\<lambda>t.
     Inr \<lparr>op_sequence = io_sequence r, op_object_type = io_object_type r,
       op_object_id = safe_or_unknown (io_object_id r), op_state = io_state r, op_occurred_at = t,
       op_error = sanitize_last_error (io_error r)\<rparr>)"

definition list_incomplete_operations :: "julian \<Rightarrow> (int \<Rightarrow> int) \<Rightarrow> string option \<Rightarrow> string option
    \<Rightarrow> py_datetime option \<Rightarrow> py_datetime option \<Rightarrow> int \<Rightarrow> string option
    \<Rightarrow> (incomplete_operation list \<times> string option) cat" where
  "list_incomplete_operations jd jd_at object_type state occurred_after occurred_before limit cursor =
     translate_sqlite_error
     (aseq (guard (1 \<le> limit \<and> limit \<le> 1000)
        (BackupCatalogError ''Incomplete operation limit must be between 1 and 1000''))
      (aseq (guard (object_type \<in> {None, Some ''backup'', Some ''restore'', Some ''environment''})
        (BackupCatalogError ''incomplete operation type is invalid''))
      (aseq (guard (state \<in> {None, Some ''downloading'', Some ''failed'', Some ''incomplete'', Some ''creating'',
           Some ''removing'', Some ''cleanup_failed''})
        (BackupCatalogError ''incomplete operation state is invalid''))
      (abind (lift_result (optional_instant occurred_after ''occurred_after'')) (\<lambda>after_value.
       abind (lift_result (optional_instant occurred_before ''occurred_before'')) (\<lambda>before_value.
       aseq (guard (range_ok after_value before_value) (BackupCatalogError ''occurred date range is invalid''))
       (abind (lift_result (decode_cursor cursor)) (\<lambda>after_key.
        abind (query_db (\<lambda>d. julian_page jd True io_occurred_at io_cursor_key
          (incomplete_rows jd jd_at object_type state after_value before_value d) (nat limit) after_key))
        (\<lambda>(page, next_key). abind (lift_result (decode_each incomplete_operation_of page))
          (\<lambda>items. ret (items, encode_cursor next_key)))))))))))"

record history_row =
  hr_event :: environment_event_row
  hr_environment :: environment_row

definition history_rows :: "julian \<Rightarrow> (int \<Rightarrow> int) \<Rightarrow> string option \<Rightarrow> string option \<Rightarrow> string option \<Rightarrow> string option
    \<Rightarrow> int option \<Rightarrow> int option \<Rightarrow> catalog_db \<Rightarrow> history_row list" where
  "history_rows jd jd_at environment_id project_id operation outcome after_value before_value d =
     filter (\<lambda>h. matches_opt environment_id (ee_environment_id (hr_event h))
       \<and> (project_id = None \<or> e_project_id (hr_environment h) = project_id)
       \<and> matches_opt operation (ee_operation (hr_event h)) \<and> matches_opt outcome (ee_outcome (hr_event h))
       \<and> in_window jd jd_at after_value before_value (ee_occurred_at (hr_event h)))
     (concat (map (\<lambda>ee. map (\<lambda>e. \<lparr>hr_event = ee, hr_environment = e\<rparr>)
       (filter (\<lambda>e. e_id e = ee_environment_id ee) (environments d))) (environment_events d)))"

record history_event =
  he_sequence :: nat
  he_environment_id :: string
  he_environment_name :: string
  he_project_id :: "string option"
  he_occurred_at :: int
  he_operation :: string
  he_outcome :: string
  he_state :: string
  he_message :: "string option"

definition history_event_of :: "history_row \<Rightarrow> (catalog_error, history_event) result" where
  "history_event_of h = (let ee = hr_event h; e = hr_environment h in
     rbind (catalogue_datetime (ee_occurred_at ee) ''environment event time'') (\<lambda>t.
     Inr \<lparr>he_sequence = ee_sequence ee, he_environment_id = safe_or_unknown (ee_environment_id ee),
       he_environment_name = safe_or_unknown (e_name e), he_project_id = sanitize_last_error (e_project_id e),
       he_occurred_at = t, he_operation = ee_operation ee, he_outcome = ee_outcome ee, he_state = e_state e,
       he_message = sanitize_event_message (ee_message ee)\<rparr>))"

text \<open>
  The key of a history cursor is bound as text; compared with a number, decimal text is a number and
  other text is greater than every number. Signs, fractions and exponents, which no encoder writes,
  are taken as other text.
\<close>

definition sequence_bound :: "catalog_db \<Rightarrow> string \<Rightarrow> nat" where
  "sequence_bound d key = (if key \<noteq> [] \<and> list_all is_digit key then digits_val key
     else next_sequence ee_sequence (environment_events d))"

definition list_environment_history :: "julian \<Rightarrow> (int \<Rightarrow> int) \<Rightarrow> string option \<Rightarrow> string option \<Rightarrow> string option
    \<Rightarrow> string option \<Rightarrow> py_datetime option \<Rightarrow> py_datetime option \<Rightarrow> int \<Rightarrow> string option
    \<Rightarrow> (history_event list \<times> string option) cat" where
  "list_environment_history jd jd_at environment_id project_id operation outcome occurred_after occurred_before
     limit cursor = translate_sqlite_error
     (aseq (guard (1 \<le> limit \<and> limit \<le> 1000)
        (BackupCatalogError ''Environment history limit must be between 1 and 1000''))
      (aseq (guard (operation \<in> {None, Some ''checkout'', Some ''sync'', Some ''use'', Some ''shell'', Some ''remove''})
        (BackupCatalogError ''environment history operation is invalid''))
      (aseq (guard (outcome \<in> {None, Some ''started'', Some ''succeeded'', Some ''failed''})
        (BackupCatalogError ''environment history outcome is invalid''))
      (abind (lift_result (optional_instant occurred_after ''occurred_after'')) (\<lambda>after_value.
       abind (lift_result (optional_instant occurred_before ''occurred_before'')) (\<lambda>before_value.
       aseq (guard (range_ok after_value before_value) (BackupCatalogError ''occurred date range is invalid''))
       (abind (lift_result (decode_cursor cursor)) (\<lambda>after_key.
        abind (query_db (\<lambda>d. julian_page jd True (\<lambda>h. ee_occurred_at (hr_event h)) (\<lambda>h. ee_sequence (hr_event h))
          (history_rows jd jd_at environment_id project_id operation outcome after_value before_value d)
          (nat limit) (map_option (\<lambda>(t, k). (t, sequence_bound d k)) after_key)))
        (\<lambda>(page, next_key). abind (lift_result (decode_each history_event_of page))
          (\<lambda>items. ret (items, encode_cursor (map_option (\<lambda>(t, n). (t, show_nat n)) next_key))))))))))))"

section \<open>The contract of the operations\<close>

lemma obeys_require_settings: "obeys uncommitted (require_settings raw)"
  unfolding require_settings_def
  by (auto intro: op_rules split: sum.split settings_error.split)

lemma obeys_update_one: "obeys uncommitted (update_one_environment i P f m)"
  unfolding update_one_environment_def by (intro op_rules restore_rules)

lemma obeys_delete_runtime: "obeys uncommitted (delete_runtime P)"
  unfolding delete_runtime_def by (rule obeys_dml)

lemma obeys_get_environment: "obeys uncommitted (get_environment i)"
  unfolding get_environment_def by (intro op_rules)

lemmas environment_rules = restore_rules obeys_require_settings obeys_update_one obeys_delete_runtime
  obeys_get_environment

lemma op_ok_environment:
  "op_ok (create_environment env)"
  "op_ok (record_environment_replacement_failure now i rj le m)"
  "op_ok (adopt_environment_replacement_recovery i rj)"
  "op_ok (finalize_environment_checkout now i js)"
  "op_ok (record_environment_sync_success now i js)"
  "op_ok (update_environment_state i st lm ra)"
  "op_ok (update_environment i fs)"
  "op_ok (record_environment_use now i t)"
  "op_ok (add_environment_event now i oper oc em)"
  unfolding create_environment_def record_environment_replacement_failure_def
    adopt_environment_replacement_recovery_def finalize_environment_checkout_def
    record_environment_sync_success_def update_environment_state_def update_environment_def
    record_environment_use_def add_environment_event_def Let_def
  by (intro op_rules environment_rules)+

lemma op_ok_runtime:
  "op_ok (upsert_copy_journal now i t h p u b st ow)"
  "op_ok (upsert_runtime row)"
  "op_ok (clear_runtime k i)"
  "op_ok (clear_runtime_if_matches k i pid ct lj)"
  unfolding upsert_copy_journal_def upsert_runtime_def clear_runtime_def clear_runtime_if_matches_def Let_def
  by (intro op_rules op_ok_then_ret environment_rules)+

lemma idle_require_settings: "keeps_idle (require_settings raw)"
  unfolding require_settings_def
  by (auto intro: idle_rules split: sum.split settings_error.split)

lemma keeps_idle_environment:
  "keeps_idle (record_environment_replacement_failure now i rj le m)"
  "keeps_idle (adopt_environment_replacement_recovery i rj)"
  "keeps_idle (finalize_environment_checkout now i js)"
  "keeps_idle (record_environment_sync_success now i js)"
  "keeps_idle (record_environment_use now i t)"
  "keeps_idle (clear_runtime_if_matches k i pid ct lj)"
  unfolding record_environment_replacement_failure_def
    adopt_environment_replacement_recovery_def finalize_environment_checkout_def
    record_environment_sync_success_def record_environment_use_def clear_runtime_if_matches_def Let_def
  by (intro idle_rules idle_require_settings op_rules environment_rules)+

section \<open>Publishing a checkout\<close>

lemma db_ok_update_environments:
  assumes "db_ok d"
    and "\<And>e. e \<in> set (environments d) \<Longrightarrow> P e \<Longrightarrow> e_id (f e) = e_id e \<and> e_git_common_dir (f e) = e_git_common_dir e
      \<and> e_branch (f e) = e_branch e \<and> e_backup_id (f e) = e_backup_id e \<and> e_project_id (f e) = e_project_id e
      \<and> e_code_ownership (f e) = e_code_ownership e \<and> (e_state (f e) = ''removed'') = (e_state e = ''removed'')"
  shows "db_ok (d\<lparr>environments := update_rows P f (environments d)\<rparr>)"
proof -
  let ?u = "update_rows P f (environments d)"
  have same: "map key ?u = map key (environments d)"
    if "\<And>e. e \<in> set (environments d) \<Longrightarrow> P e \<Longrightarrow> key (f e) = key e" for key :: "environment_row \<Rightarrow> 'k"
    using that by (auto simp: update_rows_def)
  have ids: "map e_id ?u = map e_id (environments d)" using assms(2) by (intro same) auto
  have refs: "map e_backup_id ?u = map e_backup_id (environments d)" "map e_project_id ?u = map e_project_id (environments d)"
    "map e_code_ownership ?u = map e_code_ownership (environments d)"
    using assms(2) by (auto intro!: same)
  have filtered: "map (\<lambda>e. (e_git_common_dir e, e_branch e)) (filter (\<lambda>e. e_state e \<noteq> ''removed'') (map g es)) =
      map (\<lambda>e. (e_git_common_dir e, e_branch e)) (filter (\<lambda>e. e_state e \<noteq> ''removed'') es)"
    if "\<And>e. e \<in> set es \<Longrightarrow> e_git_common_dir (g e) = e_git_common_dir e \<and> e_branch (g e) = e_branch e
      \<and> (e_state (g e) = ''removed'') = (e_state e = ''removed'')" for g es
    using that by (induction es) auto
  have active: "map (\<lambda>e. (e_git_common_dir e, e_branch e)) (filter (\<lambda>e. e_state e \<noteq> ''removed'') ?u) =
      map (\<lambda>e. (e_git_common_dir e, e_branch e)) (filter (\<lambda>e. e_state e \<noteq> ''removed'') (environments d))"
    unfolding update_rows_def using assms(2) by (intro filtered) auto
  have r: "refers fk rows e_id ?u = refers fk rows e_id (environments d)" for fk :: "'r \<Rightarrow> string option" and rows
    using ids by (rule refers_parents)
  have rows: "refers fk ?u key ps = refers fk (environments d) key ps" if "map fk ?u = map fk (environments d)"
    for fk :: "environment_row \<Rightarrow> string option" and key :: "'r \<Rightarrow> string" and ps
  proof -
    have "refers fk xs key ps \<longleftrightarrow> list_all (\<lambda>v. v = None \<or> v \<in> Some ` set (map key ps)) (map fk xs)" for xs
      by (simp add: refers_def list.pred_map comp_def)
    then show ?thesis by (simp only: that)
  qed
  have "list_all environment_check xs \<longleftrightarrow> list_all (\<lambda>v. v \<in> {''sdk_owned'', ''caller_owned'', ''unknown''}) (map e_code_ownership xs)" for xs
    by (simp add: environment_check_def[abs_def] list.pred_map comp_def)
  then have c: "list_all environment_check ?u = list_all environment_check (environments d)" by (simp only: refs)
  show ?thesis
    using assms(1) unfolding db_ok_def table_ok_defs unique_on_def by (simp add: ids active r rows refs c)
qed

definition new_environment_event :: "string \<Rightarrow> string \<Rightarrow> string \<Rightarrow> string \<Rightarrow> string option \<Rightarrow> catalog_db \<Rightarrow> environment_event_row" where
  "new_environment_event i oper oc now m d = \<lparr>ee_sequence = next_sequence ee_sequence (environment_events d),
     ee_environment_id = i, ee_operation = oper, ee_outcome = oc, ee_occurred_at = now, ee_message = m\<rparr>"

lemma insert_environment_event_eq: "insert_environment_event i oper oc now m =
    dml (\<lambda>d. (d\<lparr>environment_events := environment_events d @ [new_environment_event i oper oc now m d]\<rparr>, 1))"
  by (simp add: insert_environment_event_def new_environment_event_def)

lemma db_ok_append_environment_event:
  assumes "db_ok d" "environment_event_check e" "ee_environment_id e \<in> set (map e_id (environments d))"
    "ee_sequence e = next_sequence ee_sequence (environment_events d)"
  shows "db_ok (d\<lparr>environment_events := environment_events d @ [e]\<rparr>)"
proof -
  have "ee_sequence e \<notin> set (map ee_sequence (environment_events d))"
    using next_sequence_fresh[of _ "environment_events d" ee_sequence] assms(4) by fastforce
  with assms show ?thesis unfolding db_ok_def table_ok_defs unique_on_def refers_def by simp
qed

lemma find_environment_iff:
  assumes "db_ok d"
  shows "find_environment i d = Some e \<longleftrightarrow> e \<in> set (environments d) \<and> e_id e = i"
proof -
  have "distinct (map e_id (environments d))" using assms by (simp add: db_ok_def environments_ok_def unique_on_def)
  from fetch_unique[OF this] show ?thesis by (auto simp: find_environment_def dest!: fetchone_Some)
qed

lemma count_environment:
  assumes "db_ok d"
  shows "count_rows (\<lambda>e. e_id e = i \<and> P e) (environments d) =
    (case find_environment i d of None \<Rightarrow> 0 | Some e \<Rightarrow> if P e then 1 else 0)"
proof (cases "find_environment i d")
  case None
  then have "\<forall>e\<in>set (environments d). e_id e \<noteq> i" by (simp add: find_environment_def filter_empty_conv)
  then have "filter (\<lambda>e. e_id e = i \<and> P e) (environments d) = []" by (simp add: filter_empty_conv)
  with None show ?thesis by (simp add: count_rows_def)
next
  case (Some e)
  have u: "distinct (map e_id (environments d))" using assms by (simp add: db_ok_def environments_ok_def unique_on_def)
  have e: "e \<in> set (environments d)" "e_id e = i" using Some find_environment_iff[OF assms] by auto
  obtain xs ys where xy: "environments d = xs @ e # ys" "\<And>x. x \<in> set xs \<union> set ys \<Longrightarrow> e_id x \<noteq> e_id e"
    using unique_split[OF u e(1)] by blast
  then have "filter (\<lambda>x. e_id x = i \<and> P x) xs = []" "filter (\<lambda>x. e_id x = i \<and> P x) ys = []"
    using e by (auto simp: filter_empty_conv)
  with xy(1) e(2) Some show ?thesis by (simp add: count_rows_def)
qed

lemma require_settings_Inr: "require_settings raw c = (Inr (), c') \<longleftrightarrow> (\<exists>s. decode_applied_settings raw = Inr s) \<and> c' = c"
  by (auto simp: require_settings_def run_Inr split: sum.split settings_error.split)

lemma update_one_Inr:
  assumes "db_ok (working c)"
  shows "update_one_environment i P f m c = (Inr (), c') \<longleftrightarrow>
    (let d = (working c)\<lparr>environments := update_rows (\<lambda>e. e_id e = i \<and> P e) f (environments (working c))\<rparr>
     in (\<exists>e. find_environment i (working c) = Some e \<and> P e) \<and> db_ok d \<and> c' = c\<lparr>working := d, in_tx := True\<rparr>)"
  using count_environment[OF assms, of i P]
  by (auto simp: update_one_environment_def run_Inr update_environments_def Let_def split: option.splits if_splits)

definition checked_out :: "string \<Rightarrow> environment_row \<Rightarrow> environment_row" where
  "checked_out settings e = e\<lparr>e_state := ''ready'', e_applied_settings_json := settings\<rparr>"

lemma checkout_Inr:
  assumes "idle c"
  shows "finalize_environment_checkout now i settings c = (Inr (), c') \<longleftrightarrow>
    (let d1 = (committed c)\<lparr>environments := update_rows (\<lambda>e. e_id e = i) (checked_out settings) (environments (committed c))\<rparr>;
         d2 = d1\<lparr>environment_events := environment_events d1 @ [new_environment_event i ''checkout'' ''succeeded'' now None d1]\<rparr>
     in (\<exists>s. decode_applied_settings settings = Inr s) \<and> (\<exists>e. find_environment i (committed c) = Some e)
       \<and> db_ok d1 \<and> db_ok d2 \<and> c' = publish c d2)"
proof -
  have w: "working c = committed c" "db_ok (working c)" using assms idle_working idle_db_ok by auto
  let ?body = "aseq (update_one_environment i (\<lambda>_. True) (\<lambda>e. e\<lparr>e_state := ''ready'', e_applied_settings_json := settings\<rparr>)
            ''environment row disappeared during checkout finalization'')
         (aseq (insert_environment_event i ''checkout'' ''succeeded'' now None) (ret ()))"
  have o: "obeys uncommitted ?body" by (intro op_rules environment_rules)
  have f: "finalize_environment_checkout now i settings c = (Inr (), c') \<longleftrightarrow>
      (\<exists>s. decode_applied_settings settings = Inr s) \<and> (\<exists>c1. ?body c = (Inr (), c1) \<and> c' = publish c (working c1))"
    by (auto simp: finalize_environment_checkout_def translate_Inr aseq_Inr[of "require_settings settings"]
        require_settings_Inr with_conn_Inr[OF assms o])
  show ?thesis
    unfolding f
    by (auto simp: aseq_Inr update_one_Inr[OF w(2)] insert_environment_event_eq dml_Inr ret_Inr
        Let_def w(1) checked_out_def[abs_def])
qed

text \<open>
  C22: Finishing a checkout is all or nothing. When it raises, the catalogue is unchanged. When it
  returns, the settings document is one that decodes, the environment exists, exactly its row is
  ready with that document, exactly one checkout event was added, and the branch still has at most one
  environment that is not removed. It does return for every existing environment that is not removed
  and every document that decodes.
\<close>

theorem checkout_published:
  assumes "idle c" "finalize_environment_checkout now i settings c = (res, c')"
  shows "(\<forall>x. res = Inl x \<longrightarrow> c' = c)
    \<and> (res = Inr () \<longrightarrow> (\<exists>s e. decode_applied_settings settings = Inr s
        \<and> find_environment i (committed c) = Some e \<and> find_environment i (committed c') = Some (checked_out settings e)
        \<and> environments_ok (committed c')
        \<and> c' = publish c ((committed c)\<lparr>
            environments := update_rows (\<lambda>e. e_id e = i) (checked_out settings) (environments (committed c)),
            environment_events := environment_events (committed c) @
              [new_environment_event i ''checkout'' ''succeeded'' now None (committed c)]\<rparr>)))
    \<and> ((\<exists>s e. decode_applied_settings settings = Inr s \<and> find_environment i (committed c) = Some e
        \<and> e_state e \<noteq> ''removed'') \<longrightarrow> res = Inr ())"
proof (intro conjI impI allI)
  fix x assume "res = Inl x"
  with raise_changes_nothing[OF op_ok_environment(4) keeps_idle_environment(3) assms(1)] assms(2) show "c' = c" by blast
next
  assume r: "res = Inr ()"
  let ?f = "update_rows (\<lambda>e. e_id e = i) (checked_out settings)"
  have e: "new_environment_event i oper oc now m (d\<lparr>environments := xs\<rparr>) = new_environment_event i oper oc now m d" for oper oc m d xs
    by (simp add: new_environment_event_def)
  from assms(2) obtain s e where d: "decode_applied_settings settings = Inr s" "find_environment i (committed c) = Some e"
    "db_ok ((committed c)\<lparr>environments := ?f (environments (committed c)), environment_events := environment_events (committed c) @
              [new_environment_event i ''checkout'' ''succeeded'' now None (committed c)]\<rparr>)"
    "c' = publish c ((committed c)\<lparr>environments := ?f (environments (committed c)), environment_events := environment_events (committed c) @
              [new_environment_event i ''checkout'' ''succeeded'' now None (committed c)]\<rparr>)"
    unfolding r checkout_Inr[OF assms(1)] by (auto simp: Let_def e)
  have "find_environment i (committed c') = Some (checked_out settings e)"
    using d(4) by (intro find_environment_updated[OF d(2)]) (simp_all add: checked_out_def[abs_def])
  with d show "\<exists>s e. decode_applied_settings settings = Inr s
        \<and> find_environment i (committed c) = Some e \<and> find_environment i (committed c') = Some (checked_out settings e)
        \<and> environments_ok (committed c')
        \<and> c' = publish c ((committed c)\<lparr>
            environments := ?f (environments (committed c)),
            environment_events := environment_events (committed c) @
              [new_environment_event i ''checkout'' ''succeeded'' now None (committed c)]\<rparr>)"
    by (auto simp: db_ok_def)
next
  assume "\<exists>s e. decode_applied_settings settings = Inr s \<and> find_environment i (committed c) = Some e \<and> e_state e \<noteq> ''removed''"
  then obtain s e where d: "decode_applied_settings settings = Inr s" "find_environment i (committed c) = Some e"
    "e_state e \<noteq> ''removed''" by blast
  let ?d1 = "(committed c)\<lparr>environments := update_rows (\<lambda>e. e_id e = i) (checked_out settings) (environments (committed c))\<rparr>"
  let ?ev = "new_environment_event i ''checkout'' ''succeeded'' now None ?d1"
  note ok = idle_db_ok[OF assms(1)]
  have only: "x = e" if "x \<in> set (environments (committed c))" "e_id x = i" for x
    using that d(2) find_environment_iff[OF ok, of i x] by simp
  have d1: "db_ok ?d1"
    using only d(3) by (intro db_ok_update_environments[OF ok]) (auto simp: checked_out_def)
  have "map e_id (environments ?d1) = map e_id (environments (committed c))" by (simp add: update_rows_def checked_out_def)
  then have "i \<in> set (map e_id (environments ?d1))" using d(2) find_environment_iff[OF ok] by auto
  then have "db_ok (?d1\<lparr>environment_events := environment_events ?d1 @ [?ev]\<rparr>)"
    by (intro db_ok_append_environment_event[OF d1]) (simp_all add: new_environment_event_def environment_event_check_def)
  with d d1 show "res = Inr ()" using checkout_Inr[OF assms(1), of now i settings] assms(2) unfolding Let_def by (metis Pair_inject)
qed

theorem checkout_published_witness:
  "\<exists>c'. finalize_environment_checkout ''2024-05-03 00:00:00'' ''env1'' LEGACY_UNKNOWN_APPLIED_SETTINGS_JSON
     (open_catalog restore_db) = (Inr (), c') \<and> length (environment_events (committed c')) = 1"
proof -
  obtain s where s: "decode_applied_settings LEGACY_UNKNOWN_APPLIED_SETTINGS_JSON = Inr s" using legacy_decoded by blast
  have e: "find_environment ''env1'' (committed (open_catalog restore_db)) = Some sample_environment"
    "environment_events (committed (open_catalog restore_db)) = []" "e_state sample_environment \<noteq> ''removed''"
    by (simp_all add: open_catalog_def restore_db_def sample_db_def empty_db_def sample_environment_def find_environment_def fetchone_def)
  obtain res c' where r: "finalize_environment_checkout ''2024-05-03 00:00:00'' ''env1'' LEGACY_UNKNOWN_APPLIED_SETTINGS_JSON
     (open_catalog restore_db) = (res, c')" by force
  from checkout_published[OF restore_idle r] s e r show ?thesis by auto
qed

section \<open>Runtimes\<close>

lemma runtime_unique: "db_ok d \<Longrightarrow> distinct (map (\<lambda>r. (rt_owner_kind r, rt_owner_id r)) (runtime d))"
  by (simp add: db_ok_def runtime_ok_def unique_on_def)

lemma runtime_of_iff:
  assumes "db_ok d"
  shows "fetchone (filter (runtime_of k i) (runtime d)) = Some r \<longleftrightarrow> r \<in> set (runtime d) \<and> runtime_of k i r"
proof -
  have "filter (runtime_of k i) (runtime d) = filter (\<lambda>x. (rt_owner_kind x, rt_owner_id x) = (rt_owner_kind r, rt_owner_id r)) (runtime d)"
    if "runtime_of k i r" using that by (intro filter_cong) (auto simp: runtime_of_def)
  then show ?thesis using fetch_unique[OF runtime_unique[OF assms], of r] by (auto dest: fetchone_Some)
qed

lemma set_upsert: "distinct (map key rows) \<Longrightarrow> set (upsert_row key row rows) = insert row {r \<in> set rows. key r \<noteq> key row}"
  by (auto simp: upsert_row_def update_rows_def image_iff split: if_splits)

lemma filter_upsert:
  assumes "\<And>r. key r = key row \<Longrightarrow> \<not> P r"
  shows "filter P (upsert_row key row rows) = filter P rows"
proof -
  have "filter P (update_rows (\<lambda>r. key r = key row) (\<lambda>_. row) rows) = filter P rows"
    using assms by (induction rows) (simp_all add: update_rows_def)
  with assms show ?thesis by (simp add: upsert_row_def)
qed

lemma filter_delete: "(\<And>r. Q r \<Longrightarrow> \<not> P r) \<Longrightarrow> filter P (delete_rows Q rows) = filter P rows"
  by (auto simp: delete_rows_def intro: filter_cong)

lemma upsert_runtime_Inr:
  assumes "idle c" "upsert_runtime row c = (Inr (), c')"
  shows "\<exists>d. c' = publish c d \<and> db_ok d \<and> d = (committed c)\<lparr>runtime := upsert_row (\<lambda>r. (rt_owner_kind r, rt_owner_id r)) row (runtime (committed c))\<rparr>
    \<and> owner_kind_ok (rt_owner_kind row)"
  using assms idle_working[OF assms(1)]
  by (auto simp: upsert_runtime_def Let_def run_Inr get_environment_def commit_def publish_def idle_def split: if_splits)

lemma count_runtime:
  assumes "db_ok d" "r \<in> set (runtime d)" "runtime_of k i r"
  shows "count_rows (\<lambda>x. runtime_of k i x \<and> P x) (runtime d) = (if P r then 1 else 0)"
    "\<not> P r \<Longrightarrow> delete_rows (\<lambda>x. runtime_of k i x \<and> P x) (runtime d) = runtime d"
proof -
  have only: "x = r" if "x \<in> set (runtime d)" "runtime_of k i x" for x
    using that assms(2,3) runtime_of_iff[OF assms(1), of k i] by (metis option.inject)
  show "\<not> P r \<Longrightarrow> delete_rows (\<lambda>x. runtime_of k i x \<and> P x) (runtime d) = runtime d"
    using only by (intro update_none) auto
  have "filter (\<lambda>x. runtime_of k i x \<and> P x) (runtime d) = (if P r then filter (runtime_of k i) (runtime d) else [])"
    using only by (auto intro: filter_cong simp: filter_empty_conv)
  moreover have "length (filter (runtime_of k i) (runtime d)) = 1"
  proof -
    obtain xs ys where xy: "runtime d = xs @ r # ys"
      "\<And>x. x \<in> set xs \<union> set ys \<Longrightarrow> (rt_owner_kind x, rt_owner_id x) \<noteq> (rt_owner_kind r, rt_owner_id r)"
      using unique_split[OF runtime_unique[OF assms(1)] assms(2)] by blast
    then have "filter (runtime_of k i) xs = []" "filter (runtime_of k i) ys = []"
      using assms(3) by (auto simp: filter_empty_conv runtime_of_def)
    with xy(1) assms(3) show ?thesis by simp
  qed
  ultimately show "count_rows (\<lambda>x. runtime_of k i x \<and> P x) (runtime d) = (if P r then 1 else 0)"
    by (simp add: count_rows_def)
qed

lemma db_ok_delete_runtime: "db_ok d \<Longrightarrow> db_ok (d\<lparr>runtime := delete_rows P (runtime d)\<rparr>)"
  by (auto simp: db_ok_def table_ok_defs unique_on_def refers_def distinct_map_delete list_all_delete)

lemma get_runtime_eq: "owner_kind_ok k \<Longrightarrow> idle c \<Longrightarrow>
    get_runtime k i c = (Inr (fetchone (filter (runtime_of k i) (runtime (committed c)))), c)"
  by (simp add: get_runtime_def exec_defs owner_kind_ok_def guard_def ret_def idle_working comp_def)

lemma clear_matches_eq:
  assumes "idle c" "owner_kind_ok k"
  shows "clear_runtime_if_matches k i pid ct lj c =
    (let P = (\<lambda>r. runtime_of k i r \<and> rt_root_pid r = pid \<and> rt_create_time r = ct \<and> rt_launch_identity_json r = lj)
     in (Inr (count_rows P (runtime (committed c)) = 1),
         publish c ((committed c)\<lparr>runtime := delete_rows P (runtime (committed c))\<rparr>)))"
proof -
  let ?P = "\<lambda>r. runtime_of k i r \<and> rt_root_pid r = pid \<and> rt_create_time r = ct \<and> rt_launch_identity_json r = lj"
  have w: "working c = committed c" "db_ok (committed c)" using assms(1) idle_working idle_db_ok by auto
  have "with_conn (delete_runtime ?P) c = (Inr (count_rows ?P (runtime (committed c))),
      publish c ((committed c)\<lparr>runtime := delete_rows ?P (runtime (committed c))\<rparr>))"
    unfolding delete_runtime_def by (rule runs_with[OF assms(1) runs_dml]) (simp_all add: w db_ok_delete_runtime)
  then show ?thesis
    using assms(2) by (simp add: clear_runtime_if_matches_def translate_sqlite_error_def aseq_guard abind_def ret_def Let_def)
qed

text \<open>
  C23: A recorded runtime is read back unchanged, and a supervisor that clears it by process identity
  clears exactly that process: with another process id, start time or launch identity the call
  reports false and changes nothing, with the recorded ones it reports true and the owner has no
  runtime any more. Neither touches the runtime of another owner.
\<close>

theorem runtime_cleared_by_identity:
  assumes "idle c" "upsert_runtime row c = (Inr (), c1)"
    "clear_runtime_if_matches (rt_owner_kind row) (rt_owner_id row) pid ct lj c1 = (res, c2)"
  shows "get_runtime (rt_owner_kind row) (rt_owner_id row) c1 = (Inr (Some row), c1)
    \<and> (let same = (pid = rt_root_pid row \<and> ct = rt_create_time row \<and> lj = rt_launch_identity_json row) in
        res = Inr same \<and> (\<not> same \<longrightarrow> c2 = c1)
        \<and> (same \<longrightarrow> get_runtime (rt_owner_kind row) (rt_owner_id row) c2 = (Inr None, c2)))
    \<and> (\<forall>k i. owner_kind_ok k \<longrightarrow> (k, i) \<noteq> (rt_owner_kind row, rt_owner_id row) \<longrightarrow>
        fst (get_runtime k i c1) = fst (get_runtime k i c) \<and> fst (get_runtime k i c2) = fst (get_runtime k i c))"
proof -
  let ?k = "rt_owner_kind row" and ?i = "rt_owner_id row"
  let ?Q = "\<lambda>r. rt_root_pid r = pid \<and> rt_create_time r = ct \<and> rt_launch_identity_json r = lj"
  from upsert_runtime_Inr[OF assms(1,2)] obtain d where d: "c1 = publish c d" "db_ok d" "owner_kind_ok ?k"
    "runtime d = upsert_row (\<lambda>r. (rt_owner_kind r, rt_owner_id r)) row (runtime (committed c))" by force
  have i1: "idle c1" using d assms(1) by simp
  have row: "row \<in> set (runtime d)" "runtime_of ?k ?i row"
    using d(4) set_upsert[OF runtime_unique[OF idle_db_ok[OF assms(1)]]] by (auto simp: runtime_of_def)
  have clear: "res = Inr (?Q row)" "c2 = publish c1 (d\<lparr>runtime := delete_rows (\<lambda>r. runtime_of ?k ?i r \<and> ?Q r) (runtime d)\<rparr>)"
    using assms(3) clear_matches_eq[OF i1 d(3), of ?i pid ct lj] count_runtime(1)[OF d(2) row, of ?Q] d(1)
    by (simp_all add: Let_def)
  have i2: "idle c2" using clear(2) i1 d(2) by (simp add: db_ok_delete_runtime)
  have got: "get_runtime ?k ?i c1 = (Inr (Some row), c1)"
    using get_runtime_eq[OF d(3) i1, of ?i] runtime_of_iff[OF d(2), of ?k ?i row] row d(1) by simp
  have kept: "c2 = c1" if "\<not> ?Q row"
    using clear(2) count_runtime(2)[OF d(2) row, of ?Q, OF that] d(1) by simp
  have gone: "get_runtime ?k ?i c2 = (Inr None, c2)" if "?Q row"
  proof -
    have "x = row" if "x \<in> set (runtime d)" "runtime_of ?k ?i x" for x
      using that row runtime_of_iff[OF d(2), of ?k ?i] by (metis option.inject)
    then have "filter (runtime_of ?k ?i) (runtime (committed c2)) = []"
      using clear(2) \<open>?Q row\<close> by (auto simp: delete_rows_def filter_empty_conv)
    then show ?thesis using get_runtime_eq[OF d(3) i2, of ?i] by simp
  qed
  have "filter (runtime_of k i) (runtime (committed c1)) = filter (runtime_of k i) (runtime (committed c))"
    "filter (runtime_of k i) (runtime (committed c2)) = filter (runtime_of k i) (runtime (committed c))"
    if "(k, i) \<noteq> (?k, ?i)" for k i
  proof -
    have u: "filter (runtime_of k i) (upsert_row (\<lambda>r. (rt_owner_kind r, rt_owner_id r)) row rows) = filter (runtime_of k i) rows" for rows
      using that by (intro filter_upsert) (auto simp: runtime_of_def)
    then show "filter (runtime_of k i) (runtime (committed c1)) = filter (runtime_of k i) (runtime (committed c))"
      using d by simp
    have "filter (runtime_of k i) (delete_rows (\<lambda>r. runtime_of ?k ?i r \<and> ?Q r) rows) = filter (runtime_of k i) rows" for rows
      using that by (intro filter_delete) (auto simp: runtime_of_def)
    then show "filter (runtime_of k i) (runtime (committed c2)) = filter (runtime_of k i) (runtime (committed c))"
      using clear(2) d(4) u by simp
  qed
  note others = this
  have "fst (get_runtime k i c1) = fst (get_runtime k i c)" "fst (get_runtime k i c2) = fst (get_runtime k i c)"
    if "owner_kind_ok k" "(k, i) \<noteq> (?k, ?i)" for k i
    using others[OF that(2)] by (simp_all add: get_runtime_eq[OF that(1) assms(1)] get_runtime_eq[OF that(1) i1]
        get_runtime_eq[OF that(1) i2])
  with got kept gone clear(1) show ?thesis by (auto simp: Let_def)
qed

theorem runtime_cleared_by_identity_witness:
  "\<exists>row c1 c2. upsert_runtime row (open_catalog restore_db) = (Inr (), c1)
    \<and> clear_runtime_if_matches ''environment'' ''env1'' 42 7 None c1 = (Inr True, c2)
    \<and> get_runtime ''environment'' ''env1'' c2 = (Inr None, c2)"
proof -
  let ?row = "\<lparr>rt_owner_kind = ''environment'', rt_owner_id = ''env1'', rt_root_pid = 42, rt_create_time = 7,
    rt_started_at = ''2024-05-01 10:00:00'', rt_checkout_branch = ''feature'', rt_commit_sha = ''abc'',
    rt_http_url = ''http://localhost:8069'', rt_http_port = 8069, rt_database_name = ''feature'',
    rt_launch_identity_json = None, rt_updated_at = ''2024-05-01 10:00:00''\<rparr>"
  have "fst (upsert_runtime ?row (open_catalog restore_db)) = Inr ()" by code_simp
  then obtain c1 where c1: "upsert_runtime ?row (open_catalog restore_db) = (Inr (), c1)" by (metis prod.collapse)
  obtain res c2 where c2: "clear_runtime_if_matches (rt_owner_kind ?row) (rt_owner_id ?row) 42 7 None c1 = (res, c2)" by force
  from runtime_cleared_by_identity[OF restore_idle c1 c2] c1 c2 show ?thesis by auto
qed

end
