(* ===== verification/Environment_Pages.thy ===== *)
theory Environment_Pages
  imports Catalog_Environment
begin

text \<open>
  The paged listing of incomplete operations, followed by a client: the cursors of
  \<^verbatim>\<open>helpers.py\<close>, the keyset query of \<^verbatim>\<open>storage/catalog/environment.py\<close> and the decoding of its rows, put
  together.
\<close>

section \<open>A client\<close>

text \<open>It asks for a page and sends back the cursor it was given, at most \<open>n\<close> times.\<close>

fun drain :: "(string option \<Rightarrow> ('a list \<times> string option) cat) \<Rightarrow> nat \<Rightarrow> string option \<Rightarrow> ('a list list \<times> bool) cat" where
  "drain page 0 cursor = ret ([], False)"
| "drain page (Suc n) cursor = abind (page cursor) (\<lambda>(items, next_cursor).
     case next_cursor of None \<Rightarrow> ret ([items], True)
     | Some k \<Rightarrow> abind (drain page n (Some k)) (\<lambda>(rest, ended). ret (items # rest, ended)))"

text \<open>The client sees what following the decoded cursors gives, if every cursor survives the encoding.\<close>

lemma drain_follow:
  assumes "\<And>cur page nxt. ok cur \<Longrightarrow> q cur = (page, nxt) \<Longrightarrow>
      ok nxt \<and> p (map_option enc cur) c = (Inr (map f page, map_option enc nxt), c)"
  shows "ok cur \<Longrightarrow> follow q n cur = (ps, ended) \<Longrightarrow>
    drain p n (map_option enc cur) c = (Inr (map (map f) ps, ended), c)"
proof (induction n arbitrary: cur ps ended)
  case 0
  then show ?case by (simp add: ret_def)
next
  case (Suc n)
  obtain page nxt where q: "q cur = (page, nxt)" by force
  note s = assms[OF Suc.prems(1) q]
  show ?case
  proof (cases nxt)
    case None
    with Suc.prems(2) s q show ?thesis by (auto simp: abind_def ret_def)
  next
    case (Some k)
    obtain rest fin where r: "follow q n (Some k) = (rest, fin)" by force
    have "drain p n (map_option enc (Some k)) c = (Inr (map (map f) rest, fin), c)"
      using s Some r by (intro Suc.IH) auto
    with Suc.prems(2) s q r Some show ?thesis by (auto simp: abind_def ret_def)
  qed
qed

section \<open>Rows\<close>

lemma decode_each_total: "(\<And>r. r \<in> set rows \<Longrightarrow> f r = Inr (g r)) \<Longrightarrow> decode_each f rows = Inr (map g rows)"
  by (induction rows) simp_all

lemma distinct_map_filter_by:
  assumes "distinct (map k xs)" "\<And>x y. f x = Some y \<Longrightarrow> k' y = h (k x)" "inj h"
  shows "distinct (map k' (List.map_filter f xs))"
proof -
  have "map k' (List.map_filter f xs) = map (h \<circ> k) (filter (\<lambda>x. f x \<noteq> None) xs)"
    using assms(2) by (induction xs) (auto simp: List.map_filter_simps split: option.split)
  moreover have "distinct (map k (filter (\<lambda>x. f x \<noteq> None) xs))" using assms(1) by (rule distinct_map_filter)
  ultimately show ?thesis using assms(3) by (metis distinct_map inj_on_subset map_map subset_UNIV)
qed

lemma inj_show_nat: "inj show_nat"
  by (metis digits_val_show_nat injI)

lemma incomplete_keys:
  "set (map io_cursor_key (incomplete_backups d)) \<subseteq> range (append ''backup:'')"
  "set (map io_cursor_key (incomplete_restores d)) \<subseteq> range (append ''restore:'')"
  "set (map io_cursor_key (incomplete_environments d)) \<subseteq> range (append ''environment:'')"
  by (auto simp: incomplete_backups_def incomplete_restores_def incomplete_environments_def List.map_filter_def split: if_splits)

lemma distinct_three:
  "distinct xs \<Longrightarrow> distinct ys \<Longrightarrow> distinct zs \<Longrightarrow> A \<inter> B = {} \<Longrightarrow> A \<inter> C = {} \<Longrightarrow> B \<inter> C = {} \<Longrightarrow>
   set xs \<subseteq> A \<Longrightarrow> set ys \<subseteq> B \<Longrightarrow> set zs \<subseteq> C \<Longrightarrow> distinct (xs @ ys @ zs)"
  unfolding distinct_append set_append by blast

lemma incomplete_distinct:
  assumes "db_ok d"
  shows "distinct (map io_cursor_key (incomplete_backups d @ incomplete_restores d @ incomplete_environments d))"
proof -
  have inj: "inj (append x)" for x :: string by (simp add: inj_def)
  have u: "distinct (map b_id (backups d))" "distinct (map r_sequence (restores d))" "distinct (map e_id (environments d))"
    using assms by (simp_all add: db_ok_def table_ok_defs unique_on_def)
  have e: "distinct (map k xs) \<Longrightarrow> distinct (map (k \<circ> snd) (enumerate n xs))" for k :: "'r \<Rightarrow> string" and xs :: "'r list" and n
    by (metis map_map map_snd_enumerate)
  have "distinct (map io_cursor_key (incomplete_backups d))"
    unfolding incomplete_backups_def
    by (rule distinct_map_filter_by[where k = "b_id \<circ> snd" and h = "append ''backup:''"])
       (auto intro: e u inj split: if_splits)
  moreover have "distinct (map io_cursor_key (incomplete_restores d))"
    unfolding incomplete_restores_def
    by (rule distinct_map_filter_by[where k = r_sequence and h = "\<lambda>n. ''restore:'' @ show_nat n"])
       (use u(2) inj_show_nat in \<open>auto simp: inj_def split: if_splits\<close>)
  moreover have "distinct (map io_cursor_key (incomplete_environments d))"
    unfolding incomplete_environments_def
    by (rule distinct_map_filter_by[where k = "e_id \<circ> snd" and h = "append ''environment:''"])
       (auto intro: e u inj split: if_splits)
  moreover have "range (append ''backup:'') \<inter> range (append ''restore:'') = {}"
    "range (append ''backup:'') \<inter> range (append ''environment:'') = {}"
    "range (append ''restore:'') \<inter> range (append ''environment:'') = {}" by auto
  ultimately show ?thesis using incomplete_keys[of d] unfolding map_append by (rule distinct_three)
qed

lemma incomplete_rows_keys:
  "db_ok d \<Longrightarrow> distinct (map io_cursor_key (incomplete_rows jd jd_at ot st a b d))"
  "r \<in> set (incomplete_rows jd jd_at ot st a b d) \<Longrightarrow> io_cursor_key r \<noteq> []"
  using incomplete_distinct[of d] incomplete_keys[of d]
  by (auto simp: incomplete_rows_def distinct_map_filter)

section \<open>Pages\<close>

abbreviation (input) operation_of :: "incomplete_row \<Rightarrow> incomplete_operation" where
  "operation_of r \<equiv> projr (incomplete_operation_of r)"

lemma incomplete_page:
  assumes "idle c" "1 \<le> limit" "limit \<le> 1000"
    "ot \<in> {None, Some ''backup'', Some ''restore'', Some ''environment''}"
    "st \<in> {None, Some ''downloading'', Some ''failed'', Some ''incomplete'', Some ''creating'', Some ''removing'', Some ''cleanup_failed''}"
    "optional_instant t1 ''occurred_after'' = Inr a" "optional_instant t2 ''occurred_before'' = Inr b" "range_ok a b"
    "decode_cursor cursor = Inr cur"
    "julian_page jd True io_occurred_at io_cursor_key (incomplete_rows jd jd_at ot st a b (committed c)) (nat limit) cur = (page, nxt)"
    "\<And>r. r \<in> set (incomplete_rows jd jd_at ot st a b (committed c)) \<Longrightarrow> incomplete_operation_of r = Inr (operation_of r)"
  shows "list_incomplete_operations jd jd_at ot st t1 t2 limit cursor c = (Inr (map operation_of page, encode_cursor nxt), c)"
proof -
  have "decode_each incomplete_operation_of page = Inr (map operation_of page)"
    using julian_page_rows[OF assms(10)] assms(11) by (intro decode_each_total) auto
  with assms(4,5) show ?thesis
    unfolding list_incomplete_operations_def
    by (intro translate_returns) (simp add: aseq_guard assms(2,3,6-9) abind_lift abind_query idle_working[OF assms(1)] assms(10) ret_def)
qed

lemma decode_encode_cursor: "(\<And>t k. cur = Some (t, k) \<Longrightarrow> k \<noteq> []) \<Longrightarrow> decode_cursor (encode_cursor cur) = Inr cur"
  by (cases cur) (auto simp: decode_cursor_def encode_cursor_def catalog_cursor_roundtrip)

text \<open>
  C24: A client that lists the incomplete operations and keeps sending back the cursor it was given,
  on an unchanged catalogue, is never refused a cursor, comes to an end, and has then seen every
  backup, restore and environment that matches its filters exactly once, latest first, in pages no
  longer than it asked for. This holds for catalogues whose timestamps can be read.
\<close>

theorem incomplete_pages_complete:
  assumes "idle c" "1 \<le> limit" "limit \<le> 1000"
    "ot \<in> {None, Some ''backup'', Some ''restore'', Some ''environment''}"
    "st \<in> {None, Some ''downloading'', Some ''failed'', Some ''incomplete'', Some ''creating'', Some ''removing'', Some ''cleanup_failed''}"
    "optional_instant t1 ''occurred_after'' = Inr a" "optional_instant t2 ''occurred_before'' = Inr b" "range_ok a b"
    "rows = incomplete_rows jd jd_at ot st a b (committed c)" "length rows < n"
    "\<forall>r\<in>set rows. jd (io_occurred_at r) \<noteq> None \<and> (\<exists>x. incomplete_operation_of r = Inr x)"
  shows "\<exists>ps. drain (list_incomplete_operations jd jd_at ot st t1 t2 limit) n None c = (Inr (ps, True), c)
    \<and> map Inr (concat ps) = map incomplete_operation_of (order_by (\<lambda>x y.
        jkey jd True io_occurred_at io_cursor_key x \<le> jkey jd True io_occurred_at io_cursor_key y) rows)
    \<and> (\<forall>p\<in>set ps. length p \<le> nat limit)"
proof -
  have ops: "incomplete_operation_of r = Inr (operation_of r)" if "r \<in> set rows" for r using assms(11) that by force
  let ?q = "julian_page jd True io_occurred_at io_cursor_key rows (nat limit)"
  let ?ok = "\<lambda>cur. \<forall>t k. cur = Some (t, k) \<longrightarrow> k \<noteq> []"
  obtain ps where ps: "follow ?q n None = (ps, True)" "concat ps = order_by (\<lambda>x y.
        jkey jd True io_occurred_at io_cursor_key x \<le> jkey jd True io_occurred_at io_cursor_key y) rows"
      "\<forall>p\<in>set ps. length p \<le> nat limit"
    using julian_pages_complete[of rows jd io_occurred_at "nat limit" n io_cursor_key True] assms(2,9-11)
      incomplete_rows_keys(1)[OF idle_db_ok[OF assms(1)]] by force
  have "?ok nxt \<and> list_incomplete_operations jd jd_at ot st t1 t2 limit (encode_cursor cur) c =
      (Inr (map operation_of page, encode_cursor nxt), c)" if "?ok cur" "?q cur = (page, nxt)" for cur page nxt
  proof
    show "?ok nxt"
      using julian_page_last[of jd True io_occurred_at io_cursor_key rows "nat limit" cur page] that(2) assms(2,9)
        incomplete_rows_keys(2) by fastforce
    show "list_incomplete_operations jd jd_at ot st t1 t2 limit (encode_cursor cur) c = (Inr (map operation_of page, encode_cursor nxt), c)"
      using that ops unfolding assms(9) by (intro incomplete_page[OF assms(1-8) decode_encode_cursor]) auto
  qed
  then have "drain (list_incomplete_operations jd jd_at ot st t1 t2 limit) n None c = (Inr (map (map operation_of) ps, True), c)"
    using drain_follow[of ?ok ?q "list_incomplete_operations jd jd_at ot st t1 t2 limit" "\<lambda>(t, k). encode_catalog_cursor t k"
        c operation_of None n ps True] ps(1)
    by (simp add: encode_cursor_def)
  moreover have "map Inr (concat (map (map operation_of) ps)) = map incomplete_operation_of (concat ps)"
    using ops ps(2) by (simp add: map_concat[symmetric])
  ultimately show ?thesis using ps(2,3) by (intro exI[of _ "map (map operation_of) ps"]) auto
qed

section \<open>A concrete listing\<close>

definition unfinished_db :: catalog_db where
  "unfinished_db = restore_db\<lparr>environments := [sample_environment\<lparr>e_state := ''creating''\<rparr>,
     sample_environment\<lparr>e_id := ''env2'', e_branch := ''other'', e_state := ''removing''\<rparr>]\<rparr>"

definition sample_julian :: julian where
  "sample_julian t = map_option utc_us (fromisoformat t)"

lemma unfinished_ok: "db_ok unfinished_db"
  by code_simp

lemma unfinished_rows:
  "length (incomplete_rows sample_julian id (Some ''environment'') None None None unfinished_db) = 2"
  "list_all (\<lambda>r. sample_julian (io_occurred_at r) \<noteq> None \<and> \<not> isl (incomplete_operation_of r))
     (incomplete_rows sample_julian id (Some ''environment'') None None None unfinished_db)"
  by code_simp+

theorem incomplete_pages_complete_witness:
  "\<exists>ps. drain (list_incomplete_operations sample_julian id (Some ''environment'') None None None 1) 3 None
     (open_catalog unfinished_db) = (Inr (ps, True), open_catalog unfinished_db) \<and> length (concat ps) = 2"
proof -
  let ?rows = "incomplete_rows sample_julian id (Some ''environment'') None None None (committed (open_catalog unfinished_db))"
  have l: "length ?rows = 2" using unfinished_rows(1) by (simp add: open_catalog_def)
  have r: "\<forall>r\<in>set ?rows. sample_julian (io_occurred_at r) \<noteq> None \<and> (\<exists>x. incomplete_operation_of r = Inr x)"
    using unfinished_rows(2) by (auto simp: open_catalog_def list_all_iff isl_def) (metis sum.exhaust)
  from incomplete_pages_complete[OF idle_open[OF unfinished_ok], of 1 "Some ''environment''" None None None None None
      ?rows sample_julian id 3] l r
  obtain ps where ps: "drain (list_incomplete_operations sample_julian id (Some ''environment'') None None None 1) 3 None
     (open_catalog unfinished_db) = (Inr (ps, True), open_catalog unfinished_db)"
    "map Inr (concat ps) = map incomplete_operation_of (order_by (\<lambda>x y. jkey sample_julian True io_occurred_at io_cursor_key x
        \<le> jkey sample_julian True io_occurred_at io_cursor_key y) ?rows)"
    by (auto simp: optional_instant_def range_ok_def)
  from arg_cong[OF ps(2), of length] l have "length (concat ps) = 2" by simp
  with ps(1) show ?thesis by blast
qed

end
