(* ===== verification/Secret_Automaton.thy ===== *)
theory Secret_Automaton
  imports Redaction "HOL-Library.Sublist"
begin

text \<open>
  The configured-secret matcher of \<^verbatim>\<open>IncrementalStreamRedactor\<close> in \<^verbatim>\<open>internal/proc/redaction.py\<close>: an
  Aho-Corasick automaton in four parallel arrays, built by \<^verbatim>\<open>_build_secret_automaton\<close> and run over a
  stream by \<^verbatim>\<open>_redact_configured_secrets\<close>. It is proved equal to a matcher that works on words, whose
  state is the longest suffix of the stream that begins a secret.

  The two loops of the source that follow failure links or empty the queue carry fuel: the depth of
  a node bounds its chain of failure links, and the number of nodes bounds the queue. Both bounds
  are proved to be enough.
\<close>

section \<open>The automaton\<close>

record automaton =
  transitions :: "(char, nat) dict list"
  failures :: "nat list"
  outputs :: "nat list"
  depths :: "nat list"

definition empty_automaton :: automaton where
  "empty_automaton = \<lparr>transitions = [[]], failures = [0], outputs = [0], depths = [0]\<rparr>"

definition child_of :: "automaton \<Rightarrow> nat \<Rightarrow> char \<Rightarrow> nat option" where
  "child_of A node c = map_of (transitions A ! node) c"

text \<open>One iteration of the insertion loop: follow or create the child.\<close>

definition insert_character :: "char \<Rightarrow> automaton \<times> nat \<Rightarrow> automaton \<times> nat" where
  "insert_character c = (\<lambda>(A, node). case child_of A node c of
     Some child \<Rightarrow> (A, child)
   | None \<Rightarrow> (let child = length (transitions A)
       in (\<lparr>transitions = (transitions A)[node := dset (transitions A ! node) c child] @ [[]],
            failures = failures A @ [0], outputs = outputs A @ [0],
            depths = depths A @ [depths A ! node + 1]\<rparr>, child)))"

definition insert_secret :: "string \<Rightarrow> automaton \<Rightarrow> automaton" where
  "insert_secret secret A =
     (let (A, node) = fold insert_character secret (A, 0)
      in A\<lparr>outputs := (outputs A)[node := max (outputs A ! node) (length secret)]\<rparr>)"

text \<open>\<^verbatim>\<open>while state and character not in transitions[state]: state = failures[state]\<close>.\<close>

fun chase :: "nat \<Rightarrow> automaton \<Rightarrow> char \<Rightarrow> nat \<Rightarrow> nat" where
  "chase 0 A c state = state"
| "chase (Suc fuel) A c state =
     (if state \<noteq> 0 \<and> child_of A state c = None then chase fuel A c (failures A ! state) else state)"

definition goto :: "automaton \<Rightarrow> nat \<Rightarrow> char \<Rightarrow> nat" where
  "goto A state c = (case child_of A (chase (depths A ! state) A c state) c of None \<Rightarrow> 0 | Some m \<Rightarrow> m)"

text \<open>The body of the loop over the children of a node.\<close>

definition link_child :: "nat \<Rightarrow> char \<times> nat \<Rightarrow> automaton \<Rightarrow> automaton" where
  "link_child node = (\<lambda>(c, child) A.
     let failure = goto A (failures A ! node) c;
         A = A\<lparr>failures := (failures A)[child := failure]\<rparr>
     in A\<lparr>outputs := (outputs A)[child := max (outputs A ! child) (outputs A ! failure)]\<rparr>)"

fun link_nodes :: "nat \<Rightarrow> nat list \<Rightarrow> automaton \<Rightarrow> automaton" where
  "link_nodes fuel [] A = A"
| "link_nodes 0 (node # pending) A = A"
| "link_nodes (Suc fuel) (node # pending) A =
     link_nodes fuel (pending @ map snd (transitions A ! node)) (fold (link_child node) (transitions A ! node) A)"

definition build_secret_automaton :: "string list \<Rightarrow> automaton" where
  "build_secret_automaton secrets =
     (let A = fold insert_secret secrets empty_automaton
      in link_nodes (length (transitions A)) (map snd (transitions A ! 0)) A)"

section \<open>The stream matcher\<close>

record secret_stream =
  secret_automaton :: automaton
  secret_state :: nat
  secret_candidate :: string

text \<open>One iteration of \<^verbatim>\<open>_redact_configured_secrets\<close>: the state afterwards and what is emitted.\<close>

definition secret_character :: "char \<Rightarrow> secret_stream \<Rightarrow> string \<times> secret_stream" where
  "secret_character c s =
     (let A = secret_automaton s; state = goto A (secret_state s) c;
          candidate = secret_candidate s @ [c]; matched_length = outputs A ! state
      in if matched_length \<noteq> 0
         then (take (length candidate - matched_length) candidate @ REDACTION_MARKER,
               s\<lparr>secret_state := 0, secret_candidate := []\<rparr>)
         else let keep_length = depths A ! state
           in if length candidate > keep_length
              then let split = length candidate - keep_length
                in (take split candidate, s\<lparr>secret_state := state, secret_candidate := drop split candidate\<rparr>)
              else ([], s\<lparr>secret_state := state, secret_candidate := candidate\<rparr>))"

fun secret_characters :: "string \<Rightarrow> secret_stream \<Rightarrow> string \<times> secret_stream" where
  "secret_characters [] s = ([], s)"
| "secret_characters (c # cs) s =
     (let (e, s) = secret_character c s; (es, s) = secret_characters cs s in (e @ es, s))"

definition redact_configured_secrets :: "string list \<Rightarrow> string \<Rightarrow> secret_stream \<Rightarrow> string \<times> secret_stream" where
  "redact_configured_secrets secrets text s = (if secrets = [] then (text, s) else secret_characters text s)"

definition initial_stream :: "string list \<Rightarrow> secret_stream" where
  "initial_stream secrets =
     \<lparr>secret_automaton = build_secret_automaton secrets, secret_state = 0, secret_candidate = []\<rparr>"

text \<open>The part of \<^verbatim>\<open>flush\<close> that concerns secrets: an unfinished candidate is replaced by the marker.\<close>

definition flush_candidate :: "secret_stream \<Rightarrow> string \<times> secret_stream" where
  "flush_candidate s = (if secret_candidate s \<noteq> []
     then (REDACTION_MARKER, s\<lparr>secret_state := 0, secret_candidate := []\<rparr>) else ([], s))"

section \<open>Longest suffixes\<close>

text \<open>The longest suffix of a word with a property; the empty word if there is none.\<close>

primrec lsuf :: "(string \<Rightarrow> bool) \<Rightarrow> string \<Rightarrow> string" where
  "lsuf P [] = []"
| "lsuf P (c # cs) = (if P (c # cs) then c # cs else lsuf P cs)"

lemma lsuf_suffix: "suffix (lsuf P w) w"
  by (induction w) (auto simp: suffix_Cons)

lemma length_lsuf: "length (lsuf P w) \<le> length w"
  by (simp add: lsuf_suffix suffix_length_le)

lemma lsuf_holds: "P [] \<Longrightarrow> P (lsuf P w)"
  by (induction w) auto

lemma lsuf_nonempty: "lsuf P w \<noteq> [] \<Longrightarrow> P (lsuf P w)"
  by (induction w) auto

lemma lsuf_longest: "suffix u w \<Longrightarrow> P u \<Longrightarrow> suffix u (lsuf P w)"
  by (induction w) (auto simp: suffix_Cons)

lemma lsuf_self: "P w \<Longrightarrow> lsuf P w = w"
  by (cases w) auto

lemma lsuf_unique:
  assumes "suffix t w" "P t \<or> t = []" "\<And>u. suffix u w \<Longrightarrow> P u \<Longrightarrow> suffix u t"
  shows "lsuf P w = t"
proof (rule suffix_order.antisym)
  show "suffix (lsuf P w) t" using assms(3)[OF lsuf_suffix] lsuf_nonempty by (cases "lsuf P w = []") auto
  show "suffix t (lsuf P w)" using assms(1,2) lsuf_longest by auto
qed

text \<open>A longest suffix may be computed through a coarser one.\<close>

lemma lsuf_lsuf:
  assumes "\<And>u. Q u \<Longrightarrow> P u"
  shows "lsuf Q (lsuf P w) = lsuf Q w"
proof (rule sym, rule lsuf_unique)
  show "suffix (lsuf Q (lsuf P w)) w" using lsuf_suffix suffix_order.trans by blast
  show "Q (lsuf Q (lsuf P w)) \<or> lsuf Q (lsuf P w) = []" using lsuf_nonempty by blast
  show "suffix u (lsuf Q (lsuf P w))" if "suffix u w" "Q u" for u
    using that assms lsuf_longest by blast
qed

definition prefix_closed :: "(string \<Rightarrow> bool) \<Rightarrow> bool" where
  "prefix_closed P \<longleftrightarrow> P [] \<and> (\<forall>w c. P (w @ [c]) \<longrightarrow> P w)"

lemma suffix_snoc_iff: "suffix u (w @ [c]) \<longleftrightarrow> u = [] \<or> (\<exists>v. u = v @ [c] \<and> suffix v w)"
  by (cases u rule: rev_cases) auto

lemma lsuf_snoc:
  assumes "prefix_closed P"
  shows "lsuf P (w @ [c]) = lsuf P (lsuf P w @ [c])"
proof (rule lsuf_unique)
  show "suffix (lsuf P (lsuf P w @ [c])) (w @ [c])"
    by (rule suffix_order.trans[OF lsuf_suffix]) (simp add: lsuf_suffix)
  show "P (lsuf P (lsuf P w @ [c])) \<or> lsuf P (lsuf P w @ [c]) = []" using lsuf_nonempty by blast
  show "suffix u (lsuf P (lsuf P w @ [c]))" if u: "suffix u (w @ [c])" "P u" for u
  proof (cases "u = []")
    case False
    then obtain v where v: "u = v @ [c]" "suffix v w" using u(1) suffix_snoc_iff[of u w c] by blast
    then have "suffix v (lsuf P w)" using u(2) assms by (intro lsuf_longest) (auto simp: prefix_closed_def)
    then have "suffix u (lsuf P w @ [c])" using v(1) by simp
    then show ?thesis using u(2) lsuf_longest by blast
  qed simp
qed

text \<open>Extending a word by one character, through the longest proper suffixes.\<close>

lemma lsuf_extend:
  assumes "prefix_closed P"
  shows "lsuf P (t @ [c]) = (if P (t @ [c]) then t @ [c] else if t = [] then [] else lsuf P (lsuf P (tl t) @ [c]))"
proof (cases t)
  case (Cons x xs)
  then show ?thesis using lsuf_snoc[OF assms, of xs c] by simp
qed simp

section \<open>The trie\<close>

text \<open>\<open>ws ! n\<close> is the word that leads from the root to node \<open>n\<close>.\<close>

definition trie :: "string list \<Rightarrow> automaton \<Rightarrow> bool" where
  "trie ws A \<longleftrightarrow> ws \<noteq> [] \<and> ws ! 0 = [] \<and> distinct ws \<and> prefix_closed (\<lambda>w. w \<in> set ws)
     \<and> length (transitions A) = length ws \<and> length (failures A) = length ws \<and> length (outputs A) = length ws
     \<and> depths A = map length ws
     \<and> (\<forall>n < length ws. distinct (map fst (transitions A ! n)))
     \<and> (\<forall>n < length ws. \<forall>c m. child_of A n c = Some m \<longleftrightarrow> m < length ws \<and> ws ! m = ws ! n @ [c])"

lemma trie_child: "trie ws A \<Longrightarrow> n < length ws \<Longrightarrow>
    child_of A n c = Some m \<longleftrightarrow> m < length ws \<and> ws ! m = ws ! n @ [c]"
  by (simp add: trie_def)

lemma trie_no_child: "trie ws A \<Longrightarrow> n < length ws \<Longrightarrow> child_of A n c = None \<longleftrightarrow> ws ! n @ [c] \<notin> set ws"
  using trie_child[of ws A n c] by (cases "child_of A n c") (auto simp: in_set_conv_nth)

lemma trie_root: "trie ws A \<Longrightarrow> 0 < length ws" "trie ws A \<Longrightarrow> ws ! 0 = []"
  by (simp_all add: trie_def)

lemma trie_node_eq: "trie ws A \<Longrightarrow> m < length ws \<Longrightarrow> n < length ws \<Longrightarrow> ws ! m = ws ! n \<Longrightarrow> m = n"
  by (simp add: trie_def nth_eq_iff_index_eq)

lemma trie_is_root: "trie ws A \<Longrightarrow> n < length ws \<Longrightarrow> ws ! n = [] \<longleftrightarrow> n = 0"
  using trie_node_eq[of ws A n 0] trie_root[of ws A] by auto

text \<open>A new node for the word \<open>ws ! n @ [c]\<close>.\<close>

definition grown :: "char \<Rightarrow> nat \<Rightarrow> automaton \<Rightarrow> automaton" where
  "grown c n A = \<lparr>transitions = (transitions A)[n := dset (transitions A ! n) c (length (transitions A))] @ [[]],
     failures = failures A @ [0], outputs = outputs A @ [0], depths = depths A @ [depths A ! n + 1]\<rparr>"

lemma child_of_grown:
  assumes "n < length (transitions A)"
  shows "k < length (transitions A) \<Longrightarrow>
      child_of (grown c n A) k d = (if k = n \<and> d = c then Some (length (transitions A)) else child_of A k d)"
    and "child_of (grown c n A) (length (transitions A)) d = None"
  using assms by (simp_all add: child_of_def grown_def nth_append nth_list_update)

lemma trie_cong: "transitions B = transitions A \<Longrightarrow> depths B = depths A \<Longrightarrow> length (failures B) = length (failures A) \<Longrightarrow>
    length (outputs B) = length (outputs A) \<Longrightarrow> trie ws B = trie ws A"
  by (simp add: trie_def child_of_def)

lemma distinct_keys_dset: "distinct (map fst d) \<Longrightarrow> distinct (map fst (dset d k v))"
  using distinct_dset[of d k v] by (simp add: dkeys_def)

lemma trie_grown:
  assumes "trie ws A" "n < length ws" "ws ! n @ [c] \<notin> set ws"
  shows "trie (ws @ [ws ! n @ [c]]) (grown c n A)"
proof -
  let ?w = "ws ! n @ [c]" and ?B = "grown c n A"
  have len: "length (transitions A) = length ws" using assms(1) by (simp add: trie_def)
  have "child_of ?B k d = Some m \<longleftrightarrow> m < Suc (length ws) \<and> (ws @ [?w]) ! m = (ws @ [?w]) ! k @ [d]"
    if k: "k < Suc (length ws)" for k d m
  proof (cases "k = length ws")
    case True
    have "w \<in> set ws" if "w @ [d] \<in> set ws" for w using that assms(1) by (auto simp: trie_def prefix_closed_def)
    from this[of ?w] assms(3) have "?w @ [d] \<notin> set (ws @ [?w])" by (auto simp del: append_assoc)
    then have "(ws @ [?w]) ! m \<noteq> ?w @ [d]" if "m < Suc (length ws)" using that nth_mem[of m "ws @ [?w]"] by fastforce
    then show ?thesis using True child_of_grown(2)[of n A c d] assms(2) len by (auto simp del: append_assoc)
  next
    case False
    then have k': "k < length ws" using k by simp
    have "ws ! k @ [d] = ?w \<longleftrightarrow> k = n \<and> d = c"
      using trie_node_eq[OF assms(1) k' assms(2)] by auto
    moreover have "m < length ws \<Longrightarrow> ws ! m \<noteq> ?w" using assms(3) nth_mem by metis
    ultimately show ?thesis
      using k' child_of_grown(1)[of n A k c d] assms trie_child[OF assms(1) k', of d m] len
      by (auto simp: nth_append less_Suc_eq trie_no_child split: if_splits)
  qed
  moreover have "distinct (map fst (transitions ?B ! k))" if "k < Suc (length ws)" for k
    using that assms(1,2) len unfolding grown_def trie_def
    by (auto simp: nth_append nth_list_update less_Suc_eq intro: distinct_keys_dset)
  moreover have "prefix_closed (\<lambda>w. w \<in> set (ws @ [?w]))"
    using assms(1,2) by (auto simp: trie_def prefix_closed_def)
  ultimately show ?thesis
    using assms len unfolding trie_def[of "ws @ [?w]"]
    by (simp add: trie_def grown_def nth_append)
qed

lemma insert_character_trie:
  assumes "trie ws A" "n < length ws" "insert_character c (A, n) = (B, m)"
  shows "\<exists>vs. trie (ws @ vs) B \<and> m < length (ws @ vs) \<and> (ws @ vs) ! m = ws ! n @ [c]
    \<and> set (ws @ vs) = insert (ws ! n @ [c]) (set ws)
    \<and> outputs B = outputs A @ replicate (length vs) 0 \<and> failures B = failures A @ replicate (length vs) 0"
proof (cases "child_of A n c")
  case (Some k)
  then have "k < length ws" "ws ! k = ws ! n @ [c]" using trie_child[OF assms(1,2)] by auto
  moreover have "B = A" "m = k" using assms(3) Some by (simp_all add: insert_character_def)
  ultimately show ?thesis using assms(1) by (intro exI[of _ "[]"]) (auto simp: insert_absorb dest: nth_mem)
next
  case None
  then have new: "ws ! n @ [c] \<notin> set ws" using trie_no_child[OF assms(1,2)] by simp
  have "B = grown c n A" "m = length ws"
    using assms(1,3) None by (auto simp: insert_character_def Let_def grown_def trie_def)
  then show ?thesis
    using trie_grown[OF assms(1,2) new] by (intro exI[of _ "[ws ! n @ [c]]"]) (simp_all add: grown_def)
qed

text \<open>The words that a walk from a node adds, and the node it ends at.\<close>

definition inserts :: "string list \<Rightarrow> automaton \<Rightarrow> string set \<Rightarrow> string \<Rightarrow> automaton \<times> nat \<Rightarrow> string list \<Rightarrow> bool" where
  "inserts ws A W u = (\<lambda>(B, m) vs. trie (ws @ vs) B \<and> m < length (ws @ vs) \<and> (ws @ vs) ! m = u
     \<and> set (ws @ vs) = set ws \<union> W
     \<and> outputs B = outputs A @ replicate (length vs) 0 \<and> failures B = failures A @ replicate (length vs) 0)"

lemma insert_characters_trie:
  assumes "trie ws A" "n < length ws"
  shows "\<exists>vs. inserts ws A {ws ! n @ p |p. prefix p w \<and> p \<noteq> []} (ws ! n @ w) (fold insert_character w (A, n)) vs"
  using assms
proof (induction w arbitrary: ws A n)
  case Nil
  then show ?case by (intro exI[of _ "[]"]) (auto simp: inserts_def)
next
  case (Cons c w)
  obtain B m where B: "insert_character c (A, n) = (B, m)" by force
  from insert_character_trie[OF Cons.prems this] obtain vs where vs: "trie (ws @ vs) B" "m < length (ws @ vs)"
    "(ws @ vs) ! m = ws ! n @ [c]" "set (ws @ vs) = insert (ws ! n @ [c]) (set ws)"
    "outputs B = outputs A @ replicate (length vs) 0" "failures B = failures A @ replicate (length vs) 0" by blast
  from Cons.IH[OF vs(1,2)] obtain us where
    us: "inserts (ws @ vs) B {(ws ! n @ [c]) @ p |p. prefix p w \<and> p \<noteq> []} ((ws ! n @ [c]) @ w)
      (fold insert_character w (B, m)) us" unfolding vs(3) by blast
  have "{ws ! n @ p |p. prefix p (c # w) \<and> p \<noteq> []} =
      insert (ws ! n @ [c]) {(ws ! n @ [c]) @ p |p. prefix p w \<and> p \<noteq> []}"
    by (auto simp: prefix_Cons)
  with us vs(4-6) B show ?case
    by (intro exI[of _ "vs @ us"]) (auto simp: inserts_def replicate_add)
qed

text \<open>While secrets are inserted, the output of a node is its depth if its word is a secret.\<close>

definition unlinked :: "string set \<Rightarrow> string list \<Rightarrow> automaton \<Rightarrow> bool" where
  "unlinked S ws A \<longleftrightarrow> (\<forall>n < length ws. failures A ! n = 0 \<and> outputs A ! n = (if ws ! n \<in> S then length (ws ! n) else 0))"

lemma insert_secret_trie:
  assumes "trie ws A" "unlinked S ws A" "S \<subseteq> set ws"
  shows "\<exists>vs. trie (ws @ vs) (insert_secret w A) \<and> unlinked (insert w S) (ws @ vs) (insert_secret w A)
    \<and> set (ws @ vs) = set ws \<union> {p. prefix p w}"
proof -
  obtain B m where B: "fold insert_character w (A, 0) = (B, m)" by force
  obtain vs where "inserts ws A {p. prefix p w \<and> p \<noteq> []} w (B, m) vs"
    using insert_characters_trie[OF assms(1) trie_root(1)[OF assms(1)], of w] B trie_root(2)[OF assms(1)] by auto
  then have vs: "trie (ws @ vs) B" "m < length (ws @ vs)" "(ws @ vs) ! m = w"
    "set (ws @ vs) = set ws \<union> {p. prefix p w \<and> p \<noteq> []}"
    "outputs B = outputs A @ replicate (length vs) 0" "failures B = failures A @ replicate (length vs) 0"
    by (simp_all add: inserts_def)
  have I: "insert_secret w A = B\<lparr>outputs := (outputs B)[m := max (outputs B ! m) (length w)]\<rparr>"
    by (simp add: insert_secret_def B)
  have "trie (ws @ vs) (insert_secret w A)"
    using vs(1) trie_cong[of "insert_secret w A" B "ws @ vs"] by (simp add: I)
  moreover have "[] \<in> set ws" using assms(1) by (simp add: trie_def prefix_closed_def)
  then have "set (ws @ vs) = set ws \<union> {p. prefix p w}" unfolding vs(4) by auto
  moreover have "unlinked (insert w S) (ws @ vs) (insert_secret w A)"
    unfolding unlinked_def
  proof (intro allI impI)
    fix n
    assume n: "n < length (ws @ vs)"
    have lens: "length (outputs A) = length ws" "length (failures A) = length ws" using assms(1) by (simp_all add: trie_def)
    have eq: "n = m \<longleftrightarrow> (ws @ vs) ! n = w" using trie_node_eq[OF vs(1) n vs(2)] vs(3) by auto
    have raw: "outputs B ! n = (if (ws @ vs) ! n \<in> S then length ((ws @ vs) ! n) else 0) \<and> failures B ! n = 0"
    proof (cases "n < length ws")
      case False
      then have "(ws @ vs) ! n \<notin> set ws" using vs(1) n
        by (auto simp: trie_def nth_append)
      with False n assms(3) lens show ?thesis by (auto simp: vs(5,6) nth_append)
    qed (use assms(2) lens in \<open>auto simp: vs(5,6) nth_append unlinked_def\<close>)
    have "length (outputs B) = length (ws @ vs)" using vs(1) by (simp add: trie_def)
    with n raw eq vs(3) show "failures (insert_secret w A) ! n = 0 \<and> outputs (insert_secret w A) ! n =
      (if (ws @ vs) ! n \<in> insert w S then length ((ws @ vs) ! n) else 0)"
      by (auto simp: I nth_list_update)
  qed
  ultimately show ?thesis by blast
qed

definition begins :: "string list \<Rightarrow> string \<Rightarrow> bool" where
  "begins secrets w \<longleftrightarrow> w = [] \<or> list_ex (\<lambda>s. prefix w s) secrets"

lemma insert_secrets_trie:
  "\<exists>ws. trie ws (fold insert_secret secrets empty_automaton)
    \<and> unlinked (set secrets) ws (fold insert_secret secrets empty_automaton) \<and> set ws = {w. begins secrets w}"
proof (induction secrets rule: rev_induct)
  case Nil
  have "trie [[]] empty_automaton" "unlinked {} [[]] empty_automaton"
    by (auto simp: trie_def empty_automaton_def prefix_closed_def child_of_def unlinked_def)
  then show ?case by (intro exI[of _ "[[]]"]) (simp add: begins_def)
next
  case (snoc w secrets)
  then obtain ws where ws: "trie ws (fold insert_secret secrets empty_automaton)"
    "unlinked (set secrets) ws (fold insert_secret secrets empty_automaton)" "set ws = {w. begins secrets w}" by blast
  have "set secrets \<subseteq> set ws" by (auto simp: ws(3) begins_def list_ex_iff)
  from insert_secret_trie[OF ws(1,2) this, of w] obtain vs where
    "trie (ws @ vs) (fold insert_secret (secrets @ [w]) empty_automaton)"
    "unlinked (insert w (set secrets)) (ws @ vs) (fold insert_secret (secrets @ [w]) empty_automaton)"
    "set (ws @ vs) = set ws \<union> {p. prefix p w}" by auto
  moreover have "set ws \<union> {p. prefix p w} = {p. begins (secrets @ [w]) p}" by (auto simp: ws(3) begins_def)
  ultimately show ?case by (intro exI[of _ "ws @ vs"]) simp
qed

section \<open>Failure links\<close>

text \<open>
  The failure link of a node leads to the longest proper suffix of its word that is in the trie, and
  its output is the length of the longest secret that ends its word.
\<close>

definition linked :: "string set \<Rightarrow> string list \<Rightarrow> automaton \<Rightarrow> nat \<Rightarrow> bool" where
  "linked S ws A n \<longleftrightarrow> failures A ! n < length ws
     \<and> ws ! (failures A ! n) = lsuf (\<lambda>w. w \<in> set ws) (tl (ws ! n))
     \<and> outputs A ! n = length (lsuf (\<lambda>w. w \<in> S) (ws ! n))"

definition unlinked_node :: "string set \<Rightarrow> string list \<Rightarrow> automaton \<Rightarrow> nat \<Rightarrow> bool" where
  "unlinked_node S ws A n \<longleftrightarrow> failures A ! n = 0 \<and> outputs A ! n = (if ws ! n \<in> S then length (ws ! n) else 0)"

lemma unlinked_shallow:
  assumes "trie ws A" "n < length ws" "unlinked_node S ws A n" "length (ws ! n) \<le> 1"
  shows "linked S ws A n"
proof -
  have "tl (ws ! n) = []" using assms(4) by (cases "ws ! n") auto
  moreover have "lsuf (\<lambda>w. w \<in> S) (ws ! n) = (if ws ! n \<in> S then ws ! n else [])"
    using assms(4) by (cases "ws ! n") auto
  ultimately show ?thesis
    using assms(3) trie_root[OF assms(1)] by (auto simp: linked_def unlinked_node_def)
qed

lemma trie_closed: "trie ws A \<Longrightarrow> prefix_closed (\<lambda>w. w \<in> set ws)"
  by (simp add: trie_def)

text \<open>Following failure links finds the longest suffix; the depth of the node is enough fuel.\<close>

lemma chase_correct:
  assumes "trie ws A" "n < length ws" "length (ws ! n) \<le> fuel"
    and "\<And>k. k < length ws \<Longrightarrow> length (ws ! k) \<le> length (ws ! n) \<Longrightarrow> linked S ws A k"
    and "g = (case child_of A (chase fuel A c n) c of None \<Rightarrow> 0 | Some m \<Rightarrow> m)"
  shows "g < length ws \<and> ws ! g = lsuf (\<lambda>w. w \<in> set ws) (ws ! n @ [c])"
  using assms(2-5)
proof (induction fuel arbitrary: n)
  case 0
  then have n: "ws ! n = []" "n = 0" using trie_is_root[OF assms(1)] by auto
  show ?case
    using 0 n trie_root[OF assms(1)] trie_child[OF assms(1), of 0 c] trie_no_child[OF assms(1), of 0 c]
    by (cases "child_of A 0 c") (auto dest: nth_mem)
next
  case (Suc fuel)
  show ?case
  proof (cases "n \<noteq> 0 \<and> child_of A n c = None")
    case True
    let ?f = "failures A ! n"
    have l: "?f < length ws" "ws ! ?f = lsuf (\<lambda>w. w \<in> set ws) (tl (ws ! n))"
      using Suc.prems(3)[OF Suc.prems(1)] by (simp_all add: linked_def)
    have "ws ! n \<noteq> []" using True trie_is_root[OF assms(1) Suc.prems(1)] by simp
    then have shorter: "length (ws ! ?f) < length (ws ! n)"
      using length_lsuf[of "\<lambda>w. w \<in> set ws" "tl (ws ! n)"] l(2) by (cases "ws ! n") auto
    have "lsuf (\<lambda>w. w \<in> set ws) (ws ! n @ [c]) = lsuf (\<lambda>w. w \<in> set ws) (ws ! ?f @ [c])"
      using lsuf_extend[OF trie_closed[OF assms(1)], of "ws ! n" c] l(2) True \<open>ws ! n \<noteq> []\<close>
        trie_no_child[OF assms(1) Suc.prems(1), of c] by simp
    moreover have "g < length ws \<and> ws ! g = lsuf (\<lambda>w. w \<in> set ws) (ws ! ?f @ [c])"
      by (rule Suc.IH[OF l(1)]) (use Suc.prems shorter True in auto)
    ultimately show ?thesis by simp
  next
    case False
    then have g: "g = (case child_of A n c of None \<Rightarrow> 0 | Some m \<Rightarrow> m)" using Suc.prems(4) by auto
    show ?thesis
    proof (cases "child_of A n c")
      case None
      with False have "n = 0" by simp
      with None g trie_root[OF assms(1)] trie_no_child[OF assms(1), of 0 c] show ?thesis by simp
    next
      case (Some m)
      then have m: "m < length ws" "ws ! m = ws ! n @ [c]" using trie_child[OF assms(1) Suc.prems(1)] by auto
      then have "ws ! n @ [c] \<in> set ws" by (metis nth_mem)
      with m g Some show ?thesis by (simp add: lsuf_self)
    qed
  qed
qed

lemma goto_correct:
  assumes "trie ws A" "n < length ws"
    and "\<And>k. k < length ws \<Longrightarrow> length (ws ! k) \<le> length (ws ! n) \<Longrightarrow> linked S ws A k"
  shows "goto A n c < length ws \<and> ws ! goto A n c = lsuf (\<lambda>w. w \<in> set ws) (ws ! n @ [c])"
  by (rule chase_correct[OF assms(1,2) _ assms(3)]) (use assms(1,2) in \<open>simp_all add: goto_def trie_def\<close>)

text \<open>The state of the construction: the nodes of \<open>L\<close> are linked, the others are as the trie left them.\<close>

definition linking :: "string set \<Rightarrow> string list \<Rightarrow> nat set \<Rightarrow> automaton \<Rightarrow> bool" where
  "linking S ws L A \<longleftrightarrow> trie ws A \<and>
     (\<forall>n < length ws. if n \<in> L then linked S ws A n else unlinked_node S ws A n)"

lemma transitions_link_child [simp]: "transitions (link_child u p A) = transitions A"
  by (simp add: link_child_def Let_def split: prod.split)

lemma link_child_correct:
  assumes "linking S ws L A" "S \<subseteq> set ws" "u < length ws" "u \<noteq> 0" "u \<in> L" "child_of A u c = Some v" "v \<notin> L"
    and "\<And>k. k < length ws \<Longrightarrow> length (ws ! k) \<le> length (ws ! u) \<Longrightarrow> k \<in> L"
  shows "linking S ws (insert v L) (link_child u (c, v) A)"
proof -
  let ?W = "\<lambda>w. w \<in> set ws" and ?f = "goto A (failures A ! u) c" and ?B = "link_child u (c, v) A"
  have t: "trie ws A" using assms(1) by (simp add: linking_def)
  have L: "linked S ws A k" if "k < length ws" "k \<in> L" for k using that assms(1) unfolding linking_def by metis
  have lens: "length (failures A) = length ws" "length (outputs A) = length ws" using t by (simp_all add: trie_def)
  have u: "ws ! u \<noteq> []" using trie_is_root[OF t assms(3)] assms(4) by simp
  have v: "v < length ws" "ws ! v = ws ! u @ [c]" using trie_child[OF t assms(3)] assms(6) by auto
  have fu: "failures A ! u < length ws" "ws ! (failures A ! u) = lsuf ?W (tl (ws ! u))"
    using L[OF assms(3,5)] by (simp_all add: linked_def)
  have depth: "length (ws ! (failures A ! u)) < length (ws ! u)"
    using fu(2) length_lsuf[of ?W "tl (ws ! u)"] u by (cases "ws ! u") auto
  have "?f < length ws \<and> ws ! ?f = lsuf ?W (ws ! (failures A ! u) @ [c])"
    by (rule goto_correct[OF t fu(1), where S = S]) (use L assms(8) depth in auto)
  then have f: "?f < length ws" "ws ! ?f = lsuf ?W (tl (ws ! v))"
    using lsuf_snoc[OF trie_closed[OF t], of "tl (ws ! u)" c] fu(2) v(2) u by simp_all
  have "length (ws ! ?f) \<le> length (ws ! u)" using f(2) v(2) length_lsuf[of ?W "tl (ws ! v)"] u by (cases "ws ! u") auto
  then have of: "outputs A ! ?f = length (lsuf (\<lambda>w. w \<in> S) (ws ! ?f))"
    using L[OF f(1) assms(8)[OF f(1)]] by (simp add: linked_def)
  have "lsuf (\<lambda>w. w \<in> S) (ws ! ?f) = lsuf (\<lambda>w. w \<in> S) (tl (ws ! v))"
    unfolding f(2) by (rule lsuf_lsuf) (use assms(2) in blast)
  moreover have "outputs A ! v = (if ws ! v \<in> S then length (ws ! v) else 0)"
    using assms(1,7) v(1) by (auto simp: linking_def unlinked_node_def)
  moreover obtain a r where "ws ! v = a # r" using v(2) by (metis neq_Nil_conv snoc_eq_iff_butlast)
  ultimately have out: "max (outputs A ! v) (outputs A ! ?f) = length (lsuf (\<lambda>w. w \<in> S) (ws ! v))"
    using length_lsuf[of "\<lambda>w. w \<in> S" r] by (simp add: of)
  have B: "failures ?B = (failures A)[v := ?f]"
    "outputs ?B = (outputs A)[v := max (outputs A ! v) (outputs A ! ?f)]" "depths ?B = depths A"
    by (simp_all add: link_child_def Let_def)
  have "trie ws ?B" using t trie_cong[of ?B A ws] B by simp
  moreover have "linked S ws ?B v" using f out v(1) lens by (simp add: linked_def B)
  moreover have "linked S ws ?B n \<longleftrightarrow> linked S ws A n" "unlinked_node S ws ?B n \<longleftrightarrow> unlinked_node S ws A n"
    if "n \<noteq> v" for n using that by (simp_all add: linked_def unlinked_node_def B)
  moreover have "if n \<in> insert v L then linked S ws ?B n else unlinked_node S ws ?B n" if "n < length ws" for n
    using that assms(1) calculation(2-4) by (cases "n = v") (simp_all add: linking_def)
  ultimately show ?thesis unfolding linking_def by blast
qed

text \<open>The children of a node.\<close>

definition kids :: "string list \<Rightarrow> nat \<Rightarrow> nat set" where
  "kids ws u = {v. v < length ws \<and> (\<exists>c. ws ! v = ws ! u @ [c])}"

lemma child_items:
  assumes "trie ws A" "u < length ws"
  shows "(c, v) \<in> set (transitions A ! u) \<longleftrightarrow> child_of A u c = Some v"
    and "set (map snd (transitions A ! u)) = kids ws u"
    and "distinct (map snd (transitions A ! u))"
proof -
  have d: "distinct (map fst (transitions A ! u))" using assms by (simp add: trie_def)
  then have i: "(c, v) \<in> set (transitions A ! u) \<longleftrightarrow> child_of A u c = Some v" for c v
    by (simp add: child_of_def)
  then show "(c, v) \<in> set (transitions A ! u) \<longleftrightarrow> child_of A u c = Some v" .
  show "set (map snd (transitions A ! u)) = kids ws u"
  proof (rule set_eqI)
    fix v
    have "v \<in> set (map snd (transitions A ! u)) \<longleftrightarrow> (\<exists>c. (c, v) \<in> set (transitions A ! u))" by force
    then show "v \<in> set (map snd (transitions A ! u)) \<longleftrightarrow> v \<in> kids ws u" by (simp add: i trie_child[OF assms] kids_def)
  qed
  have "inj_on snd (set (transitions A ! u))"
  proof (rule inj_onI)
    fix x y
    assume "x \<in> set (transitions A ! u)" "y \<in> set (transitions A ! u)" "snd x = snd y"
    then have "ws ! snd x = ws ! u @ [fst x]" "ws ! snd x = ws ! u @ [fst y]"
      using i[of "fst x" "snd x"] i[of "fst y" "snd y"] trie_child[OF assms] by (metis prod.collapse)+
    with \<open>snd x = snd y\<close> show "x = y" by (simp add: prod_eq_iff)
  qed
  moreover have "distinct (transitions A ! u)" using d by (simp add: distinct_map)
  ultimately show "distinct (map snd (transitions A ! u))" by (simp add: distinct_map)
qed

lemma kids_parent: "trie ws A \<Longrightarrow> v \<in> kids ws u \<Longrightarrow> v \<in> kids ws u' \<Longrightarrow> u < length ws \<Longrightarrow> u' < length ws \<Longrightarrow> u = u'"
  using trie_node_eq[of ws A u u'] by (auto simp: kids_def)

lemma kids_not_root: "trie ws A \<Longrightarrow> 0 \<notin> kids ws u"
  using trie_root[of ws A] by (auto simp: kids_def)

lemma link_children_correct:
  assumes "linking S ws L A" "S \<subseteq> set ws" "u < length ws" "u \<noteq> 0" "u \<in> L"
    "\<And>k. k < length ws \<Longrightarrow> length (ws ! k) \<le> length (ws ! u) \<Longrightarrow> k \<in> L"
    and "set xs \<subseteq> set (transitions A ! u)" "distinct (map snd xs)" "set (map snd xs) \<inter> L = {}"
  shows "linking S ws (L \<union> set (map snd xs)) (fold (link_child u) xs A)
    \<and> transitions (fold (link_child u) xs A) = transitions A"
  using assms(1,5-9)
proof (induction xs arbitrary: A L)
  case (Cons x xs)
  obtain c v where x: "x = (c, v)" by force
  have "trie ws A" using Cons.prems(1) by (simp add: linking_def)
  then have "child_of A u c = Some v" using Cons.prems(4) x child_items(1)[OF _ assms(3)] by auto
  then have "linking S ws (insert v L) (link_child u x A)"
    using link_child_correct[OF Cons.prems(1) assms(2-4) Cons.prems(2) _ _ Cons.prems(3)] Cons.prems(6) x by simp
  then have "linking S ws (insert v L \<union> set (map snd xs)) (fold (link_child u) xs (link_child u x A))
    \<and> transitions (fold (link_child u) xs (link_child u x A)) = transitions (link_child u x A)"
    by (rule Cons.IH) (use Cons.prems x in auto)
  then show ?case by (simp add: x)
qed simp

text \<open>
  The queue: \<open>X\<close> are the nodes taken from it so far. It holds the linked nodes that were not taken,
  by increasing depth, and the linked nodes are the root and the children of the root and of \<open>X\<close>.
\<close>

definition linked_nodes :: "string list \<Rightarrow> nat set \<Rightarrow> nat set" where
  "linked_nodes ws X = insert 0 (\<Union> (kids ws ` insert 0 X))"

definition queue_ok :: "string list \<Rightarrow> nat set \<Rightarrow> nat list \<Rightarrow> bool" where
  "queue_ok ws X Q \<longleftrightarrow> X \<subseteq> linked_nodes ws X - {0} \<and> set Q = linked_nodes ws X - {0} - X \<and> distinct Q
     \<and> sorted_wrt (\<lambda>p q. length (ws ! p) \<le> length (ws ! q)) Q
     \<and> list_all (\<lambda>q. length (ws ! q) \<le> length (ws ! hd Q) + 1) Q"

lemma linked_nodes_bound: "trie ws A \<Longrightarrow> linked_nodes ws X \<subseteq> {..<length ws}"
  using trie_root(1)[of ws A] by (auto simp: linked_nodes_def kids_def)

text \<open>Every node that is no deeper than the head of the queue is linked; with an empty queue all are.\<close>

lemma queue_complete:
  assumes "trie ws A" "queue_ok ws X Q" "k < length ws" "Q = [] \<or> length (ws ! k) \<le> length (ws ! hd Q)"
  shows "k \<in> linked_nodes ws X"
  using assms(3,4)
proof (induction "length (ws ! k)" arbitrary: k)
  case 0
  then show ?case using trie_is_root[OF assms(1)] by (simp add: linked_nodes_def)
next
  case (Suc d)
  obtain w c where w: "ws ! k = w @ [c]" using Suc.hyps(2) by (cases "ws ! k" rule: rev_cases) auto
  then have "w \<in> set ws" using assms(1) Suc.prems(1) nth_mem[of k ws] by (auto simp: trie_def prefix_closed_def)
  then obtain p where p: "p < length ws" "ws ! p = w" by (auto simp: in_set_conv_nth)
  have pL: "p \<in> linked_nodes ws X" by (rule Suc.hyps(1)) (use Suc p w in auto)
  have k: "k \<in> kids ws p" using w p Suc.prems(1) by (auto simp: kids_def)
  have "p \<notin> set Q"
  proof
    assume q: "p \<in> set Q"
    then have "Q \<noteq> []" "length (ws ! hd Q) \<le> length (ws ! p)"
      using assms(2) by (cases Q; auto simp: queue_ok_def)+
    with Suc.prems(2) p w show False by simp
  qed
  then have "p = 0 \<or> p \<in> X" using pL assms(2) by (auto simp: queue_ok_def)
  with k show ?case by (auto simp: linked_nodes_def)
qed

lemma sorted_wrt_level: "(\<And>x. x \<in> set xs \<Longrightarrow> f x = n) \<Longrightarrow> sorted_wrt (\<lambda>p q. f p \<le> (f q :: nat)) xs"
  by (induction xs) auto

lemma queue_step:
  assumes "trie ws A" "queue_ok ws X (u # Q)"
  shows "queue_ok ws (insert u X) (Q @ map snd (transitions A ! u))"
    and "linked_nodes ws (insert u X) = linked_nodes ws X \<union> kids ws u"
    and "kids ws u \<inter> linked_nodes ws X = {}"
    and "u \<in> linked_nodes ws X" "u \<noteq> 0" "u \<notin> X" "u < length ws"
proof -
  show u: "u \<in> linked_nodes ws X" "u \<noteq> 0" "u \<notin> X" using assms(2) by (auto simp: queue_ok_def)
  then show ul: "u < length ws" using linked_nodes_bound[OF assms(1)] by blast
  show L: "linked_nodes ws (insert u X) = linked_nodes ws X \<union> kids ws u" by (auto simp: linked_nodes_def)
  have X: "x < length ws" if "x \<in> insert 0 X" for x
    using that assms linked_nodes_bound[OF assms(1)] trie_root(1)[OF assms(1)] by (auto simp: queue_ok_def)
  have "v \<notin> linked_nodes ws X" if v: "v \<in> kids ws u" for v
  proof
    assume "v \<in> linked_nodes ws X"
    moreover have "v \<noteq> 0" using v kids_not_root[OF assms(1), of u] by metis
    ultimately obtain x where x: "x \<in> insert 0 X" "v \<in> kids ws x" by (auto simp: linked_nodes_def)
    then have "u = x" using kids_parent[OF assms(1) v x(2) ul X] by blast
    with x(1) u show False by blast
  qed
  then show disj: "kids ws u \<inter> linked_nodes ws X = {}" by blast
  note items = child_items(2,3)[OF assms(1) ul]
  have len: "length (ws ! v) = length (ws ! u) + 1" if "v \<in> kids ws u" for v using that by (auto simp: kids_def)
  have old: "length (ws ! u) \<le> length (ws ! q)" "length (ws ! q) \<le> length (ws ! u) + 1" if "q \<in> set Q" for q
    using that assms(2) by (auto simp: queue_ok_def list_all_iff)
  let ?Q = "Q @ map snd (transitions A ! u)"
  have bounds: "length (ws ! u) \<le> length (ws ! q) \<and> length (ws ! q) \<le> length (ws ! u) + 1" if "q \<in> set ?Q" for q
    using that old[of q] len[of q] unfolding set_append items(1) by (elim UnE) simp_all
  have near: "length (ws ! q) \<le> length (ws ! hd ?Q) + 1" if "q \<in> set ?Q" for q
    using bounds[OF that] bounds[of "hd ?Q"] hd_in_set[of ?Q] that by (metis add_le_mono1 empty_iff empty_set le_trans)
  have "sorted_wrt (\<lambda>p q. length (ws ! p) \<le> length (ws ! q)) (map snd (transitions A ! u))"
    by (rule sorted_wrt_level) (use len items(1) in blast)
  moreover have "sorted_wrt (\<lambda>p q. length (ws ! p) \<le> length (ws ! q)) Q" using assms(2) by (simp add: queue_ok_def)
  ultimately have "sorted_wrt (\<lambda>p q. length (ws ! p) \<le> length (ws ! q)) (Q @ map snd (transitions A ! u))"
    unfolding sorted_wrt_append items(1) using old(2) len by simp
  moreover have "distinct (Q @ map snd (transitions A ! u))"
    using assms(2) disj items by (auto simp: queue_ok_def)
  moreover have "set (Q @ map snd (transitions A ! u)) = linked_nodes ws (insert u X) - {0} - insert u X"
    using assms(2) u disj items(1) kids_not_root[OF assms(1), of u] unfolding L queue_ok_def set_append by auto
  moreover have "insert u X \<subseteq> linked_nodes ws (insert u X) - {0}" using assms(2) u L by (auto simp: queue_ok_def)
  ultimately show "queue_ok ws (insert u X) (Q @ map snd (transitions A ! u))"
    using near by (simp add: queue_ok_def list_all_iff)
qed

lemma link_nodes_correct:
  assumes "linking S ws (linked_nodes ws X) A" "S \<subseteq> set ws" "queue_ok ws X Q" "length ws \<le> fuel + card X"
  shows "linking S ws {..<length ws} (link_nodes fuel Q A)"
  using assms(1,3,4)
proof (induction fuel Q A arbitrary: X rule: link_nodes.induct)
  case (1 fuel A)
  then have "trie ws A" by (simp add: linking_def)
  then have "linked_nodes ws X = {..<length ws}"
    using queue_complete[OF _ 1(2)] linked_nodes_bound by blast
  with 1 show ?case by simp
next
  case (2 node pending A)
  then have t: "trie ws A" by (simp add: linking_def)
  note q = queue_step[OF t 2(2)]
  have "X \<subseteq> {..<length ws}" using 2(2) linked_nodes_bound[OF t] by (auto simp: queue_ok_def)
  then have "insert node X \<subseteq> {..<length ws}" using q(7) by blast
  then have "card (insert node X) \<le> length ws" using card_mono[of "{..<length ws}"] by simp
  moreover have "finite X" using \<open>X \<subseteq> {..<length ws}\<close> finite_subset by blast
  ultimately show ?case using 2(3) q(6) by simp
next
  case (3 fuel node pending A)
  then have t: "trie ws A" by (simp add: linking_def)
  note q = queue_step[OF t 3(3)]
  note items = child_items(2,3)[OF t q(7)]
  have "linking S ws (linked_nodes ws X \<union> set (map snd (transitions A ! node))) (fold (link_child node) (transitions A ! node) A)"
    by (rule link_children_correct[OF 3(2) assms(2) q(7,5,4), THEN conjunct1])
       (use queue_complete[OF t 3(3)] items q(3) in auto)
  then have "linking S ws (linked_nodes ws (insert node X)) (fold (link_child node) (transitions A ! node) A)"
    by (simp only: items(1) q(2))
  moreover have "finite X" using 3(3) linked_nodes_bound[OF t, of X] by (meson finite_lessThan finite_subset subset_trans Diff_subset queue_ok_def)
  then have "length ws \<le> fuel + card (insert node X)" using 3(4) q(6) by simp
  ultimately show ?case using 3(1)[OF _ q(1)] by simp
qed

section \<open>The automaton is correct\<close>

text \<open>A finished automaton: every node is linked.\<close>

definition automaton_ok :: "string list \<Rightarrow> string list \<Rightarrow> automaton \<Rightarrow> bool" where
  "automaton_ok secrets ws A \<longleftrightarrow> trie ws A \<and> set ws = {w. begins secrets w}
     \<and> (\<forall>n < length ws. linked (set secrets) ws A n)"

lemma build_correct: "\<exists>ws. automaton_ok secrets ws (build_secret_automaton secrets)"
proof -
  let ?A = "fold insert_secret secrets empty_automaton"
  obtain ws where ws: "trie ws ?A" "unlinked (set secrets) ws ?A" "set ws = {w. begins secrets w}"
    using insert_secrets_trie by blast
  have S: "set secrets \<subseteq> set ws" by (auto simp: ws(3) begins_def list_ex_iff)
  have r: "0 < length ws" "ws ! 0 = []" using trie_root[OF ws(1)] by auto
  note items = child_items(2,3)[OF ws(1) r(1)]
  have L: "linked_nodes ws {} = insert 0 (kids ws 0)" by (simp add: linked_nodes_def)
  have len: "length (ws ! v) = 1" if "v \<in> kids ws 0" for v using that r(2) by (auto simp: kids_def)
  have "linked (set secrets) ws ?A n" if "n < length ws" "n \<in> linked_nodes ws {}" for n
    by (rule unlinked_shallow[OF ws(1) that(1)])
       (use that ws(2) L len r(2) in \<open>auto simp: unlinked_def unlinked_node_def\<close>)
  then have "linking (set secrets) ws (linked_nodes ws {}) ?A"
    using ws(1,2) by (auto simp: linking_def unlinked_def unlinked_node_def)
  moreover have "queue_ok ws {} (map snd (transitions ?A ! 0))"
    using items L len kids_not_root[OF ws(1), of 0] sorted_wrt_level[of "map snd (transitions ?A ! 0)" "\<lambda>v. length (ws ! v)" 1]
    unfolding queue_ok_def list_all_iff items(1) by auto
  moreover have "length (transitions ?A) = length ws" using ws(1) by (simp add: trie_def)
  ultimately have "linking (set secrets) ws {..<length ws} (build_secret_automaton secrets)"
    using link_nodes_correct[OF _ S, of "{}"] by (simp add: build_secret_automaton_def Let_def)
  then show ?thesis using ws(3) by (auto simp: automaton_ok_def linking_def)
qed

section \<open>Matching on words\<close>

text \<open>
  The reference matcher keeps the pending text itself: the longest suffix of what was read since the
  last match that begins a secret.
\<close>

definition word_step :: "string list \<Rightarrow> char \<Rightarrow> string \<Rightarrow> string \<times> string" where
  "word_step secrets c w = (let t = w @ [c]; m = lsuf (\<lambda>u. u \<in> set secrets) t; k = lsuf (begins secrets) t
     in if m \<noteq> [] then (take (length t - length m) t @ REDACTION_MARKER, [])
        else (take (length t - length k) t, k))"

fun word_run :: "string list \<Rightarrow> string \<Rightarrow> string \<Rightarrow> string \<times> string" where
  "word_run secrets [] w = ([], w)"
| "word_run secrets (c # cs) w =
     (let (e, w) = word_step secrets c w; (es, w) = word_run secrets cs w in (e @ es, w))"

text \<open>The stream state of the automaton stands for a pending word.\<close>

definition stands_for :: "string list \<Rightarrow> string list \<Rightarrow> secret_stream \<Rightarrow> string \<Rightarrow> bool" where
  "stands_for secrets ws s w \<longleftrightarrow> automaton_ok secrets ws (secret_automaton s)
     \<and> secret_state s < length ws \<and> ws ! secret_state s = w \<and> secret_candidate s = w"

lemma set_ws_begins: "automaton_ok secrets ws A \<Longrightarrow> (\<lambda>w. w \<in> set ws) = begins secrets"
  by (auto simp: automaton_ok_def)

lemma drop_lsuf: "drop (length w - length (lsuf P w)) w = lsuf P w"
proof -
  obtain zs where "w = zs @ lsuf P w" using lsuf_suffix[of P w] by (auto simp: suffix_def)
  then show ?thesis by (metis add_diff_cancel_right' append_eq_conv_conj length_append)
qed

lemma secret_character_refines:
  assumes "stands_for secrets ws s w"
  obtains s' where "secret_character c s = (fst (word_step secrets c w), s')"
    "stands_for secrets ws s' (snd (word_step secrets c w))"
proof -
  let ?A = "secret_automaton s" and ?t = "w @ [c]"
  let ?n = "goto ?A (secret_state s) c"
  have A: "automaton_ok secrets ws ?A" "trie ws ?A" and st: "secret_state s < length ws" "ws ! secret_state s = w" "secret_candidate s = w"
    using assms by (simp_all add: stands_for_def automaton_ok_def)
  have n: "?n < length ws" "ws ! ?n = lsuf (begins secrets) ?t"
    using goto_correct[OF A(2) st(1), of "set secrets" c] A(1) st(2) set_ws_begins[OF A(1)] by (auto simp: automaton_ok_def)
  have "outputs ?A ! ?n = length (lsuf (\<lambda>u. u \<in> set secrets) (ws ! ?n))"
    using A(1) n(1) by (simp add: automaton_ok_def linked_def)
  also have "\<dots> = length (lsuf (\<lambda>u. u \<in> set secrets) ?t)"
    unfolding n(2) by (subst lsuf_lsuf) (auto simp: begins_def list_ex_iff)
  finally have out: "outputs ?A ! ?n = length (lsuf (\<lambda>u. u \<in> set secrets) ?t)" .
  have depth: "depths ?A ! ?n = length (lsuf (begins secrets) ?t)" using A(2) n by (simp add: trie_def)
  have root: "0 < length ws" "ws ! 0 = []" using trie_root[OF A(2)] by auto
  let ?k = "lsuf (begins secrets) ?t" and ?m = "lsuf (\<lambda>u. u \<in> set secrets) ?t"
  show thesis
  proof (cases "?m = []")
    case False
    then show thesis
      by (intro that[of "s\<lparr>secret_state := 0, secret_candidate := []\<rparr>"])
         (use out A(1) st root in \<open>simp_all add: secret_character_def word_step_def stands_for_def Let_def\<close>)
  next
    case True
    have k: "length ?k \<le> length ?t" by (rule length_lsuf)
    have "secret_character c s = (take (length ?t - length ?k) ?t, s\<lparr>secret_state := ?n, secret_candidate := ?k\<rparr>)"
    proof (cases "length ?k < length ?t")
      case True
      then show ?thesis using out depth st(3) drop_lsuf[of ?t "begins secrets"] \<open>?m = []\<close>
        by (simp add: secret_character_def Let_def del: drop_append take_append)
    next
      case False
      then have "?k = ?t" using k drop_lsuf[of ?t "begins secrets"] by (metis diff_is_0_eq' drop0 not_less)
      then show ?thesis using out depth st(3) \<open>?m = []\<close> by (simp add: secret_character_def Let_def)
    qed
    moreover have "word_step secrets c w = (take (length ?t - length ?k) ?t, ?k)"
      using True by (simp add: word_step_def Let_def del: take_append)
    ultimately show thesis
      using that[of "s\<lparr>secret_state := ?n, secret_candidate := ?k\<rparr>"] A(1) n by (simp add: stands_for_def)
  qed
qed

lemma secret_characters_refine:
  assumes "stands_for secrets ws s w"
  shows "\<exists>s'. secret_characters cs s = (fst (word_run secrets cs w), s')
    \<and> stands_for secrets ws s' (snd (word_run secrets cs w))"
  using assms
proof (induction cs arbitrary: s w)
  case (Cons c cs)
  obtain s1 where "secret_character c s = (fst (word_step secrets c w), s1)"
    "stands_for secrets ws s1 (snd (word_step secrets c w))"
    using secret_character_refines[OF Cons.prems] by blast
  with Cons.IH[of s1] show ?case by (fastforce simp: Let_def split: prod.split)
qed simp

lemma initial_stands_for: "\<exists>ws. stands_for secrets ws (initial_stream secrets) []"
proof -
  obtain ws where "automaton_ok secrets ws (build_secret_automaton secrets)" using build_correct by blast
  then show ?thesis using trie_root[of ws]
    by (auto simp: stands_for_def initial_stream_def automaton_ok_def)
qed

section \<open>What the stream emits\<close>

text \<open>
  The text read so far is \<open>read = concat (map (\<lambda>(p, s). p @ s) pieces) @ rest @ w\<close> and the text emitted for it is
  the same with every matched secret \<open>s\<close> replaced by the marker and without the pending word \<open>w\<close>. No
  secret occurs in a plain piece \<open>p\<close>, nor in \<open>p @ s\<close> before its end, nor in what follows the last match.
\<close>

definition redaction :: "string list \<Rightarrow> (string \<times> string) list \<Rightarrow> string \<Rightarrow> string \<Rightarrow> string \<Rightarrow> string \<Rightarrow> bool" where
  "redaction secrets pieces rest w inp outp \<longleftrightarrow>
     inp = concat (map (\<lambda>(p, s). p @ s) pieces) @ rest @ w
   \<and> outp = concat (map (\<lambda>(p, s). p @ REDACTION_MARKER) pieces) @ rest
   \<and> list_all (\<lambda>(p, s). s \<in> set secrets \<and> (\<forall>x \<in> set secrets. \<not> sublist x (butlast (p @ s)))) pieces
   \<and> (\<forall>x \<in> set secrets. \<not> sublist x (rest @ w))
   \<and> w = lsuf (begins secrets) (rest @ w)"

lemma begins_closed: "prefix_closed (begins secrets)"
  unfolding prefix_closed_def begins_def list_ex_iff by (auto dest: append_prefixD)

lemma sublist_snoc: "sublist x (t @ [c]) \<longleftrightarrow> sublist x t \<or> suffix x (t @ [c])"
proof -
  have "sublist x (t @ [c]) \<longleftrightarrow> sublist (rev x) (c # rev t)" by (metis rev.simps(2) rev_rev_ident sublist_rev)
  also have "\<dots> \<longleftrightarrow> sublist x t \<or> suffix x (t @ [c])"
    by (simp add: sublist_Cons_right suffix_to_prefix) blast
  finally show ?thesis .
qed

lemma take_lsuf: "w = p @ lsuf P w \<Longrightarrow> take (length w - length (lsuf P w)) w = p"
  by (metis add_diff_cancel_right' append_eq_conv_conj length_append)

lemma word_step_redaction:
  assumes "redaction secrets pieces rest w inp outp" "[] \<notin> set secrets" "word_step secrets c w = (e, w')"
  shows "\<exists>pieces' rest'. redaction secrets pieces' rest' w' (inp @ [c]) (outp @ e)"
proof -
  let ?T = "rest @ w" and ?S = "\<lambda>u. u \<in> set secrets"
  have r: "w = lsuf (begins secrets) ?T" "\<forall>x \<in> set secrets. \<not> sublist x ?T"
    using assms(1) by (simp_all add: redaction_def)
  have SB: "?S u \<Longrightarrow> begins secrets u" for u by (auto simp: begins_def list_ex_iff)
  have k: "lsuf (begins secrets) (w @ [c]) = lsuf (begins secrets) (?T @ [c])"
    using lsuf_snoc[OF begins_closed, of secrets ?T c] r(1) by simp
  have m: "lsuf ?S (w @ [c]) = lsuf ?S (?T @ [c])"
    using lsuf_lsuf[of ?S "begins secrets" "w @ [c]"] lsuf_lsuf[of ?S "begins secrets" "?T @ [c]"] k SB by simp
  show ?thesis
  proof (cases "lsuf ?S (w @ [c]) = []")
    case False
    let ?m = "lsuf ?S (w @ [c])"
    obtain p where p: "w @ [c] = p @ ?m" using lsuf_suffix[of ?S "w @ [c]"] by (auto simp: suffix_def)
    have e: "e = p @ REDACTION_MARKER" "w' = []"
      using assms(3) False take_lsuf[OF p] by (simp_all add: word_step_def Let_def del: take_append)
    have "?T @ [c] = (rest @ p) @ ?m" using p by simp
    then have bl: "butlast ((rest @ p) @ ?m) = ?T" by (metis butlast_snoc)
    have "?m \<in> set secrets" using lsuf_nonempty[OF False] by simp
    then have "redaction secrets (pieces @ [(rest @ p, ?m)]) [] [] (inp @ [c]) (outp @ e)"
      using assms(1,2) e p r(2) bl by (auto simp: redaction_def simp del: butlast_append)
    with e show ?thesis by blast
  next
    case True
    let ?k = "lsuf (begins secrets) (w @ [c])"
    obtain p where p: "w @ [c] = p @ ?k" using lsuf_suffix[of "begins secrets" "w @ [c]"] by (auto simp: suffix_def)
    have e: "e = p" "w' = ?k"
      using assms(3) True take_lsuf[OF p] by (auto simp: word_step_def Let_def simp del: take_append)
    have "\<not> sublist x (?T @ [c])" if x: "x \<in> set secrets" for x
    proof
      assume "sublist x (?T @ [c])"
      then have "suffix x (?T @ [c])" using r(2) x sublist_snoc[of x ?T c] by blast
      then have "suffix x (lsuf ?S (?T @ [c]))" using x by (intro lsuf_longest)
      then show False using True m x assms(2) by simp
    qed
    then have "redaction secrets pieces (rest @ p) ?k (inp @ [c]) (outp @ e)"
      using assms(1) e p k by (simp add: redaction_def)
    with e show ?thesis by blast
  qed
qed

lemma word_run_redaction:
  assumes "redaction secrets pieces rest w inp outp" "[] \<notin> set secrets"
  shows "\<exists>pieces' rest'. redaction secrets pieces' rest' (snd (word_run secrets cs w)) (inp @ cs)
    (outp @ fst (word_run secrets cs w))"
  using assms(1)
proof (induction cs arbitrary: pieces rest w inp outp)
  case (Cons c cs)
  obtain e w1 where s: "word_step secrets c w = (e, w1)" by force
  with word_step_redaction[OF Cons.prems assms(2)] obtain pieces1 rest1 where
    "redaction secrets pieces1 rest1 w1 (inp @ [c]) (outp @ e)" by blast
  moreover obtain e2 w2 where "word_run secrets cs w1 = (e2, w2)" by force
  ultimately show ?case using Cons.IH[of pieces1 rest1 w1 "inp @ [c]" "outp @ e"] s by (simp add: Let_def)
qed auto

text \<open>Feeding the chunks of a stream one after the other, and flushing it.\<close>

fun feed_secrets :: "string list \<Rightarrow> string list \<Rightarrow> secret_stream \<Rightarrow> string \<times> secret_stream" where
  "feed_secrets secrets [] s = ([], s)"
| "feed_secrets secrets (chunk # chunks) s =
     (let (e, s) = redact_configured_secrets secrets chunk s; (es, s) = feed_secrets secrets chunks s in (e @ es, s))"

definition redact_secret_stream :: "string list \<Rightarrow> string list \<Rightarrow> string" where
  "redact_secret_stream secrets chunks =
     (let secrets = filter (\<lambda>s. s \<noteq> []) secrets;
          (e, s) = feed_secrets secrets chunks (initial_stream secrets)
      in e @ fst (flush_candidate s))"

lemma word_run_append: "word_run secrets (xs @ ys) w =
    (let (e, w1) = word_run secrets xs w; (f, w2) = word_run secrets ys w1 in (e @ f, w2))"
  by (induction xs arbitrary: w) (auto simp: Let_def split: prod.splits)

lemma feed_secrets_refine:
  assumes "stands_for secrets ws s w" "secrets \<noteq> []"
  shows "\<exists>s'. feed_secrets secrets chunks s = (fst (word_run secrets (concat chunks) w), s')
    \<and> stands_for secrets ws s' (snd (word_run secrets (concat chunks) w))"
  using assms(1)
proof (induction chunks arbitrary: s w)
  case (Cons chunk chunks)
  obtain s1 where s1: "secret_characters chunk s = (fst (word_run secrets chunk w), s1)"
    "stands_for secrets ws s1 (snd (word_run secrets chunk w))"
    using secret_characters_refine[OF Cons.prems] by blast
  from Cons.IH[OF s1(2)] s1(1) assms(2) show ?case
    by (auto simp: redact_configured_secrets_def word_run_append Let_def split: prod.splits)
qed simp

lemma feed_no_secrets: "feed_secrets [] chunks s = (concat chunks, s)"
  by (induction chunks) (simp_all add: redact_configured_secrets_def)

lemma secret_stream_equation:
  "redact_secret_stream secrets chunks =
    (let real = filter (\<lambda>s. s \<noteq> []) secrets; (e, w) = word_run real (concat chunks) []
     in if real = [] then concat chunks else e @ (if w = [] then [] else REDACTION_MARKER))"
proof (cases "filter (\<lambda>s. s \<noteq> []) secrets = []")
  case True
  then show ?thesis
    by (simp add: redact_secret_stream_def feed_no_secrets flush_candidate_def initial_stream_def Let_def split: prod.split)
next
  case False
  let ?real = "filter (\<lambda>s. s \<noteq> []) secrets"
  obtain ws where "stands_for ?real ws (initial_stream ?real) []" using initial_stands_for by blast
  from feed_secrets_refine[OF this False, of chunks] False show ?thesis
    by (auto simp: redact_secret_stream_def flush_candidate_def stands_for_def Let_def split: prod.splits)
qed

text \<open>
  C35: The automaton matcher is a refinement of matching on words: for every list of secrets and
  every way the stream is cut into chunks, feeding the chunks and flushing gives what the word
  matcher gives on the whole text, the pending word at the end being replaced by the marker. In
  particular the result does not depend on where the chunks end.
\<close>

theorem secret_stream_refines:
  "redact_secret_stream secrets chunks =
    (let real = filter (\<lambda>s. s \<noteq> []) secrets; (e, w) = word_run real (concat chunks) []
     in if real = [] then concat chunks else e @ (if w = [] then [] else REDACTION_MARKER))"
  by (rule secret_stream_equation)

text \<open>
  C36: No configured secret survives a stream. Whatever the secrets and the chunks are, the emitted
  text is the input in which some occurrences of secrets, and possibly the beginning of a secret at
  the very end, are replaced by the marker; no secret occurs in any of the remaining pieces, and
  none occurs before the end of a replaced one, so that the first secret to end is always replaced.
\<close>

theorem secret_stream_redacts:
  assumes "\<exists>s \<in> set secrets. s \<noteq> []"
  shows "\<exists>pieces rest w. redaction (filter (\<lambda>s. s \<noteq> []) secrets) pieces rest w (concat chunks)
      (concat (map (\<lambda>(p, s). p @ REDACTION_MARKER) pieces) @ rest)
    \<and> redact_secret_stream secrets chunks =
        concat (map (\<lambda>(p, s). p @ REDACTION_MARKER) pieces) @ rest @ (if w = [] then [] else REDACTION_MARKER)"
proof -
  let ?real = "filter (\<lambda>s. s \<noteq> []) secrets"
  have real: "?real \<noteq> []" using assms by (auto simp: filter_empty_conv)
  obtain e w where run: "word_run ?real (concat chunks) [] = (e, w)" by force
  have "redaction ?real [] [] [] [] []" by (auto simp: redaction_def)
  from word_run_redaction[OF this, of "concat chunks"] run obtain pieces rest where
    r: "redaction ?real pieces rest w (concat chunks) e" by auto
  then have e: "e = concat (map (\<lambda>(p, s). p @ REDACTION_MARKER) pieces) @ rest" by (simp add: redaction_def)
  have "redact_secret_stream secrets chunks = e @ (if w = [] then [] else REDACTION_MARKER)"
    using real run by (simp add: secret_stream_equation Let_def)
  with r e show ?thesis by auto
qed

theorem secret_stream_redacts_witness:
  "redact_secret_stream [''abc'', ''bcd''] [''xab'', ''cd ab''] = ''x<redacted>d <redacted>''
   \<and> (\<exists>pieces rest w. redaction [''abc'', ''bcd''] pieces rest w ''xabcd ab''
        (concat (map (\<lambda>(p, s). p @ REDACTION_MARKER) pieces) @ rest))"
proof -
  have "redact_secret_stream [''abc'', ''bcd''] [''xab'', ''cd ab''] = ''x<redacted>d <redacted>''" by code_simp
  with secret_stream_redacts[of "[''abc'', ''bcd'']" "[''xab'', ''cd ab'']"] show ?thesis by auto
qed

end
