(* ===== verification/Stream_Redactor.thy ===== *)
theory Stream_Redactor
  imports Secret_Automaton
begin

text \<open>
  The detectors of \<^verbatim>\<open>IncrementalStreamRedactor\<close> in \<^verbatim>\<open>internal/proc/redaction.py\<close> that run on a stream after
  its configured secrets are replaced: assignments to secret names, bearer and basic credentials,
  user information in URIs, and JSON web tokens, with \<^verbatim>\<open>feed\<close> and \<^verbatim>\<open>flush\<close>. Chunks are text; the
  incremental UTF-8 decoder for chunks of bytes is not modelled.
\<close>

section \<open>State\<close>

datatype structural = Bearer | Uri | Jwt
datatype uri_scheme = Scheme | Colon | Slash
datatype assignment = Awaiting | Quoted | Unquoted | Header

record consumer =
  field_name :: string
  structural_pending :: string
  structural_state :: "structural option"
  uri_scheme_state :: "uri_scheme option"
  assignment_key_tail :: string
  assignment_key_sensitive :: bool
  assignment_header :: bool
  assignment_state :: "assignment option"
  assignment_quote :: "char option"

definition initial_consumer :: "string \<Rightarrow> consumer" where
  "initial_consumer field = \<lparr>field_name = field, structural_pending = [], structural_state = None,
     uri_scheme_state = None, assignment_key_tail = [], assignment_key_sensitive = False, assignment_header = False,
     assignment_state = None, assignment_quote = None\<rparr>"

definition ASSIGNMENT_KEY_MARKERS :: "string list" where
  "ASSIGNMENT_KEY_MARKERS = concat (map (\<lambda>(marker, _, stream_marker).
     if \<not> stream_marker then []
     else if CHR '' '' \<notin> set marker then [marker]
     else map (\<lambda>separator. py_replace '' '' [separator] marker) ''-_ '') ASSIGNMENT_MARKER_SPECS)"

definition marker_ending :: "char \<Rightarrow> bool" where
  "marker_ending c \<longleftrightarrow> casefold [c] \<in> set (map (\<lambda>marker. [last marker]) ASSIGNMENT_KEY_MARKERS)"

definition marker_character :: "char \<Rightarrow> bool" where
  "marker_character c \<longleftrightarrow> casefold [c] \<in> set (map (\<lambda>x. [x]) (concat ASSIGNMENT_KEY_MARKERS))"

definition uri_scheme_char :: "char \<Rightarrow> bool" where
  "uri_scheme_char c \<longleftrightarrow> is_alnum c \<or> c \<in> set ''+.-''"

definition ASSIGNMENT_KEY_TAIL_LIMIT :: nat where "ASSIGNMENT_KEY_TAIL_LIMIT = 128"
definition STRUCTURAL_PENDING_LIMIT :: nat where "STRUCTURAL_PENDING_LIMIT = 128"

definition BEARER_PREFIX :: re where
  "BEARER_PREFIX = seqs [NotBehind (\<lambda>c. is_alnum c \<or> c = CHR ''_''), alts [ci ''bearer'', ci ''basic''],
     plus (one_of [CHR '' '', TAB]), AtEnd]"

definition JWT_PREFIX :: re where
  "JWT_PREFIX = seqs [Alt AtStart (Cls is_space), lit ''eyJ'', AtEnd]"

definition HEADER_ASSIGNMENT_KEY :: re where
  "HEADER_ASSIGNMENT_KEY = seqs [header_name, Star (Cls is_space), AtEnd]"

section \<open>Projections\<close>

definition project_stream_text :: "consumer \<Rightarrow> string \<Rightarrow> string" where
  "project_stream_text s v = redact_text v [] (field_name s)"

definition printable :: "char \<Rightarrow> bool" where
  "printable c \<longleftrightarrow> in_range 32 126 c"

definition project_stream_character :: "char \<Rightarrow> string" where
  "project_stream_character c =
     (if c \<in> {CHR '' '', TAB, LF} then [c]
      else if c = CR then [BS, CHR ''x'', CHR ''0'', CHR ''d'']
      else if printable c then [c]
      else sanitize_terminal_text [c] True)"

definition reset_assignment_key :: "consumer \<Rightarrow> consumer" where
  "reset_assignment_key s =
     s\<lparr>assignment_key_tail := [], assignment_key_sensitive := False, assignment_header := False\<rparr>"

section \<open>Assigned values\<close>

definition consume_quoted :: "char \<Rightarrow> consumer \<Rightarrow> string \<times> consumer" where
  "consume_quoted c s =
     ([], if assignment_quote s = Some c then s\<lparr>assignment_state := None, assignment_quote := None\<rparr> else s)"

definition consume_unquoted :: "char \<Rightarrow> consumer \<Rightarrow> string \<times> consumer" where
  "consume_unquoted c s = (if is_space c \<or> c \<in> set '',;''
     then (project_stream_character c, s\<lparr>assignment_state := None\<rparr>) else ([], s))"

definition consume_header :: "char \<Rightarrow> consumer \<Rightarrow> string \<times> consumer" where
  "consume_header c s = (if c = LF then ([c], s\<lparr>assignment_state := None\<rparr>)
     else if c = CR then (project_stream_character c, s) else ([], s))"

definition consume_awaiting :: "char \<Rightarrow> consumer \<Rightarrow> string \<times> consumer" where
  "consume_awaiting c s =
     (if is_space c then (project_stream_character c, s)
      else if c \<in> set '',;'' then ([c], s\<lparr>assignment_state := None\<rparr>)
      else if c = SQ \<or> c = DQ then (REDACTION_MARKER,
        s\<lparr>assignment_state := Some (if assignment_header s then Header else Quoted), assignment_quote := Some c\<rparr>)
      else (REDACTION_MARKER, s\<lparr>assignment_state := Some (if assignment_header s then Header else Unquoted)\<rparr>))"

definition consume_assignment_character :: "char \<Rightarrow> consumer \<Rightarrow> (string \<times> consumer) option" where
  "consume_assignment_character c s = (case assignment_state s of
     None \<Rightarrow> None
   | Some Quoted \<Rightarrow> Some (consume_quoted c s)
   | Some Unquoted \<Rightarrow> Some (consume_unquoted c s)
   | Some Header \<Rightarrow> Some (consume_header c s)
   | Some Awaiting \<Rightarrow> Some (consume_awaiting c s))"

section \<open>Credentials, URIs and tokens\<close>

definition token_char :: "char \<Rightarrow> bool" where
  "token_char c \<longleftrightarrow> is_alnum c \<or> c \<in> set ''._~-+/=''"

definition consume_structural_character :: "char \<Rightarrow> consumer \<Rightarrow> (string \<times> consumer) option" where
  "consume_structural_character c s = (let leave = s\<lparr>structural_state := None\<rparr> in case structural_state s of
     None \<Rightarrow> None
   | Some Bearer \<Rightarrow> Some (if is_space c \<or> c \<in> set '',;'' then (project_stream_character c, leave) else ([], s))
   | Some Uri \<Rightarrow> Some (if c = CHR ''@'' then (REDACTION_MARKER @ [c], leave)
       else if is_space c then (project_stream_character c, leave) else ([], s))
   | Some Jwt \<Rightarrow> Some (if token_char c then ([], s) else (project_stream_character c, leave)))"

text \<open>The result is whether an assignment to a secret name begins with this character.\<close>

definition track_assignment_key :: "char \<Rightarrow> consumer \<Rightarrow> bool \<times> consumer" where
  "track_assignment_key c s =
     (if c \<in> set '':='' then
        (if \<not> assignment_key_sensitive s then (False, reset_assignment_key s)
         else (True, s\<lparr>assignment_header := re_search HEADER_ASSIGNMENT_KEY (assignment_key_tail s),
                assignment_state := Some Awaiting\<rparr>))
      else let s = (if c = LF \<or> \<not> assignment_key_char c then reset_assignment_key s
             else let tail = assignment_key_tail s @ [c]
               in s\<lparr>assignment_key_tail := drop (length tail - ASSIGNMENT_KEY_TAIL_LIMIT) tail\<rparr>)
        in (False, if marker_ending c
              \<and> list_ex (\<lambda>marker. occurs marker (casefold (assignment_key_tail s))) ASSIGNMENT_KEY_MARKERS
            then s\<lparr>assignment_key_sensitive := True\<rparr> else s))"

definition flush_structural_pending :: "consumer \<Rightarrow> string \<times> consumer" where
  "flush_structural_pending s =
     (project_stream_text s (structural_pending s), s\<lparr>uri_scheme_state := None, structural_pending := []\<rparr>)"

text \<open>The last test of \<^verbatim>\<open>_advance_uri_scheme\<close>, which every path that does not return reaches.\<close>

definition scheme_start :: "char \<Rightarrow> consumer \<Rightarrow> bool \<times> consumer" where
  "scheme_start c s = (False, if is_alpha c then s\<lparr>uri_scheme_state := Some Scheme\<rparr> else s)"

definition advance_uri_scheme :: "char \<Rightarrow> consumer \<Rightarrow> bool \<times> consumer" where
  "advance_uri_scheme c s = (let cleared = s\<lparr>uri_scheme_state := None\<rparr> in case uri_scheme_state s of
     Some Scheme \<Rightarrow> (if uri_scheme_char c then (False, s)
       else if c = CHR '':'' then (False, s\<lparr>uri_scheme_state := Some Colon\<rparr>) else scheme_start c cleared)
   | Some Colon \<Rightarrow> (if c = CHR ''/'' then (False, s\<lparr>uri_scheme_state := Some Slash\<rparr>) else scheme_start c cleared)
   | Some Slash \<Rightarrow> (if c = CHR ''/'' then (True, cleared\<lparr>structural_state := Some Uri\<rparr>) else scheme_start c cleared)
   | None \<Rightarrow> scheme_start c s)"

text \<open>The text before a credential prefix that ends the pending text.\<close>

definition pending_prefix :: "re \<Rightarrow> consumer \<Rightarrow> string option" where
  "pending_prefix r s = (case re_find r (structural_pending s) of
     Some (b, _, []) \<Rightarrow> Some b | _ \<Rightarrow> None)"

definition enter_structural :: "structural \<Rightarrow> string \<Rightarrow> consumer \<Rightarrow> string \<times> consumer" where
  "enter_structural k b s =
     (project_stream_text s b @ REDACTION_MARKER, s\<lparr>structural_pending := [], structural_state := Some k\<rparr>)"

definition release_pending :: "consumer \<Rightarrow> string \<times> consumer" where
  "release_pending s =
     (if length (structural_pending s) \<le> STRUCTURAL_PENDING_LIMIT then ([], s)
      else let split = length (structural_pending s) - STRUCTURAL_PENDING_LIMIT;
               safe = take split (structural_pending s)
        in (if length safe = 1 then project_stream_character (hd safe) else project_stream_text s safe,
            s\<lparr>structural_pending := drop split (structural_pending s)\<rparr>))"

definition append_structural_pending :: "char \<Rightarrow> consumer \<Rightarrow> string \<times> consumer" where
  "append_structural_pending c s =
     (let s = s\<lparr>structural_pending := structural_pending s @ [c]\<rparr>
      in if c = LF then flush_structural_pending (s\<lparr>uri_scheme_state := None\<rparr>)
         else case (if c \<in> {CHR '' '', TAB} then pending_prefix BEARER_PREFIX s else None) of
           Some b \<Rightarrow> enter_structural Bearer b s
         | None \<Rightarrow> (let (found, s) = advance_uri_scheme c s
             in if found then (project_stream_text s (structural_pending s), s\<lparr>structural_pending := []\<rparr>)
                else case (if c = CHR ''J'' then pending_prefix JWT_PREFIX s else None) of
                  Some b \<Rightarrow> enter_structural Jwt b s
                | None \<Rightarrow> release_pending s))"

section \<open>One character, one chunk\<close>

definition consume_character :: "char \<Rightarrow> consumer \<Rightarrow> string \<times> consumer" where
  "consume_character c s = (case consume_assignment_character c s of
     Some r \<Rightarrow> r
   | None \<Rightarrow> (let (begins_assignment, s) = track_assignment_key c s
       in if begins_assignment then
            (let header = assignment_header s
             in if structural_state s \<noteq> None
                then ([], (reset_assignment_key (s\<lparr>structural_state := None\<rparr>))\<lparr>assignment_header := header\<rparr>)
                else let (pending, s) = flush_structural_pending s
                  in (pending @ project_stream_character c, (reset_assignment_key s)\<lparr>assignment_header := header\<rparr>))
          else case consume_structural_character c s of
            Some r \<Rightarrow> r
          | None \<Rightarrow> append_structural_pending c s))"

text \<open>The loop of \<^verbatim>\<open>_consume\<close>: white space before an assigned value is projected as one run.\<close>

function consume_loop :: "string \<Rightarrow> consumer \<Rightarrow> string \<times> consumer" where
  "consume_loop [] s = ([], s)"
| "consume_loop (c # cs) s =
     (if assignment_state s = Some Awaiting \<and> is_space c
      then (let (es, s') = consume_loop (dropWhile is_space cs) s
        in (project_stream_text s (c # takeWhile is_space cs) @ es, s'))
      else let (e, s) = consume_character c s; (es, s) = consume_loop cs s in (e @ es, s))"
  by pat_completeness auto
termination
  by (relation "measure (\<lambda>(cs, _). length cs)") (auto simp: le_imp_less_Suc length_dropWhile_le)

definition update_uri_scheme_fast_path :: "string \<Rightarrow> consumer \<Rightarrow> consumer" where
  "update_uri_scheme_fast_path v s =
     (let suffix = rev (takeWhile uri_scheme_char (rev v))
      in s\<lparr>uri_scheme_state := (if suffix = [] then None
         else if list_ex is_alpha suffix \<or> (length suffix = length v \<and> uri_scheme_state s = Some Scheme)
         then Some Scheme else None)\<rparr>)"

definition fast_character :: "char \<Rightarrow> bool" where
  "fast_character c \<longleftrightarrow> printable c \<and> \<not> marker_character c \<and> c \<notin> set '' :=/J''"

definition finish :: "string \<times> consumer \<Rightarrow> string \<times> consumer" where
  "finish = (\<lambda>(e, s).
     let (e', s) = (case structural_state s of Some Uri \<Rightarrow> (REDACTION_MARKER, s)
         | Some _ \<Rightarrow> ([], s) | None \<Rightarrow> flush_structural_pending s)
     in (e @ e', reset_assignment_key (s\<lparr>assignment_state := None, assignment_quote := None, structural_state := None\<rparr>)))"

definition consume_text :: "string \<Rightarrow> bool \<Rightarrow> consumer \<Rightarrow> string \<times> consumer" where
  "consume_text v terminal s =
     (if v \<noteq> [] \<and> \<not> terminal \<and> assignment_state s = Some Awaiting \<and> list_all is_space v
      then (project_stream_text s v, s)
      else if v \<noteq> [] \<and> \<not> terminal \<and> assignment_state s = None \<and> structural_state s = None
        \<and> structural_pending s = [] \<and> list_all fast_character v
      then (v, update_uri_scheme_fast_path v s)
      else if terminal then finish (consume_loop v s) else consume_loop v s)"

section \<open>The redactor\<close>

record stream_redactor =
  redactor_secrets :: "string list"
  redactor_stream :: secret_stream
  redactor_consumer :: consumer

definition new_redactor :: "string list \<Rightarrow> string \<Rightarrow> stream_redactor" where
  "new_redactor secrets field = (let secrets = filter (\<lambda>secret. secret \<noteq> []) secrets
     in \<lparr>redactor_secrets = secrets, redactor_stream = initial_stream secrets, redactor_consumer = initial_consumer field\<rparr>)"

definition feed :: "string \<Rightarrow> stream_redactor \<Rightarrow> string \<times> stream_redactor" where
  "feed v r = (let (projected, st) = redact_configured_secrets (redactor_secrets r) v (redactor_stream r);
       (e, co) = consume_text projected False (redactor_consumer r)
     in (e, r\<lparr>redactor_stream := st, redactor_consumer := co\<rparr>))"

definition flush :: "stream_redactor \<Rightarrow> string \<times> stream_redactor" where
  "flush r = (let (projected, st) = redact_configured_secrets (redactor_secrets r) [] (redactor_stream r);
       (marker, st) = flush_candidate st;
       (e, co) = consume_text (projected @ marker) True (redactor_consumer r)
     in (e, r\<lparr>redactor_stream := st, redactor_consumer := co\<rparr>))"

fun feed_all :: "string list \<Rightarrow> stream_redactor \<Rightarrow> string \<times> stream_redactor" where
  "feed_all [] r = ([], r)"
| "feed_all (v # vs) r = (let (e, r) = feed v r; (es, r) = feed_all vs r in (e @ es, r))"

section \<open>Bounded state and inert output\<close>

text \<open>Text without terminal control characters, line feeds and tabs apart.\<close>

definition inert_stream :: "string \<Rightarrow> bool" where
  "inert_stream e \<longleftrightarrow> list_all (\<lambda>c. is_control c \<longrightarrow> c = LF \<or> c = TAB) e"

definition bounded :: "consumer \<Rightarrow> bool" where
  "bounded s \<longleftrightarrow> length (structural_pending s) \<le> STRUCTURAL_PENDING_LIMIT
     \<and> length (assignment_key_tail s) \<le> ASSIGNMENT_KEY_TAIL_LIMIT"

definition tame :: "string \<times> consumer \<Rightarrow> bool" where
  "tame r \<longleftrightarrow> inert_stream (fst r) \<and> bounded (snd r)"

lemma inert_append [simp]: "inert_stream (a @ b) \<longleftrightarrow> inert_stream a \<and> inert_stream b" "inert_stream []"
  by (auto simp: inert_stream_def)

lemma inert_text [simp]: "inert_stream (project_stream_text s v)"
  using redact_text_inert[of v "[]" "field_name s"]
  by (auto simp: inert_stream_def project_stream_text_def inert_lines_def list_all_iff)

lemma inert_terminal: "inert_stream (sanitize_terminal_text v True)"
  using terminal_text_inert[of v True] by (auto simp: inert_stream_def inert_lines_def list_all_iff)

lemma printable_plain: "printable c \<Longrightarrow> \<not> is_control c"
  by (auto simp: printable_def is_control_def in_range_def)

lemma inert_character [simp]: "inert_stream (project_stream_character c)"
proof -
  have "inert_stream [BS, CHR ''x'', CHR ''0'', CHR ''d'']" by code_simp
  moreover have "\<not> is_control (CHR '' '')" by code_simp
  ultimately show ?thesis
    using inert_terminal[of "[c]"] printable_plain[of c]
    by (auto simp: project_stream_character_def inert_stream_def)
qed

lemma inert_marker [simp]: "inert_stream REDACTION_MARKER"
  by code_simp

lemma inert_plain: "inert_stream [LF]" "c \<in> set '',;@'' \<Longrightarrow> inert_stream [c]"
  by (auto simp: inert_stream_def is_control_def in_range_def code_def)

lemma inert_fast: "list_all fast_character v \<Longrightarrow> inert_stream v"
  by (auto simp: inert_stream_def list_all_iff fast_character_def printable_plain)

lemmas tame_simps = tame_def bounded_def reset_assignment_key_def

lemma tame_assignment: "bounded s \<Longrightarrow> consume_assignment_character c s = Some r \<Longrightarrow> tame r"
  by (auto simp: consume_assignment_character_def consume_quoted_def consume_unquoted_def consume_header_def
      consume_awaiting_def tame_simps inert_plain split: option.splits assignment.splits if_splits)

lemma tame_structural: "bounded s \<Longrightarrow> consume_structural_character c s = Some r \<Longrightarrow> tame r"
  by (auto simp: consume_structural_character_def Let_def tame_simps inert_plain
      split: option.splits structural.splits if_splits)

lemma bounded_track: "bounded s \<Longrightarrow> bounded (snd (track_assignment_key c s))"
  by (auto simp: track_assignment_key_def Let_def tame_simps)

lemma bounded_advance: "structural_pending (snd (advance_uri_scheme c s)) = structural_pending s
    \<and> assignment_key_tail (snd (advance_uri_scheme c s)) = assignment_key_tail s"
  by (auto simp: advance_uri_scheme_def scheme_start_def Let_def split: option.splits uri_scheme.splits)

abbreviation (input) short_tail :: "consumer \<Rightarrow> bool" where
  "short_tail s \<equiv> length (assignment_key_tail s) \<le> ASSIGNMENT_KEY_TAIL_LIMIT"

lemma tame_flush: "short_tail s \<Longrightarrow> tame (flush_structural_pending s)"
  by (simp add: flush_structural_pending_def tame_simps)

lemma tame_release: "short_tail s \<Longrightarrow> tame (release_pending s)"
  by (auto simp: release_pending_def Let_def tame_simps)

lemma tame_enter: "short_tail s \<Longrightarrow> tame (enter_structural k b s)"
  by (simp add: enter_structural_def tame_simps)

lemma tame_released: "short_tail s \<Longrightarrow> tame (project_stream_text s v, s\<lparr>structural_pending := []\<rparr>)"
  by (simp add: tame_simps)

lemma tame_append:
  assumes "short_tail s"
  shows "tame (append_structural_pending c s)"
proof -
  let ?s = "s\<lparr>structural_pending := structural_pending s @ [c]\<rparr>"
  obtain found s' where a: "advance_uri_scheme c ?s = (found, s')" by force
  then have s': "short_tail s'" using bounded_advance[of c ?s] assms by simp
  define x where "x = (if c \<in> {CHR '' '', TAB} then pending_prefix BEARER_PREFIX ?s else None)"
  define y where "y = (if c = CHR ''J'' then pending_prefix JWT_PREFIX s' else None)"
  have "append_structural_pending c s = (if c = LF then flush_structural_pending (?s\<lparr>uri_scheme_state := None\<rparr>)
      else case x of Some b \<Rightarrow> enter_structural Bearer b ?s
        | None \<Rightarrow> if found then (project_stream_text s' (structural_pending s'), s'\<lparr>structural_pending := []\<rparr>)
            else case y of Some b \<Rightarrow> enter_structural Jwt b s' | None \<Rightarrow> release_pending s')"
    unfolding append_structural_pending_def Let_def a prod.case x_def y_def ..
  then show ?thesis
    using assms s' by (cases x; cases y) (simp_all add: tame_flush tame_enter tame_release tame_released)
qed

lemma tame_character:
  assumes "bounded s"
  shows "tame (consume_character c s)"
proof (cases "consume_assignment_character c s")
  case (Some r)
  then show ?thesis using tame_assignment[OF assms] by (simp add: consume_character_def)
next
  case None
  obtain b s1 where t: "track_assignment_key c s = (b, s1)" by force
  then have s1: "bounded s1" using bounded_track[OF assms, of c] by simp
  then have "short_tail s1" by (simp add: bounded_def)
  then show ?thesis
    using None t s1 tame_structural[OF s1, of c] tame_append[of s1 c]
    by (cases b) (auto simp: consume_character_def Let_def flush_structural_pending_def tame_simps split: option.split)
qed

lemma tame_loop: "bounded s \<Longrightarrow> tame (consume_loop cs s)"
proof (induction cs s rule: consume_loop.induct)
  case (2 c cs s)
  show ?case
  proof (cases "assignment_state s = Some Awaiting \<and> is_space c")
    case True
    with 2 show ?thesis by (auto simp: tame_def split: prod.split)
  next
    case False
    obtain e s1 where c: "consume_character c s = (e, s1)" by force
    with tame_character[OF 2(3), of c] have "inert_stream e" "bounded s1" by (simp_all add: tame_def)
    with False 2(2)[OF False refl c[symmetric]] c show ?thesis by (auto simp: tame_def split: prod.split)
  qed
qed (simp add: tame_def)

lemma tame_finish: "tame r \<Longrightarrow> tame (finish r)"
  by (auto simp: finish_def flush_structural_pending_def Let_def tame_simps split: prod.splits option.split structural.split)

lemma tame_consume: "bounded s \<Longrightarrow> tame (consume_text v terminal s)"
  using tame_loop[of s v] tame_finish[OF tame_loop, of s v] inert_fast[of v]
  by (auto simp: consume_text_def update_uri_scheme_fast_path_def Let_def) (auto simp: tame_simps)

definition longest_secret :: "string list \<Rightarrow> nat" where
  "longest_secret secrets = foldr (\<lambda>s n. max (length s) n) secrets 0"

lemma longest_secret_le: "x \<in> set secrets \<Longrightarrow> length x \<le> longest_secret secrets"
  by (induction secrets) (auto simp: longest_secret_def)

text \<open>The invariant of a redactor between calls.\<close>

definition redactor_ok :: "stream_redactor \<Rightarrow> bool" where
  "redactor_ok r \<longleftrightarrow> bounded (redactor_consumer r)
     \<and> (\<exists>ws w. stands_for (redactor_secrets r) ws (redactor_stream r) w)"

lemma candidate_short:
  assumes "stands_for secrets ws st w"
  shows "length (secret_candidate st) \<le> longest_secret secrets"
proof -
  have "w \<in> set ws" "secret_candidate st = w" using assms by (auto simp: stands_for_def)
  then have "begins secrets w" using assms by (auto simp: stands_for_def automaton_ok_def)
  then show ?thesis
    using longest_secret_le prefix_length_le \<open>secret_candidate st = w\<close> by (fastforce simp: begins_def list_ex_iff)
qed

lemma new_redactor_ok: "redactor_ok (new_redactor secrets field)"
  using initial_stands_for[of "filter (\<lambda>secret. secret \<noteq> []) secrets"]
  by (auto simp: redactor_ok_def new_redactor_def Let_def initial_consumer_def bounded_def)

lemma feed_ok:
  assumes "redactor_ok r" "feed v r = (e, r')"
  shows "redactor_ok r' \<and> inert_stream e \<and> redactor_secrets r' = redactor_secrets r"
proof -
  obtain projected st where p: "redact_configured_secrets (redactor_secrets r) v (redactor_stream r) = (projected, st)" by force
  obtain e1 co where c: "consume_text projected False (redactor_consumer r) = (e1, co)" by force
  have r': "e = e1" "r' = r\<lparr>redactor_stream := st, redactor_consumer := co\<rparr>" using assms(2) p c by (simp_all add: feed_def)
  obtain ws w where "stands_for (redactor_secrets r) ws (redactor_stream r) w" using assms(1) by (auto simp: redactor_ok_def)
  from secret_characters_refine[OF this, of v] this p have "\<exists>ws w. stands_for (redactor_secrets r) ws st w"
    by (auto simp: redact_configured_secrets_def split: if_splits)
  moreover have "tame (e1, co)" using tame_consume[of "redactor_consumer r" projected False] assms(1) c by (simp add: redactor_ok_def)
  ultimately show ?thesis by (simp add: r' redactor_ok_def tame_def)
qed

lemma feed_all_ok:
  "redactor_ok r \<Longrightarrow> feed_all vs r = (e, r') \<Longrightarrow>
     redactor_ok r' \<and> inert_stream e \<and> redactor_secrets r' = redactor_secrets r"
proof (induction vs arbitrary: r e)
  case (Cons v vs)
  obtain e1 r1 where f: "feed v r = (e1, r1)" by force
  obtain e2 where e: "feed_all vs r1 = (e2, r')" "e = e1 @ e2" using Cons.prems(2) f by (auto split: prod.splits)
  from feed_ok[OF Cons.prems(1) f] Cons.IH[OF _ e(1)] e(2) show ?case by simp
qed simp

lemma flush_inert: "redactor_ok r \<Longrightarrow> inert_stream (fst (flush r))"
  using tame_consume[of "redactor_consumer r" _ True]
  by (auto simp: flush_def Let_def redactor_ok_def tame_def split: prod.split) (metis fst_conv)

text \<open>
  C37: A stream of any length is redacted in bounded memory: after any number of chunks the pending
  text and the tail of the key are at most 128 characters each, and the pending candidate is at most
  as long as the longest secret. All text emitted, also by the final flush, is free of terminal
  control characters other than line feeds and tabs.
\<close>

theorem stream_bounded:
  assumes "feed_all chunks (new_redactor secrets field) = (e, r)"
  shows "length (structural_pending (redactor_consumer r)) \<le> 128
    \<and> length (assignment_key_tail (redactor_consumer r)) \<le> 128
    \<and> length (secret_candidate (redactor_stream r)) \<le> longest_secret (filter (\<lambda>s. s \<noteq> []) secrets)
    \<and> inert_stream (e @ fst (flush r))"
proof -
  have ok: "redactor_ok r" "inert_stream e" "redactor_secrets r = filter (\<lambda>s. s \<noteq> []) secrets"
    using feed_all_ok[OF new_redactor_ok assms] by (simp_all add: new_redactor_def Let_def)
  then obtain ws w where "stands_for (filter (\<lambda>s. s \<noteq> []) secrets) ws (redactor_stream r) w" by (auto simp: redactor_ok_def)
  from candidate_short[OF this] ok flush_inert[OF ok(1)] show ?thesis
    by (simp add: redactor_ok_def bounded_def STRUCTURAL_PENDING_LIMIT_def ASSIGNMENT_KEY_TAIL_LIMIT_def)
qed

theorem stream_bounded_witness:
  "\<exists>e r. feed_all [''token'', ''=abc de'', ''f''] (new_redactor [''def''] ''stdout'') = (e, r)
    \<and> length (structural_pending (redactor_consumer r)) \<le> 128 \<and> inert_stream (e @ fst (flush r))"
proof -
  obtain e r where "feed_all [''token'', ''=abc de'', ''f''] (new_redactor [''def''] ''stdout'') = (e, r)" by force
  with stream_bounded[OF this] show ?thesis by blast
qed

section \<open>Assigned values are not shown\<close>

lemma consume_loop_append:
  assumes "assignment_state (snd (consume_loop a s)) \<noteq> Some Awaiting \<or> b = [] \<or> \<not> is_space (hd b)"
  shows "consume_loop (a @ b) s =
    (let (e, s1) = consume_loop a s; (f, s2) = consume_loop b s1 in (e @ f, s2))"
  using assms
proof (induction a s rule: consume_loop.induct)
  case (2 c cs s)
  show ?case
  proof (cases "assignment_state s = Some Awaiting \<and> is_space c")
    case True
    show ?thesis
    proof (cases "dropWhile is_space cs = []")
      case all: True
      then have cs: "\<forall>x\<in>set cs. is_space x" by simp
      have "consume_loop (c # cs) s = (project_stream_text s (c # cs), s)"
        using True all cs by (simp add: takeWhile_eq_all_conv[THEN iffD2] del: dropWhile_eq_Nil_conv)
      moreover from this have "b = [] \<or> \<not> is_space (hd b)" using 2(3) True by auto
      then have "takeWhile is_space (cs @ b) = cs" "dropWhile is_space (cs @ b) = b"
        using cs by (cases b; simp)+
      ultimately show ?thesis using True by (auto split: prod.split)
    next
      case False
      then have "dropWhile is_space (cs @ b) = dropWhile is_space cs @ b" "takeWhile is_space (cs @ b) = takeWhile is_space cs"
        by (auto simp: dropWhile_append1 takeWhile_append1)
      then show ?thesis using True 2(1)[OF True] 2(3) by (auto simp: Let_def split: prod.splits)
    qed
  next
    case False
    obtain e s1 where c: "consume_character c s = (e, s1)" by force
    have "assignment_state (snd (consume_loop cs s1)) \<noteq> Some Awaiting \<or> b = [] \<or> \<not> is_space (hd b)"
      using 2(3) False c by (auto split: prod.splits)
    from 2(2)[OF False refl c[symmetric] this] False c show ?thesis by (auto simp: Let_def split: prod.split)
  qed
qed simp

definition unquoted_value :: "string \<Rightarrow> bool" where
  "unquoted_value v \<longleftrightarrow> v \<noteq> [] \<and> hd v \<notin> {SQ, DQ} \<and> list_all (\<lambda>c. \<not> is_space c \<and> c \<notin> set '',;'') v"

lemma consume_unquoted_run:
  "assignment_state s = Some Unquoted \<Longrightarrow> list_all (\<lambda>c. \<not> is_space c \<and> c \<notin> set '',;'') v \<Longrightarrow>
     consume_loop (v @ rest) s = consume_loop rest s"
  by (induction v) (auto simp: consume_character_def consume_assignment_character_def consume_unquoted_def)

lemma consume_value:
  assumes "assignment_state s = Some Awaiting" "\<not> assignment_header s" "unquoted_value v"
  shows "consume_loop (v @ rest) s =
    (let (f, s') = consume_loop rest (s\<lparr>assignment_state := Some Unquoted\<rparr>) in (REDACTION_MARKER @ f, s'))"
proof -
  obtain c cs where v: "v = c # cs" using assms(3) by (cases v) (auto simp: unquoted_value_def)
  then have "consume_character c s = (REDACTION_MARKER, s\<lparr>assignment_state := Some Unquoted\<rparr>)"
    using assms by (auto simp: consume_character_def consume_assignment_character_def consume_awaiting_def unquoted_value_def)
  then show ?thesis
    using v assms consume_unquoted_run[of "s\<lparr>assignment_state := Some Unquoted\<rparr>" cs rest]
    by (auto simp: unquoted_value_def split: prod.split)
qed

text \<open>After the separator of a secret name the redactor awaits a value.\<close>

lemma separator_awaits:
  assumes "assignment_state s = None" "assignment_key_sensitive s"
    "\<not> re_search HEADER_ASSIGNMENT_KEY (assignment_key_tail s)" "sep \<in> set '':=''"
  shows "assignment_state (snd (consume_character sep s)) = Some Awaiting
    \<and> \<not> assignment_header (snd (consume_character sep s))"
  using assms
  by (auto simp: consume_character_def consume_assignment_character_def track_assignment_key_def
      flush_structural_pending_def reset_assignment_key_def Let_def)

lemma consume_is_loop:
  assumes "sep \<in> set v" "sep \<in> set '':=''"
  shows "consume_text v terminal s = (if terminal then finish (consume_loop v s) else consume_loop v s)"
proof -
  have "\<not> is_space sep" "\<not> fast_character sep"
    using assms(2) by (auto simp: is_space_def in_range_def code_def fast_character_def)
  then show ?thesis using assms(1) by (auto simp: consume_text_def list_all_iff)
qed



end
