(* ===== verification/Step_Projection.thy ===== *)
theory Step_Projection
  imports Ledger Redaction
begin

text \<open>
  The public projection of a prepared process step: \<^verbatim>\<open>captured_secret_values\<close> and
  \<^verbatim>\<open>project_process_step\<close> of \<^verbatim>\<open>internal/proc/redaction.py\<close>, and the \<^verbatim>\<open>ProcessStep\<close> of \<^verbatim>\<open>execution.py\<close>
  that is displayed and serialized.
\<close>

record process_step =
  pj_step_id :: string
  pj_argv :: "string list"
  pj_display :: string
  pj_executable :: string
  pj_cwd :: "string option"
  pj_environment_policy :: string
  pj_environment_overrides :: "(string \<times> string) list"
  pj_input_preview :: "string option"
  pj_timeout :: "rat option"
  pj_mode :: string
  pj_read_only :: bool
  pj_mutating :: bool
  pj_interactive :: bool
  pj_long_running :: bool

definition captured_secret_values :: "prepared_step \<Rightarrow> string list" where
  "captured_secret_values step = argv_secret_values (argv step) (sensitive_argv_indices step)
     (secret_values step @ override_secret_values (environment_overrides step))"

definition input_preview :: "prepared_step \<Rightarrow> string list \<Rightarrow> string option" where
  "input_preview step secrets =
     (let raw_preview = (if public_input_preview step = None \<and> stdin step \<noteq> None then Some REDACTION_MARKER
          else public_input_preview step)
      in map_option (\<lambda>raw. redact_text raw secrets
           (if public_input_preview step \<noteq> None then ''script'' else ''stdin'')) raw_preview)"

definition project_process_step :: "prepared_step \<Rightarrow> process_step" where
  "project_process_step step =
     (let secrets = captured_secret_values step;
          projected_argv = redact_argv (argv step) secrets (Some (sensitive_argv_indices step));
          projected_environment = redacted_environment (environment_overrides step) (secret_values step)
      in \<lparr>pj_step_id = ps_step_id step, pj_argv = projected_argv, pj_display = shlex_join projected_argv,
          pj_executable = (case projected_argv of [] \<Rightarrow> [] | a # _ \<Rightarrow> a), pj_cwd = cwd step,
          pj_environment_policy = environment_policy step, pj_environment_overrides = projected_environment,
          pj_input_preview = input_preview step secrets, pj_timeout = timeout step, pj_mode = mode step,
          pj_read_only = ps_read_only step, pj_mutating = ps_mutating step, pj_interactive = interactive step,
          pj_long_running = long_running step\<rparr>)"

section \<open>What the public step can depend on\<close>

text \<open>The step with its private inputs erased; that standard input is given at all is public.\<close>

definition erase_private :: "prepared_step \<Rightarrow> prepared_step" where
  "erase_private step = step\<lparr>environment := [], environment_snapshot := [],
     stdin := map_option (\<lambda>_. []) (stdin step), wrapper_nonce := None, secret_config_path := None,
     max_output_bytes := None, max_combined_output_bytes := None, text_mode := False, start_new_session := False,
     inherit_stdio := False, private_stdout_value_free := False\<rparr>"

lemma project_erased: "project_process_step (erase_private step) = project_process_step step"
  by (simp add: project_process_step_def erase_private_def captured_secret_values_def input_preview_def Let_def)


text \<open>
  C39: The private inputs of a process do not reach its public projection. Two prepared steps that
  differ only in the captured child environment, the bytes of standard input, the wrapper nonce, the
  path of the secret configuration and execution limits have the same projection; the projection has
  one argument for every argument, and of the environment overrides it shows a value only under an
  allow-listed name.
\<close>

theorem project_step_private:
  assumes "erase_private p = erase_private q"
  shows "project_process_step p = project_process_step q
    \<and> length (pj_argv (project_process_step p)) = length (argv p)
    \<and> map fst (pj_environment_overrides (project_process_step p)) = map fst (environment_overrides p)
    \<and> (\<forall>i < length (environment_overrides p).
         snd (pj_environment_overrides (project_process_step p) ! i) \<noteq> REDACTION_MARKER \<longrightarrow>
         \<not> is_secret_key_name (fst (environment_overrides p ! i)))"
proof -
  have "project_process_step p = project_process_step q" by (metis assms project_erased)
  moreover have "pj_argv (project_process_step p) = redact_argv (argv p) (captured_secret_values p) (Some (sensitive_argv_indices p))"
    "pj_environment_overrides (project_process_step p) = redacted_environment (environment_overrides p) (secret_values p)"
    by (simp_all add: project_process_step_def Let_def)
  ultimately show ?thesis using redacted_environment_shown by simp
qed

definition curl_step :: "string \<Rightarrow> prepared_step" where
  "curl_step secret = \<lparr>ps_step_id = ''s1'', argv = [''psql'', ''--password'', ''x''], sensitive_argv_indices = [2], cwd = None,
     environment = [(''PGPASSWORD'', secret)], environment_snapshot = [(''PGPASSWORD'', secret)],
     environment_overrides = [(''LANG'', ''C'')], environment_policy = ''sanitized-inherit'', stdin = Some secret,
     wrapper_nonce = None, secret_config_path = None, public_input_preview = None, timeout = None,
     max_output_bytes = None, max_combined_output_bytes = None, mode = ''captured'', secret_values = [],
     ps_read_only = True, ps_mutating = False, interactive = False, long_running = False, text_mode = True,
     start_new_session = False, inherit_stdio = False, private_stdout_value_free = False\<rparr>"

theorem project_step_private_witness:
  "project_process_step (curl_step ''hunter2'') = project_process_step (curl_step ''other'')
   \<and> pj_argv (project_process_step (curl_step ''hunter2'')) = [''psql'', ''--password'', ''<redacted>'']
   \<and> pj_input_preview (project_process_step (curl_step ''hunter2'')) = Some ''<redacted>''"
proof -
  have "erase_private (curl_step ''hunter2'') = erase_private (curl_step ''other'')"
    by (simp add: erase_private_def curl_step_def)
  note eq = project_step_private[OF this]
  have "pj_argv (project_process_step (curl_step ''hunter2'')) = [''psql'', ''--password'', ''<redacted>'']"
    "pj_input_preview (project_process_step (curl_step ''hunter2'')) = Some ''<redacted>''" by code_simp+
  with eq show ?thesis by simp
qed

end
