(* ===== verification/Removal_Owners.thy ===== *)
theory Removal_Owners
  imports Prelude "HOL-Library.While_Combinator"
begin

text \<open>
  Ownership of local resources, \<^verbatim>\<open>internal/project_removal.py\<close>: which projects own an item of the resource
  inventory (\<^verbatim>\<open>internal/resource_inventory.py\<close>), directly or along the dependency edges, computed by a
  loop that runs until nothing changes.

  The order in which Python iterates over a set is the argument \<open>elements\<close>.
\<close>

section \<open>The inventory\<close>

datatype resource_type = PROJECT | BACKUP | DATABASE | ENVIRONMENT | WORKTREE | PYTHON_ENVIRONMENT | VOLUME
  | LOG | FILESTORE | CONFIG | SECRET | TEMPORARY | OTHER

fun resource_type_value :: "resource_type \<Rightarrow> string" where
  "resource_type_value PROJECT = ''project''"
| "resource_type_value BACKUP = ''backup''"
| "resource_type_value DATABASE = ''database''"
| "resource_type_value ENVIRONMENT = ''environment''"
| "resource_type_value WORKTREE = ''worktree''"
| "resource_type_value PYTHON_ENVIRONMENT = ''python_environment''"
| "resource_type_value VOLUME = ''volume''"
| "resource_type_value LOG = ''log''"
| "resource_type_value FILESTORE = ''filestore''"
| "resource_type_value CONFIG = ''config''"
| "resource_type_value SECRET = ''secret''"
| "resource_type_value TEMPORARY = ''temporary''"
| "resource_type_value OTHER = ''other''"

datatype ownership_confidence = PROVEN | SHARED | EXTERNAL | OWNERSHIP_UNKNOWN

fun ownership_value :: "ownership_confidence \<Rightarrow> string" where
  "ownership_value PROVEN = ''proven''"
| "ownership_value SHARED = ''shared''"
| "ownership_value EXTERNAL = ''external''"
| "ownership_value OWNERSHIP_UNKNOWN = ''unknown''"

datatype active_use = ACTIVE | INACTIVE | USE_UNKNOWN

fun active_use_value :: "active_use \<Rightarrow> string" where
  "active_use_value ACTIVE = ''active''"
| "active_use_value INACTIVE = ''inactive''"
| "active_use_value USE_UNKNOWN = ''unknown''"

datatype measurement_completeness = COMPLETE | PARTIAL | UNAVAILABLE

fun completeness_value :: "measurement_completeness \<Rightarrow> string" where
  "completeness_value COMPLETE = ''complete''"
| "completeness_value PARTIAL = ''partial''"
| "completeness_value UNAVAILABLE = ''unavailable''"

text \<open>The fields of an item that removal reads.\<close>

record inventory_item =
  stable_identity :: string
  it_type :: resource_type
  it_name :: string
  it_relationships :: "string list"
  it_ownership :: ownership_confidence
  it_active_use :: active_use
  it_completeness :: measurement_completeness
  it_reclaimable :: bool
  it_sanitized_path :: "string option"

section \<open>Direct owners\<close>

type_synonym owner_map = "(string, string set) dict"

definition owners_of :: "owner_map \<Rightarrow> string \<Rightarrow> string set" where
  "owners_of d i = (case map_of d i of None \<Rightarrow> {} | Some s \<Rightarrow> s)"

abbreviation (input) is_project_ref :: "string \<Rightarrow> bool" where
  "is_project_ref r \<equiv> startswith r ''project:''"

definition project_of_ref :: "string \<Rightarrow> string" where
  "project_of_ref r = drop (length ''project:'') r"

definition direct_owners :: "inventory_item \<Rightarrow> string set" where
  "direct_owners item = set (map project_of_ref (filter is_project_ref (it_relationships item)))
     \<union> (if is_project_ref (stable_identity item) then {project_of_ref (stable_identity item)} else {})"

definition direct_projects :: "inventory_item list \<Rightarrow> owner_map" where
  "direct_projects items = fold (\<lambda>item d. dset d (stable_identity item) (direct_owners item)) items []"

definition environment_owners :: "owner_map \<Rightarrow> inventory_item \<Rightarrow> string set" where
  "environment_owners direct item = \<Union>(set (map (owners_of direct)
     (filter (\<lambda>r. startswith r ''environment:'') (it_relationships item))))"

definition initial_owners :: "inventory_item list \<Rightarrow> owner_map" where
  "initial_owners items = (let direct = direct_projects items in
     fold (\<lambda>item d. dset d (stable_identity item)
       (owners_of d (stable_identity item) \<union> environment_owners direct item)) items direct)"

section \<open>Dependency edges\<close>

text \<open>The dictionary of items by identity: the last item of an identity.\<close>

definition has_type :: "inventory_item list \<Rightarrow> resource_type \<Rightarrow> string \<Rightarrow> bool" where
  "has_type items t r = (case map_of (rev (map (\<lambda>item. (stable_identity item, item)) items)) r of
     None \<Rightarrow> False | Some item \<Rightarrow> it_type item = t)"

definition backups_by_database :: "inventory_item list \<Rightarrow> string \<Rightarrow> string set" where
  "backups_by_database items db = set (map stable_identity (filter (\<lambda>item. it_type item = BACKUP
     \<and> db \<in> set (it_relationships item) \<and> has_type items DATABASE db) items))"

definition dependency_targets :: "inventory_item list \<Rightarrow> inventory_item \<Rightarrow> string list" where
  "dependency_targets items item =
     (if it_type item \<in> {PROJECT, ENVIRONMENT} then it_relationships item
      else if it_type item = DATABASE then filter (has_type items BACKUP) (it_relationships item)
      else [])"

definition edge_targets :: "inventory_item list \<Rightarrow> inventory_item \<Rightarrow> string set" where
  "edge_targets items item = set (dependency_targets items item)
     \<union> (if it_type item = DATABASE then backups_by_database items (stable_identity item) else {})"

section \<open>Propagation\<close>

definition propagate_to :: "string \<Rightarrow> string \<Rightarrow> bool \<times> owner_map \<Rightarrow> bool \<times> owner_map" where
  "propagate_to i r = (\<lambda>(changed, d).
     if is_project_ref r then (changed, d)
     else let before = owners_of d r; after = before \<union> owners_of d i
       in (changed \<or> card after \<noteq> card before, dset d r after))"

definition propagate_item :: "(string set \<Rightarrow> string list) \<Rightarrow> inventory_item list \<Rightarrow> inventory_item
    \<Rightarrow> bool \<times> owner_map \<Rightarrow> bool \<times> owner_map" where
  "propagate_item elements items item =
     fold (propagate_to (stable_identity item)) (elements (edge_targets items item))"

definition propagate_pass :: "(string set \<Rightarrow> string list) \<Rightarrow> inventory_item list \<Rightarrow> owner_map \<Rightarrow> bool \<times> owner_map" where
  "propagate_pass elements items d = fold (propagate_item elements items) items (False, d)"

definition owner_projects :: "(string set \<Rightarrow> string list) \<Rightarrow> inventory_item list \<Rightarrow> owner_map option" where
  "owner_projects elements items = map_option snd
     (while_option fst (\<lambda>(_, d). propagate_pass elements items d) (True, initial_owners items))"

definition scope_ids :: "owner_map \<Rightarrow> string \<Rightarrow> string set" where
  "scope_ids owners project_id = set (filter (\<lambda>i. project_id \<in> owners_of owners i) (dkeys owners))"

section \<open>The ownership relation\<close>

text \<open>What the loop computes: ownership passes along the edges, never into a project.\<close>

inductive owns :: "inventory_item list \<Rightarrow> string \<Rightarrow> string \<Rightarrow> bool" for items where
  initial: "p \<in> owners_of (initial_owners items) i \<Longrightarrow> owns items i p"
| along: "item \<in> set items \<Longrightarrow> owns items (stable_identity item) p \<Longrightarrow> r \<in> edge_targets items item
    \<Longrightarrow> \<not> is_project_ref r \<Longrightarrow> owns items r p"

lemma owners_of_dset [simp]: "owners_of (dset d k v) i = (if i = k then v else owners_of d i)"
  by (simp add: owners_of_def)

lemma scope_ids_iff: "i \<in> scope_ids owners p \<longleftrightarrow> p \<in> owners_of owners i"
  using map_of_None_dkeys[of owners i] by (auto simp: scope_ids_def owners_of_def split: option.splits)

text \<open>One step along an edge: owners only grow, and the flag reports growth.\<close>

definition grows :: "bool \<times> owner_map \<Rightarrow> bool \<times> owner_map \<Rightarrow> bool" where
  "grows s t \<longleftrightarrow> (\<forall>i. owners_of (snd s) i \<subseteq> owners_of (snd t) i)
     \<and> (fst t \<longleftrightarrow> fst s \<or> (\<exists>i. owners_of (snd s) i \<noteq> owners_of (snd t) i))"

definition finite_owners :: "owner_map \<Rightarrow> bool" where
  "finite_owners d \<longleftrightarrow> (\<forall>i. finite (owners_of d i))"

lemma grows_refl: "grows s s"
  by (simp add: grows_def)

lemma grows_trans: "grows s t \<Longrightarrow> grows t u \<Longrightarrow> grows s u"
  unfolding grows_def by (metis subset_antisym subset_trans)

lemma grows_propagate_to:
  assumes "finite_owners (snd s)"
  shows "grows s (propagate_to i r s) \<and> finite_owners (snd (propagate_to i r s))"
proof -
  obtain c d where s: "s = (c, d)" by force
  have fin: "finite (owners_of d i)" "finite (owners_of d r)" using assms s by (auto simp: finite_owners_def)
  have "card (owners_of d r \<union> owners_of d i) = card (owners_of d r) \<longleftrightarrow> owners_of d r \<union> owners_of d i = owners_of d r"
    using fin card_subset_eq[of "owners_of d r \<union> owners_of d i" "owners_of d r"] by auto
  with fin assms s show ?thesis by (auto simp: propagate_to_def grows_def finite_owners_def Let_def split: if_splits)
qed

lemma grows_fold:
  assumes "\<And>x s. x \<in> set xs \<Longrightarrow> finite_owners (snd s) \<Longrightarrow> grows s (f x s) \<and> finite_owners (snd (f x s))"
    "finite_owners (snd s)"
  shows "grows s (fold f xs s) \<and> finite_owners (snd (fold f xs s))"
  using assms
proof (induction xs arbitrary: s)
  case Nil
  then show ?case by (simp add: grows_refl)
next
  case (Cons x xs)
  have "grows s (f x s)" "finite_owners (snd (f x s))" using Cons.prems by auto
  moreover from this(2) have "grows (f x s) (fold f xs (f x s)) \<and> finite_owners (snd (fold f xs (f x s)))"
    using Cons.prems(1) by (intro Cons.IH) auto
  ultimately show ?case using grows_trans by auto
qed

lemma grows_item: "finite_owners (snd s) \<Longrightarrow>
    grows s (propagate_item elements items item s) \<and> finite_owners (snd (propagate_item elements items item s))"
  unfolding propagate_item_def by (rule grows_fold) (use grows_propagate_to in auto)

lemma grows_pass:
  assumes "finite_owners d"
  shows "grows (False, d) (propagate_pass elements items d)" "finite_owners (snd (propagate_pass elements items d))"
  unfolding propagate_pass_def using grows_fold[of items "propagate_item elements items" "(False, d)"] grows_item assms by auto

text \<open>Nothing is claimed without a path, and a pass that reports no change has reached every target.\<close>

definition justified :: "inventory_item list \<Rightarrow> owner_map \<Rightarrow> bool" where
  "justified items d \<longleftrightarrow> (\<forall>i. owners_of d i \<subseteq> {p. owns items i p})"

lemma justified_fold:
  assumes "\<And>x s. x \<in> set xs \<Longrightarrow> justified items (snd s) \<Longrightarrow> justified items (snd (f x s))" "justified items (snd s)"
  shows "justified items (snd (fold f xs s))"
  using assms by (induction xs arbitrary: s) auto

lemma justified_to:
  assumes "justified items (snd s)" "item \<in> set items" "r \<in> edge_targets items item"
  shows "justified items (snd (propagate_to (stable_identity item) r s))"
  using assms owns.along[OF assms(2) _ assms(3)]
  by (cases s) (auto simp: justified_def propagate_to_def Let_def)

lemma unchanged_fold:
  assumes "\<And>x s. x \<in> set xs \<Longrightarrow> finite_owners (snd s) \<Longrightarrow> grows s (f x s) \<and> finite_owners (snd (f x s))"
    "finite_owners (snd s)" "\<not> fst (fold f xs s)" "x \<in> set xs"
  shows "\<exists>t. owners_of (snd t) = owners_of (snd s) \<and> finite_owners (snd t) \<and> \<not> fst (f x t)"
  using assms
proof (induction xs arbitrary: s)
  case (Cons y ys)
  have y: "grows s (f y s)" "finite_owners (snd (f y s))" using Cons.prems(1,2) by auto
  have r: "grows (f y s) (fold f ys (f y s))" using grows_fold[of ys f "f y s"] Cons.prems(1) y(2) by auto
  then have nf: "\<not> fst (f y s)" using Cons.prems(3) by (auto simp: grows_def)
  then have same: "owners_of (snd (f y s)) = owners_of (snd s)" using y(1) by (auto simp: grows_def)
  show ?case
  proof (cases "x = y")
    case True
    with nf Cons.prems(2) show ?thesis by blast
  next
    case False
    with Cons.prems same y(2) show ?thesis using Cons.IH[of "f y s"] by auto
  qed
qed simp

lemma unchanged_pass:
  assumes "finite_owners d" "\<not> fst (propagate_pass elements items d)" "item \<in> set items"
    "r \<in> set (elements (edge_targets items item))" "\<not> is_project_ref r"
  shows "owners_of d (stable_identity item) \<subseteq> owners_of d r"
proof -
  have "\<exists>t. owners_of (snd t) = owners_of d \<and> finite_owners (snd t) \<and> \<not> fst (propagate_item elements items item t)"
    using unchanged_fold[of items "propagate_item elements items" "(False, d)" item] grows_item assms(1-3)
    by (auto simp: propagate_pass_def)
  then obtain t where t: "owners_of (snd t) = owners_of d" "finite_owners (snd t)" "\<not> fst (propagate_item elements items item t)"
    by blast
  then obtain u where u: "owners_of (snd u) = owners_of d" "finite_owners (snd u)" "\<not> fst (propagate_to (stable_identity item) r u)"
    using unchanged_fold[of "elements (edge_targets items item)" "propagate_to (stable_identity item)" t r] grows_propagate_to assms(4)
    by (auto simp: propagate_item_def)
  obtain c e where c: "u = (c, e)" by force
  have "finite (owners_of e r \<union> owners_of e (stable_identity item))" using u(2) c by (simp add: finite_owners_def)
  moreover have "card (owners_of e r \<union> owners_of e (stable_identity item)) = card (owners_of e r)"
    using u(3) c assms(5) by (simp add: propagate_to_def Let_def)
  ultimately have "owners_of e r \<union> owners_of e (stable_identity item) = owners_of e r"
    by (metis card_subset_eq Un_upper1)
  with u(1) c show ?thesis by auto
qed

section \<open>The loop\<close>

lemma finite_direct: "finite (direct_owners item)"
  by (simp add: direct_owners_def)

lemma finite_direct_projects: "finite_owners (direct_projects items)"
proof -
  have "finite_owners d \<Longrightarrow> finite_owners (fold (\<lambda>item d. dset d (stable_identity item) (direct_owners item)) items d)" for d
    by (induction items arbitrary: d) (auto simp: finite_owners_def finite_direct)
  moreover have "finite_owners []" by (simp add: finite_owners_def owners_of_def)
  ultimately show ?thesis by (simp add: direct_projects_def)
qed

lemma finite_initial: "finite_owners (initial_owners items)"
proof -
  let ?f = "\<lambda>item d. dset d (stable_identity item) (owners_of d (stable_identity item) \<union> environment_owners (direct_projects items) item)"
  have e: "finite (environment_owners (direct_projects items) item)" for item
    using finite_direct_projects by (auto simp: environment_owners_def finite_owners_def)
  have "finite_owners d \<Longrightarrow> finite_owners (fold ?f xs d)" for xs d
    using e by (induction xs arbitrary: d) (auto simp: finite_owners_def)
  then show ?thesis using finite_direct_projects by (simp add: initial_owners_def Let_def)
qed

lemma finite_owns: "finite {(i, p). owns items i p}"
proof -
  let ?I = "set (dkeys (initial_owners items)) \<union> (\<Union>item\<in>set items. edge_targets items item)"
  let ?P = "\<Union>i\<in>set (dkeys (initial_owners items)). owners_of (initial_owners items) i"
  have init: "i \<in> set (dkeys (initial_owners items))" if "p \<in> owners_of (initial_owners items) i" for i p
    using that map_of_None_dkeys[of "initial_owners items" i] by (auto simp: owners_of_def split: option.splits)
  have "owns items i p \<Longrightarrow> i \<in> ?I \<and> p \<in> ?P" for i p
    by (induction rule: owns.induct) (use init in blast)+
  then have "{(i, p). owns items i p} \<subseteq> ?I \<times> ?P" by auto
  moreover have "finite (edge_targets items item)" for item by (simp add: edge_targets_def backups_by_database_def)
  moreover have "finite ?P" using finite_initial by (auto simp: finite_owners_def)
  ultimately show ?thesis using finite_subset by (metis (no_types, lifting) List.finite_set finite_SigmaI finite_UN finite_Un)
qed

lemma finite_owners_owns: "finite {p. owns items i p}"
proof -
  have "{p. owns items i p} \<subseteq> snd ` {(i, p). owns items i p}" by (auto simp: image_iff)
  then show ?thesis using finite_owns by (rule finite_subset[OF _ finite_imageI])
qed

definition owner_pairs :: "owner_map \<Rightarrow> (string \<times> string) set" where
  "owner_pairs d = {(i, p). p \<in> owners_of d i}"

lemma pass_measure:
  assumes "finite_owners d" "justified items d" "justified items (snd (propagate_pass elements items d))"
    "fst (propagate_pass elements items d)"
  shows "card {(i, p). owns items i p} - card (owner_pairs (snd (propagate_pass elements items d))) <
    card {(i, p). owns items i p} - card (owner_pairs d)"
proof -
  let ?d = "snd (propagate_pass elements items d)"
  have sub: "owner_pairs ?d \<subseteq> {(i, p). owns items i p}" using assms(3) by (auto simp: justified_def owner_pairs_def)
  have "owner_pairs d \<subset> owner_pairs ?d"
    using grows_pass(1)[OF assms(1), of elements items] assms(4) by (auto simp: grows_def owner_pairs_def set_eq_iff)
  then have "card (owner_pairs d) < card (owner_pairs ?d)" "card (owner_pairs ?d) \<le> card {(i, p). owns items i p}"
    using sub finite_owns[of items] by (auto intro: psubset_card_mono card_mono finite_subset)
  then show ?thesis by linarith
qed

lemma closed_owners:
  assumes "\<And>S. finite S \<Longrightarrow> set (elements S) = S"
  shows "\<exists>d. owner_projects elements items = Some d \<and> (\<forall>i. owners_of d i = {p. owns items i p})"
proof -
  let ?c = "\<lambda>(_, d). propagate_pass elements items d" and ?s = "(True, initial_owners items)"
  let ?P = "\<lambda>(ch, d). finite_owners d \<and> justified items d \<and> (\<forall>i. owners_of (initial_owners items) i \<subseteq> owners_of d i)
    \<and> (\<not> ch \<longrightarrow> (\<forall>item\<in>set items. \<forall>r\<in>edge_targets items item. \<not> is_project_ref r \<longrightarrow> owners_of d (stable_identity item) \<subseteq> owners_of d r))"
  let ?f = "\<lambda>(ch, d). 2 * (card {(i, p). owns items i p} - card (owner_pairs d)) + (if ch then 1 else 0 :: nat)"
  have el: "set (elements (edge_targets items item)) = edge_targets items item" for item
    by (rule assms) (simp add: edge_targets_def backups_by_database_def)
  have item: "justified items (snd s) \<Longrightarrow> item \<in> set items \<Longrightarrow> justified items (snd (propagate_item elements items item s))" for s item
    unfolding propagate_item_def by (rule justified_fold) (auto simp: el justified_to)
  have pass: "justified items d \<Longrightarrow> justified items (snd (propagate_pass elements items d))" for d
    unfolding propagate_pass_def by (rule justified_fold) (auto simp: item)
  have step: "?P (?c s) \<and> ?f (?c s) < ?f s" if ps: "?P s" "fst s" for s
  proof -
    obtain d where s: "s = (True, d)" using ps(2) by (cases s) auto
    then have d: "finite_owners d" "justified items d" "\<forall>i. owners_of (initial_owners items) i \<subseteq> owners_of d i" using ps(1) by auto
    obtain ch e where e: "propagate_pass elements items d = (ch, e)" by force
    have g: "grows (False, d) (ch, e)" "finite_owners e" "justified items e"
      using grows_pass[OF d(1), of elements items] pass[OF d(2)] e by auto
    have same: "owners_of e = owners_of d" if "\<not> ch" using g(1) that by (auto simp: grows_def)
    have "owners_of e (stable_identity item) \<subseteq> owners_of e r"
      if "\<not> ch" "item \<in> set items" "r \<in> edge_targets items item" "\<not> is_project_ref r" for item r
      using unchanged_pass[OF d(1), of elements items item r] that e el same by auto
    moreover have "?f (ch, e) < ?f (True, d)"
    proof (cases ch)
      case True
      then show ?thesis using pass_measure[OF d(1,2), of elements] g(3) e by simp
    next
      case False
      then show ?thesis using same by (simp add: owner_pairs_def)
    qed
    moreover have "\<forall>i. owners_of (initial_owners items) i \<subseteq> owners_of e i"
      using d(3) g(1) by (simp add: grows_def) (meson subset_trans)
    ultimately show ?thesis using s e g(2,3) by simp
  qed
  have start: "?P ?s" using finite_initial owns.initial by (auto simp: justified_def)
  have "\<exists>t. while_option fst ?c ?s = Some t"
    using step start by (rule measure_while_option_Some)
  then obtain t where t: "while_option fst ?c ?s = Some t" ..
  have "?P t" by (rule while_option_rule[where P = ?P, OF conjunct1[OF step] t start])
  moreover have "\<not> fst t" using while_option_stop[OF t] .
  ultimately obtain d where d: "t = (False, d)" "justified items d" "\<forall>i. owners_of (initial_owners items) i \<subseteq> owners_of d i"
    "\<forall>item\<in>set items. \<forall>r\<in>edge_targets items item. \<not> is_project_ref r \<longrightarrow> owners_of d (stable_identity item) \<subseteq> owners_of d r"
    by (cases t) auto
  have "owns items i p \<Longrightarrow> p \<in> owners_of d i" for i p
    by (induction rule: owns.induct) (use d(3,4) in blast)+
  then have "\<forall>i. owners_of d i = {p. owns items i p}" using d(2) by (auto simp: justified_def)
  with t d(1) show ?thesis by (auto simp: owner_projects_def)
qed

text \<open>
  C25: The ownership loop of project removal ends for every inventory, and whatever the order in which
  it visits the targets of an item, a project owns a resource afterwards exactly when a path of
  dependency edges leads from a direct owner to it.
\<close>

theorem owner_projects_closure:
  assumes "\<And>S. finite S \<Longrightarrow> set (elements S) = S"
  shows "\<exists>d. owner_projects elements items = Some d \<and> (\<forall>i. owners_of d i = {p. owns items i p})"
  using assms by (rule closed_owners)

text \<open>Two projects share a database through an environment; its backup is owned by both.\<close>

definition sample_item :: "string \<Rightarrow> resource_type \<Rightarrow> string list \<Rightarrow> inventory_item" where
  "sample_item i t rs = \<lparr>stable_identity = i, it_type = t, it_name = i, it_relationships = rs, it_ownership = PROVEN,
     it_active_use = INACTIVE, it_completeness = COMPLETE, it_reclaimable = False, it_sanitized_path = None\<rparr>"

definition sample_inventory :: "inventory_item list" where
  "sample_inventory = [sample_item ''project:a'' PROJECT [''database:1''], sample_item ''project:b'' PROJECT [''environment:e''],
     sample_item ''environment:e'' ENVIRONMENT [''project:b'', ''database:1'', ''worktree:w''],
     sample_item ''worktree:w'' WORKTREE [''environment:e''], sample_item ''database:1'' DATABASE [],
     sample_item ''backup:x'' BACKUP [''database:1'']]"

definition sample_elements :: "string set \<Rightarrow> string list" where
  "sample_elements S = sorted_list_of_set S"

lemma sample_owners:
  "map_option (\<lambda>d. map (owners_of d) [''database:1'', ''backup:x'', ''worktree:w'']) (owner_projects sample_elements sample_inventory) =
     Some [{''a'', ''b''}, {''a'', ''b''}, {''b''}]"
  by code_simp

theorem owner_projects_closure_witness:
  "owns sample_inventory ''backup:x'' ''a'' \<and> owns sample_inventory ''backup:x'' ''b'' \<and> \<not> owns sample_inventory ''worktree:w'' ''a''"
proof -
  obtain d where d: "owner_projects sample_elements sample_inventory = Some d"
    "\<forall>i. owners_of d i = {p. owns sample_inventory i p}"
    using owner_projects_closure[of sample_elements sample_inventory] by (auto simp: sample_elements_def)
  from sample_owners d show ?thesis by (auto simp: set_eq_iff)
qed

end
