(* ===== verification/Project_Removal.thy ===== *)
theory Project_Removal
  imports Removal_Owners Catalog_Cluster Json
begin

text \<open>
  The removal projection of a project, \<^verbatim>\<open>internal/project_removal.py\<close>: what is stopped, unpublished,
  deleted or retained, why, in which order, and the fingerprint that detects drift.

  The answers of the operating system and of \<^verbatim>\<open>git status\<close> are the record \<open>removal_fs\<close>; paths are the
  texts of normalized \<^verbatim>\<open>Path\<close> values. An answer \<^const>\<open>None\<close> of \<open>symlink_at\<close> is an \<^verbatim>\<open>OSError\<close>.
\<close>

section \<open>Inputs\<close>

datatype removal_error = RemovalValueError string | RemovalTypeError string

record removal_fs = git_fs +
  expanduser :: "string \<Rightarrow> string"
  absolute :: "string \<Rightarrow> string"
  lexists :: "string \<Rightarrow> bool"
  symlink_at :: "string \<Rightarrow> bool option"
  worktree_is_dirty :: "bool \<Rightarrow> string \<Rightarrow> bool"

record project_registration =
  reg_project_id :: string
  reg_repository_root :: string
  reg_git_common_dir :: "string option"
  reg_state :: string
  reg_source_ownership :: ownership_confidence
  reg_linked_checkout :: bool
  reg_caller_owned_checkout :: bool
  reg_other_tool_managed_checkout :: bool

definition ProjectRegistration :: "project_registration \<Rightarrow> (removal_error, project_registration) result" where
  "ProjectRegistration r =
     (if blank (reg_project_id r) then Inl (RemovalValueError ''project_id must not be empty'')
      else if reg_state r \<notin> {''registered'', ''forgotten''} then Inl (RemovalValueError ''invalid project registration state'')
      else Inr r)"

text \<open>A registration given as a mapping: texts, flags, or absent keys.\<close>

record registration_mapping =
  map_repository_root :: "string option"
  map_project_id :: "string option"
  map_git_common_dir :: "string option"
  map_registration_state :: "string option"
  map_source_ownership :: "string option"
  map_linked_checkout :: bool
  map_caller_owned_checkout :: bool
  map_other_tool_managed_checkout :: bool

definition ownership_of_text :: "string \<Rightarrow> ownership_confidence option" where
  "ownership_of_text t = find (\<lambda>c. ownership_value c = t) [PROVEN, SHARED, EXTERNAL, OWNERSHIP_UNKNOWN]"

definition registration_of :: "registration_mapping \<Rightarrow> (removal_error, project_registration) result" where
  "registration_of v = (case (map_repository_root v, map_project_id v) of
     (Some rt, Some project_id) \<Rightarrow>
       (let state = (case map_registration_state v of None \<Rightarrow> ''registered'' | Some s \<Rightarrow> s) in
        if state \<notin> {''registered'', ''forgotten''} then Inl (RemovalValueError ''invalid project registration state'')
        else case (case map_source_ownership v of None \<Rightarrow> Some PROVEN | Some t \<Rightarrow> ownership_of_text t) of
          None \<Rightarrow> Inl (RemovalValueError ''invalid source ownership'')
        | Some ownership \<Rightarrow> ProjectRegistration \<lparr>reg_project_id = project_id, reg_repository_root = rt,
            reg_git_common_dir = map_git_common_dir v, reg_state = state, reg_source_ownership = ownership,
            reg_linked_checkout = map_linked_checkout v, reg_caller_owned_checkout = map_caller_owned_checkout v,
            reg_other_tool_managed_checkout = map_other_tool_managed_checkout v\<rparr>)
   | _ \<Rightarrow> Inl (RemovalTypeError ''project registration requires repository_root and project_id''))"

record publication_route =
  owner_kind :: string
  owner_id :: string
  route_project_id :: "string option"
  route_environment_id :: "string option"
  local_endpoint :: string
  external_url :: string
  route_identity :: string

record runtime_source =
  rs_project_id :: string
  rs_identity :: string
  rs_target :: string
  rs_active_use :: active_use
  rs_ownership :: ownership_confidence
  rs_stale :: bool

record publication_source =
  pub_project_id :: string
  pub_identity :: string
  pub_target :: string
  pub_active_use :: active_use
  pub_ownership :: ownership_confidence
  pub_route :: "publication_route option"

record path_source =
  pa_project_id :: string
  pa_identity :: string
  pa_path :: string
  pa_target :: string
  pa_kind :: string
  pa_allowed_root :: "string option"
  pa_ownership :: ownership_confidence
  pa_active_use :: active_use
  pa_symlink_escape :: bool
  pa_unknown :: bool
  pa_relationships :: "string list"

record compose_source =
  cs_project_id :: string
  cs_identity :: string
  cs_target :: string
  cs_ownership :: ownership_confidence
  cs_active_use :: active_use
  cs_dependencies :: "string list"
  cs_labels_match :: bool

section \<open>Decisions\<close>

datatype removal_action = Stop | Unpublish | Delete | Retain | Forget

fun action_value :: "removal_action \<Rightarrow> string" where
  "action_value Stop = ''stop''"
| "action_value Unpublish = ''unpublish''"
| "action_value Delete = ''delete''"
| "action_value Retain = ''retain''"
| "action_value Forget = ''forget''"

record removal_decision =
  rd_identity :: string
  rd_resource_type :: string
  rd_action :: removal_action
  rd_reason :: string
  rd_target :: string
  rd_relationships :: "string list"
  rd_ownership :: ownership_confidence
  rd_active_use :: active_use
  rd_dependencies :: "string list"
  rd_evidence :: "(string \<times> string) list"
  rd_route :: "publication_route option"

definition canonical_path :: "('a removal_fs_scheme) \<Rightarrow> string \<Rightarrow> string" where
  "canonical_path fs p = resolve fs (expanduser fs p)"

definition safe_target :: "string \<Rightarrow> string option \<Rightarrow> string" where
  "safe_target v path =
     (let v = (case path of
          Some p \<Rightarrow> if startswith v ''/'' then (if path_name p \<noteq> [] then ''<local>/'' @ path_name p else ''<local>'') else v
        | None \<Rightarrow> v);
          s = or_empty (sanitize_event_message (Some v))
      in if s = [] then ''<local>'' else s)"

text \<open>The loop over the parents of an absolute path, from the path itself up to the one below the file-system root.\<close>

definition path_parts :: "string \<Rightarrow> string list" where
  "path_parts p = filter (\<lambda>c. c \<noteq> []) (split_on (CHR ''/'') p)"

definition path_of_parts :: "string list \<Rightarrow> string" where
  "path_of_parts cs = ''/'' @ join_with ''/'' cs"

fun symlink_free :: "('a removal_fs_scheme) \<Rightarrow> string list \<Rightarrow> bool" where
  "symlink_free fs [] = True"
| "symlink_free fs (c # parents) = (let current = path_of_parts (rev (c # parents)) in
     if lexists fs current \<and> symlink_at fs current \<noteq> Some False then False
     else symlink_free fs parents)"

definition canonical_containment :: "('a removal_fs_scheme) \<Rightarrow> string \<Rightarrow> string \<Rightarrow> bool" where
  "canonical_containment fs path rt \<longleftrightarrow> is_relative_to (canonical_path fs path) (canonical_path fs rt)
     \<and> symlink_free fs (rev (path_parts (if startswith path ''/'' then path else absolute fs path)))"

definition expected_confirmation_token :: "('a removal_fs_scheme) \<Rightarrow> string \<Rightarrow> string \<Rightarrow> (removal_error, string) result" where
  "expected_confirmation_token fs repository_root project_id = (let nm = path_name (expanduser fs repository_root) in
     if nm = [] \<or> blank project_id then Inl (RemovalValueError ''repository_root and project_id are required'')
     else Inr (nm @ '':'' @ project_id))"

section \<open>Selection\<close>

datatype project_selector = By_path string | By_project_id string

definition ProjectSelector :: "string option \<Rightarrow> string option \<Rightarrow> (removal_error, project_selector) result" where
  "ProjectSelector path project_id = (case (path, project_id) of
     (Some p, None) \<Rightarrow> if blank p then Inl (RemovalValueError ''path must not be empty'') else Inr (By_path p)
   | (None, Some i) \<Rightarrow> if blank i then Inl (RemovalValueError ''project_id must not be empty'') else Inr (By_project_id i)
   | _ \<Rightarrow> Inl (RemovalValueError ''exactly one of path or project_id is required''))"

definition resolve_project_selector :: "('a removal_fs_scheme) \<Rightarrow> project_selector \<Rightarrow> project_registration list
    \<Rightarrow> (removal_error, project_registration) result" where
  "resolve_project_selector fs selector registrations = (case selector of
     By_project_id i \<Rightarrow> (case filter (\<lambda>r. reg_project_id r = i) registrations of
         [r] \<Rightarrow> Inr r | _ \<Rightarrow> Inl (RemovalValueError ''unknown or non-unique full project_id''))
   | By_path p \<Rightarrow>
       if is_symlink fs p then Inl (RemovalValueError ''project path must not be a symlink'')
       else if \<not> path_exists fs p then Inl (RemovalValueError ''unknown canonical project path'')
       else case filter (\<lambda>r. canonical_path fs (reg_repository_root r) = canonical_path fs p) registrations of
         [r] \<Rightarrow> Inr r | _ \<Rightarrow> Inl (RemovalValueError ''unknown canonical project path''))"

section \<open>Classification\<close>

definition sorted_unique_texts :: "string list \<Rightarrow> string list" where
  "sorted_unique_texts xs = sort (remdups xs)"

definition inventory_action :: "string \<Rightarrow> string set \<Rightarrow> inventory_item \<Rightarrow> removal_action \<times> string" where
  "inventory_action project_id owners item =
     (if card owners > 1
         \<or> list_ex (\<lambda>r. is_project_ref r \<and> r \<noteq> ''project:'' @ project_id) (it_relationships item)
         \<or> it_ownership item = SHARED then (Retain, ''shared_resource'')
      else if it_ownership item = EXTERNAL then (Retain, ''external_resource'')
      else if it_ownership item = OWNERSHIP_UNKNOWN then (Retain, ''ownership_unproven'')
      else if it_type item = VOLUME \<and> it_reclaimable item then (Delete, ''exclusive_sdk_ownership'')
      else if it_active_use item = ACTIVE then (Retain, ''active_use'')
      else if it_type item \<in> {DATABASE, VOLUME} \<and> it_completeness item \<noteq> COMPLETE then (Retain, ''observation_incomplete'')
      else if it_type item \<in> {DATABASE, VOLUME} \<and> it_active_use item = USE_UNKNOWN then (Retain, ''active_use_unproven'')
      else if it_type item = PROJECT then (Retain, ''source_ownership_requires_git_provenance'')
      else if it_type item \<in> {ENVIRONMENT, WORKTREE} then (Delete, ''sdk_owned_environment_resource'')
      else if it_type item = BACKUP \<and> length (sorted_unique_texts (it_relationships item)) > 1
        then (Retain, ''referenced_by_shared_resource'')
      else if it_type item = VOLUME \<and> \<not> it_reclaimable item then (Retain, ''exclusive_use_not_proven'')
      else if it_type item = OTHER then (Retain, ''unknown_file'')
      else (Delete, ''exclusive_sdk_ownership''))"

definition bool_text :: "bool \<Rightarrow> string" where
  "bool_text b = (if b then ''true'' else ''false'')"

definition inventory_decision :: "string set \<Rightarrow> string \<Rightarrow> string set \<Rightarrow> inventory_item \<Rightarrow> removal_decision option" where
  "inventory_decision scoped project_id owners item =
     (if stable_identity item \<notin> scoped then None
      else let rels = sorted_unique_texts (it_relationships item);
               (act, reason) = inventory_action project_id owners item in
        Some \<lparr>rd_identity = stable_identity item, rd_resource_type = resource_type_value (it_type item), rd_action = act,
          rd_reason = reason,
          rd_target = safe_target (if or_empty (it_sanitized_path item) = [] then it_name item else or_empty (it_sanitized_path item)) None,
          rd_relationships = rels, rd_ownership = it_ownership item, rd_active_use = it_active_use item, rd_dependencies = rels,
          rd_evidence = [(''project_id'', project_id), (''complete'', completeness_value (it_completeness item)),
            (''reclaimable'', bool_text (it_reclaimable item))], rd_route = None\<rparr>)"

text \<open>
  \<open>in_run\<close> is whether a run context is active, \<open>status_step\<close> whether a captured status step is given.
\<close>

definition source_clean :: "('a removal_fs_scheme) \<Rightarrow> bool \<Rightarrow> bool \<Rightarrow> bool \<Rightarrow> project_registration \<Rightarrow> bool" where
  "source_clean fs in_run status_step hardened project =
     (let rt = canonical_path fs (reg_repository_root project);
          common = (if is_dir fs rt then parse_git_common_dir (git_fs.truncate fs) rt else None) in
      is_dir fs rt \<and> common \<noteq> None \<and> common = map_option (canonical_path fs) (reg_git_common_dir project)
      \<and> (is_file fs (path_join (path_join rt ''.git'') ''HEAD'') \<longrightarrow>
           (in_run \<and> \<not> status_step) \<or> \<not> worktree_is_dirty fs hardened rt))"

definition source_proven :: "('a removal_fs_scheme) \<Rightarrow> bool \<Rightarrow> bool \<Rightarrow> bool \<Rightarrow> project_registration \<Rightarrow> bool" where
  "source_proven fs in_run status_step hardened project =
     (let rt = canonical_path fs (reg_repository_root project);
          common = (if is_dir fs rt then parse_git_common_dir (git_fs.truncate fs) rt else None) in
      is_dir fs rt \<and> \<not> is_symlink fs (reg_repository_root project) \<and> reg_source_ownership project = PROVEN
      \<and> \<not> reg_linked_checkout project \<and> \<not> reg_caller_owned_checkout project \<and> \<not> reg_other_tool_managed_checkout project
      \<and> reg_git_common_dir project \<noteq> None \<and> common = map_option (canonical_path fs) (reg_git_common_dir project)
      \<and> source_clean fs in_run status_step hardened project)"

definition project_source_decision :: "('a removal_fs_scheme) \<Rightarrow> bool \<Rightarrow> bool \<Rightarrow> bool \<Rightarrow> project_registration
    \<Rightarrow> removal_decision option \<Rightarrow> removal_decision" where
  "project_source_decision fs in_run status_step hardened project existing =
     (let lexical_exists = (path_exists fs (reg_repository_root project) \<or> is_symlink fs (reg_repository_root project));
          rt = canonical_path fs (reg_repository_root project);
          common = (if is_dir fs rt then parse_git_common_dir (git_fs.truncate fs) rt else None);
          proven = source_proven fs in_run status_step hardened project;
          (act, reason) = (if proven then (Delete, ''registered_primary_source'')
            else if \<not> lexical_exists then (Retain, ''source_already_absent'')
            else (Retain, ''source_git_provenance_unmatched'')) in
      \<lparr>rd_identity = ''project:'' @ reg_project_id project, rd_resource_type = ''source'', rd_action = act, rd_reason = reason,
       rd_target = safe_target (case existing of None \<Rightarrow> ''<local>'' | Some e \<Rightarrow> rd_target e) None,
       rd_relationships = (case existing of None \<Rightarrow> [] | Some e \<Rightarrow> rd_relationships e),
       rd_ownership = (if proven then PROVEN else OWNERSHIP_UNKNOWN), rd_active_use = INACTIVE, rd_dependencies = [],
       rd_evidence = [(''project_id'', reg_project_id project), (''registered_root'', rt),
         (''registered_root_entry'', if lexical_exists then ''present'' else ''absent''),
         (''registered_common_dir'', or_empty (map_option (canonical_path fs) (reg_git_common_dir project))),
         (''observed_common_dir'', or_empty common)], rd_route = None\<rparr>)"

definition path_action :: "('a removal_fs_scheme) \<Rightarrow> path_source \<Rightarrow> removal_action \<times> string" where
  "path_action fs s =
     (if pa_symlink_escape s then (Retain, ''symlink_or_path_escape'')
      else case pa_allowed_root s of None \<Rightarrow> (Retain, ''containment_unproven'')
      | Some rt \<Rightarrow>
        if \<not> canonical_containment fs (pa_path s) rt then (Retain, ''symlink_or_path_escape'')
        else if pa_unknown s then (Retain, ''unknown_file'')
        else if pa_ownership s \<noteq> PROVEN then (Retain, ownership_value (pa_ownership s) @ ''_ownership'')
        else if pa_active_use s = ACTIVE then (Retain, ''active_use'')
        else (Delete, ''contained_exclusive_sdk_resource''))"

definition path_decision :: "('a removal_fs_scheme) \<Rightarrow> path_source \<Rightarrow> removal_decision" where
  "path_decision fs s = (let (act, reason) = path_action fs s in
     \<lparr>rd_identity = pa_identity s, rd_resource_type = pa_kind s, rd_action = act, rd_reason = reason,
      rd_target = safe_target (pa_target s) (Some (pa_path s)), rd_relationships = sorted_unique_texts (pa_relationships s),
      rd_ownership = pa_ownership s, rd_active_use = pa_active_use s, rd_dependencies = [],
      rd_evidence = [(''canonical_path'', canonical_path fs (pa_path s)), (''project_id'', pa_project_id s)], rd_route = None\<rparr>)"

definition runtime_decision :: "runtime_source \<Rightarrow> removal_decision" where
  "runtime_decision s = (let (act, reason) =
       (if rs_ownership s \<noteq> PROVEN then (Retain, ''runtime_ownership_unproven'')
        else if rs_active_use s = ACTIVE \<or> rs_stale s then (Stop, ''owned_runtime_active_or_stale'')
        else (Retain, ''runtime_already_stopped'')) in
     \<lparr>rd_identity = rs_identity s, rd_resource_type = ''runtime'', rd_action = act, rd_reason = reason,
      rd_target = safe_target (rs_target s) None, rd_relationships = [], rd_ownership = rs_ownership s,
      rd_active_use = rs_active_use s, rd_dependencies = [],
      rd_evidence = [(''project_id'', rs_project_id s), (''stale'', bool_text (rs_stale s))], rd_route = None\<rparr>)"

definition route_evidence :: "publication_route option \<Rightarrow> (string \<times> string) list" where
  "route_evidence route = (case route of None \<Rightarrow> []
     | Some r \<Rightarrow> [(''route_owner_kind'', owner_kind r), (''route_owner_id'', owner_id r),
         (''route_project_id'', or_empty (route_project_id r)), (''route_environment_id'', or_empty (route_environment_id r)),
         (''route_local_endpoint'', local_endpoint r), (''route_external_url'', external_url r),
         (''route_identity'', route_identity r)])"

definition publication_decision :: "publication_source \<Rightarrow> removal_decision" where
  "publication_decision s = (let (act, reason) =
       (if pub_ownership s = PROVEN \<and> pub_active_use s = ACTIVE then (Unpublish, ''owned_publication_active'')
        else if pub_ownership s = PROVEN then (Retain, ''publication_already_unpublished'')
        else (Retain, ''publication_ownership_unproven'')) in
     \<lparr>rd_identity = pub_identity s, rd_resource_type = ''publication'', rd_action = act, rd_reason = reason,
      rd_target = safe_target (pub_target s) None, rd_relationships = [], rd_ownership = pub_ownership s,
      rd_active_use = pub_active_use s, rd_dependencies = [],
      rd_evidence = (''project_id'', pub_project_id s) # route_evidence (pub_route s), rd_route = pub_route s\<rparr>)"

definition routes_owned_by_project :: "publication_route list \<Rightarrow> string \<Rightarrow> publication_route list" where
  "routes_owned_by_project routes project_id = filter (\<lambda>r. route_project_id r = Some project_id
     \<or> (owner_kind r = ''project'' \<and> owner_id r = project_id)) routes"

definition publication_sources_from_routes :: "string \<Rightarrow> publication_route list \<Rightarrow> publication_source list" where
  "publication_sources_from_routes project_id routes = map (\<lambda>r.
     \<lparr>pub_project_id = project_id, pub_identity = ''publication:'' @ owner_kind r @ '':'' @ owner_id r,
      pub_target = ''publication route'', pub_active_use = ACTIVE, pub_ownership = PROVEN, pub_route = Some r\<rparr>)
     (routes_owned_by_project routes project_id)"

definition compose_deletable :: "compose_source \<Rightarrow> bool" where
  "compose_deletable s \<longleftrightarrow> cs_ownership s = PROVEN \<and> cs_active_use s = INACTIVE \<and> cs_labels_match s \<and> cs_dependencies s = []"

definition compose_decision :: "compose_source \<Rightarrow> removal_decision" where
  "compose_decision s = (let (act, reason) =
       (if compose_deletable s then (Delete, ''exclusive_sdk_compose_resource'')
        else (Retain, ''compose_identity_or_dependency_unproven'')) in
     \<lparr>rd_identity = cs_identity s, rd_resource_type = ''compose'', rd_action = act, rd_reason = reason,
      rd_target = safe_target (cs_target s) None, rd_relationships = [], rd_ownership = cs_ownership s,
      rd_active_use = cs_active_use s, rd_dependencies = sorted_unique_texts (cs_dependencies s),
      rd_evidence = [(''project_id'', cs_project_id s), (''labels_match'', if cs_labels_match s then ''True'' else ''False'')],
      rd_route = None\<rparr>)"

section \<open>The projection\<close>

definition json_texts :: "string list \<Rightarrow> json" where
  "json_texts xs = JList (map JStr xs)"

definition canonical_decision :: "removal_decision \<Rightarrow> json" where
  "canonical_decision d = JList [JStr (rd_identity d), JStr (rd_resource_type d), JStr (action_value (rd_action d)),
     JStr (rd_reason d), JStr (rd_target d), json_texts (rd_relationships d), JStr (ownership_value (rd_ownership d)),
     JStr (active_use_value (rd_active_use d)), json_texts (rd_dependencies d),
     JList (map (\<lambda>(k, v). json_texts [k, v]) (rd_evidence d))]"

definition removal_fingerprint :: "('a removal_fs_scheme) \<Rightarrow> string \<Rightarrow> string \<Rightarrow> string \<Rightarrow> removal_decision list \<Rightarrow> bool \<Rightarrow> string" where
  "removal_fingerprint fs project_id registration_state repository_root decisions is_complete =
     sha256_hex fs (dumps (\<lambda>_. []) (JObj [(''project_id'', JStr project_id), (''registration_state'', JStr registration_state),
       (''repository_root'', JStr (canonical_path fs repository_root)), (''complete'', JBool is_complete),
       (''decisions'', JList (map canonical_decision decisions))]))"

record removal_projection =
  rp_project_id :: string
  rp_registration_state :: string
  rp_repository_root :: string
  rp_expected_confirmation :: string
  rp_decisions :: "removal_decision list"
  rp_fingerprint :: string
  rp_complete :: bool

definition type_rank :: "string \<Rightarrow> nat" where
  "type_rank t = (case map_of [(''environment'', 30), (''worktree'', 30), (''python_environment'', 30), (''database'', 40),
     (''filestore'', 40), (''backup'', 50), (''compose'', 60), (''volume'', 60), (''source'', 65)] t of
     None \<Rightarrow> 55 | Some n \<Rightarrow> n)"

definition phase :: "removal_decision \<Rightarrow> nat" where
  "phase d = (case rd_action d of Stop \<Rightarrow> 10 | Unpublish \<Rightarrow> 20 | Forget \<Rightarrow> 70 | _ \<Rightarrow> type_rank (rd_resource_type d))"

record removal_sources =
  src_items :: "inventory_item list"
  src_runtimes :: "runtime_source list"
  src_publications :: "publication_source list"
  src_paths :: "path_source list"
  src_compose :: "compose_source list"

definition add_decision :: "removal_decision \<Rightarrow> (string, removal_decision) dict \<Rightarrow> (string, removal_decision) dict" where
  "add_decision d ds = dset ds (rd_identity d) d"

definition inventory_decisions :: "owner_map \<Rightarrow> string \<Rightarrow> inventory_item list \<Rightarrow> (string, removal_decision) dict" where
  "inventory_decisions owners project_id items = fold (\<lambda>item ds.
     case inventory_decision (scope_ids owners project_id) project_id (owners_of owners (stable_identity item)) item of
       None \<Rightarrow> ds | Some d \<Rightarrow> add_decision d ds) items []"

definition all_decisions :: "('a removal_fs_scheme) \<Rightarrow> bool \<Rightarrow> bool \<Rightarrow> bool \<Rightarrow> owner_map \<Rightarrow> project_registration \<Rightarrow> removal_sources
    \<Rightarrow> (string, removal_decision) dict" where
  "all_decisions fs in_run status_step hardened owners project src =
     (let project_id = reg_project_id project;
          ds = inventory_decisions owners project_id (src_items src);
          ds = add_decision (project_source_decision fs in_run status_step hardened project
            (map_of ds (''project:'' @ project_id))) ds;
          ds = fold (add_decision \<circ> runtime_decision) (filter (\<lambda>s. rs_project_id s = project_id) (src_runtimes src)) ds;
          ds = fold (add_decision \<circ> publication_decision) (filter (\<lambda>s. pub_project_id s = project_id) (src_publications src)) ds;
          ds = fold (add_decision \<circ> path_decision fs) (filter (\<lambda>s. pa_project_id s = project_id) (src_paths src)) ds
      in fold (add_decision \<circ> compose_decision) (filter (\<lambda>s. cs_project_id s = project_id) (src_compose src)) ds)"

definition ordered_decisions :: "(string, removal_decision) dict \<Rightarrow> removal_decision list" where
  "ordered_decisions ds = sort_key (\<lambda>d. (phase d, rd_identity d)) (map snd ds)"

text \<open>\<^const>\<open>None\<close> is a call that never returns.\<close>

definition build_project_removal_projection :: "(string set \<Rightarrow> string list) \<Rightarrow> ('a removal_fs_scheme) \<Rightarrow> bool \<Rightarrow> bool \<Rightarrow> bool
    \<Rightarrow> bool \<Rightarrow> project_registration \<Rightarrow> removal_sources \<Rightarrow> (removal_error, removal_projection) result option" where
  "build_project_removal_projection elements fs in_run status_step hardened is_complete project src =
     map_option (\<lambda>owners.
       let ordered = ordered_decisions (all_decisions fs in_run status_step hardened owners project src) in
       rbind (expected_confirmation_token fs (reg_repository_root project) (reg_project_id project)) (\<lambda>token.
       Inr \<lparr>rp_project_id = reg_project_id project, rp_registration_state = reg_state project,
         rp_repository_root = canonical_path fs (reg_repository_root project), rp_expected_confirmation = token,
         rp_decisions = ordered,
         rp_fingerprint = removal_fingerprint fs (reg_project_id project) (reg_state project) (reg_repository_root project)
           ordered is_complete,
         rp_complete = is_complete\<rparr>)) (owner_projects elements (src_items src))"

text \<open>Public views of a projection.\<close>

record public_decision =
  pd_identity :: string
  pd_resource_type :: string
  pd_action :: removal_action
  pd_reason :: string
  pd_target :: string

definition public_of :: "removal_decision \<Rightarrow> (removal_error, public_decision) result" where
  "public_of d =
     (if blank (rd_identity d) then Inl (RemovalValueError ''decision identity must not be empty'')
      else if blank (rd_resource_type d) then Inl (RemovalValueError ''decision resource_type must not be empty'')
      else if blank (rd_reason d) then Inl (RemovalValueError ''decision reason must not be empty'')
      else Inr \<lparr>pd_identity = rd_identity d, pd_resource_type = rd_resource_type d, pd_action = rd_action d,
        pd_reason = rd_reason d, pd_target = rd_target d\<rparr>)"

definition public_decisions :: "removal_projection \<Rightarrow> (removal_error, public_decision list) result" where
  "public_decisions p = decode_each public_of (rp_decisions p)"

definition retained_decisions :: "removal_projection \<Rightarrow> (removal_error, public_decision list) result" where
  "retained_decisions p = decode_each public_of (filter (\<lambda>d. rd_action d = Retain) (rp_decisions p))"

definition bounded_decisions :: "removal_projection \<Rightarrow> int \<Rightarrow> (removal_error, public_decision list) result" where
  "bounded_decisions p limit =
     (if 1 \<le> limit \<and> limit \<le> 1000 then rbind (public_decisions p) (\<lambda>ds. Inr (take (nat limit) ds))
      else Inl (RemovalValueError ''decision limit must be an integer between 1 and 1000''))"

definition forget_resource_fingerprint :: "removal_projection \<Rightarrow> string" where
  "forget_resource_fingerprint p = rp_fingerprint p"

record removal_result =
  rr_project_id :: string
  rr_mode :: string
  rr_registration_state :: string
  rr_retained :: "public_decision list"
  rr_remaining :: "public_decision list"

definition projection_result :: "removal_projection \<Rightarrow> string \<Rightarrow> string option \<Rightarrow> int \<Rightarrow> (removal_error, removal_result) result" where
  "projection_result p mode registration_state limit = rbind (bounded_decisions p limit) (\<lambda>ds.
     Inr \<lparr>rr_project_id = rp_project_id p, rr_mode = mode,
       rr_registration_state = (case registration_state of None \<Rightarrow> rp_registration_state p | Some s \<Rightarrow> s),
       rr_retained = filter (\<lambda>d. pd_action d = Retain) ds, rr_remaining = filter (\<lambda>d. pd_action d \<noteq> Retain) ds\<rparr>)"

section \<open>Where a decision comes from\<close>

definition decided :: "(string, removal_decision) dict \<Rightarrow> removal_decision set" where
  "decided ds = snd ` set ds"

definition keyed :: "(string, removal_decision) dict \<Rightarrow> bool" where
  "keyed ds \<longleftrightarrow> distinct (dkeys ds) \<and> list_all (\<lambda>(k, d). k = rd_identity d) ds"

lemma add_decision_facts:
  "decided (add_decision d ds) \<subseteq> insert d (decided ds)"
  "keyed ds \<Longrightarrow> keyed (add_decision d ds)"
  "set (dkeys (add_decision d ds)) = insert (rd_identity d) (set (dkeys ds))"
proof -
  have sub: "set (dset ds (rd_identity d) d) \<subseteq> insert (rd_identity d, d) (set ds)" by (rule set_dset)
  then show "decided (add_decision d ds) \<subseteq> insert d (decided ds)" by (auto simp: add_decision_def decided_def)
  show "keyed (add_decision d ds)" if "keyed ds"
    using that sub distinct_dset[of ds] by (auto simp: keyed_def add_decision_def list_all_iff)
  show "set (dkeys (add_decision d ds)) = insert (rd_identity d) (set (dkeys ds))"
    by (auto simp: add_decision_def dkeys_dset)
qed

lemma fold_decisions:
  "decided (fold (add_decision \<circ> f) xs ds) \<subseteq> f ` set xs \<union> decided ds"
  "keyed ds \<Longrightarrow> keyed (fold (add_decision \<circ> f) xs ds)"
  "set (dkeys (fold (add_decision \<circ> f) xs ds)) = (rd_identity \<circ> f) ` set xs \<union> set (dkeys ds)"
proof (induction xs arbitrary: ds)
  case (Cons x xs)
  { case 1 show ?case using Cons.IH(1)[of "add_decision (f x) ds"] add_decision_facts(1)[of "f x" ds] by auto }
  { case 2 then show ?case using Cons.IH(2)[of "add_decision (f x) ds"] add_decision_facts(2)[of ds "f x"] by simp }
  { case 3 show ?case using Cons.IH(3)[of "add_decision (f x) ds"] add_decision_facts(3)[of "f x" ds] by simp }
qed simp_all

lemma inventory_decisions_fold: "inventory_decisions owners project_id items =
    fold (add_decision \<circ> id) (List.map_filter (\<lambda>item. inventory_decision (scope_ids owners project_id) project_id
      (owners_of owners (stable_identity item)) item) items) []"
proof -
  have "fold (\<lambda>item ds. case g item of None \<Rightarrow> ds | Some d \<Rightarrow> add_decision d ds) items ds =
      fold (add_decision \<circ> id) (List.map_filter g items) ds" for g ds
    by (induction items arbitrary: ds) (auto simp: List.map_filter_simps split: option.split)
  then show ?thesis by (simp add: inventory_decisions_def)
qed

lemma set_map_filter: "set (List.map_filter f xs) = {y. \<exists>x\<in>set xs. f x = Some y}"
  by (induction xs) (auto simp: List.map_filter_simps split: option.splits)

abbreviation (input) item_decision :: "owner_map \<Rightarrow> project_registration \<Rightarrow> inventory_item \<Rightarrow> removal_decision option" where
  "item_decision owners project item \<equiv> inventory_decision (scope_ids owners (reg_project_id project)) (reg_project_id project)
     (owners_of owners (stable_identity item)) item"

lemma decision_origin:
  assumes "d \<in> decided (all_decisions fs in_run status_step hardened owners project src)"
  obtains (item) item where "item \<in> set (src_items src)" "item_decision owners project item = Some d"
  | (source) e where "d = project_source_decision fs in_run status_step hardened project e"
  | (runtime) s where "s \<in> set (src_runtimes src)" "rs_project_id s = reg_project_id project" "d = runtime_decision s"
  | (publication) s where "s \<in> set (src_publications src)" "pub_project_id s = reg_project_id project" "d = publication_decision s"
  | (path) s where "s \<in> set (src_paths src)" "pa_project_id s = reg_project_id project" "d = path_decision fs s"
  | (compose) s where "s \<in> set (src_compose src)" "cs_project_id s = reg_project_id project" "d = compose_decision s"
proof -
  let ?inv = "inventory_decisions owners (reg_project_id project) (src_items src)"
  let ?src = "project_source_decision fs in_run status_step hardened project (map_of ?inv (''project:'' @ reg_project_id project))"
  have "decided ?inv \<subseteq> {d. \<exists>item\<in>set (src_items src). item_decision owners project item = Some d}"
    unfolding inventory_decisions_fold set_map_filter[symmetric]
    by (rule order_trans[OF fold_decisions(1)]) (simp add: decided_def)
  then have "decided (add_decision ?src ?inv) \<subseteq> insert ?src {d. \<exists>item\<in>set (src_items src). item_decision owners project item = Some d}"
    using add_decision_facts(1)[of ?src ?inv] by blast
  with assms have "d \<in> compose_decision ` {s \<in> set (src_compose src). cs_project_id s = reg_project_id project}
      \<or> d \<in> path_decision fs ` {s \<in> set (src_paths src). pa_project_id s = reg_project_id project}
      \<or> d \<in> publication_decision ` {s \<in> set (src_publications src). pub_project_id s = reg_project_id project}
      \<or> d \<in> runtime_decision ` {s \<in> set (src_runtimes src). rs_project_id s = reg_project_id project}
      \<or> d = ?src \<or> (\<exists>item\<in>set (src_items src). item_decision owners project item = Some d)"
    unfolding all_decisions_def Let_def by (auto dest!: subsetD[OF fold_decisions(1)])
  then show thesis using item source runtime publication path compose by auto
qed

lemma item_decision_Some:
  assumes "item_decision owners project item = Some d"
  shows "reg_project_id project \<in> owners_of owners (stable_identity item)" "rd_identity d = stable_identity item"
    "rd_ownership d = it_ownership item"
    "rd_action d = fst (inventory_action (reg_project_id project) (owners_of owners (stable_identity item)) item)"
proof -
  let ?a = "inventory_action (reg_project_id project) (owners_of owners (stable_identity item)) item"
  obtain act reason where a: "?a = (act, reason)" by force
  have sc: "stable_identity item \<in> scope_ids owners (reg_project_id project)"
    using assms by (rule contrapos_pp) (simp add: inventory_decision_def)
  then show "reg_project_id project \<in> owners_of owners (stable_identity item)" by (simp add: scope_ids_iff)
  show "rd_identity d = stable_identity item" "rd_ownership d = it_ownership item" "rd_action d = fst ?a"
    using assms sc a by (auto simp: inventory_decision_def Let_def)
qed

lemma inventory_delete:
  assumes "fst (inventory_action project_id owners item) = Delete"
  shows "card owners \<le> 1 \<and> it_ownership item = PROVEN
    \<and> (\<forall>r\<in>set (it_relationships item). is_project_ref r \<longrightarrow> r = ''project:'' @ project_id)
    \<and> it_type item \<notin> {PROJECT, OTHER}
    \<and> (it_active_use item = ACTIVE \<longrightarrow> it_type item = VOLUME \<and> it_reclaimable item)"
  using assms unfolding inventory_action_def
  by (cases "it_ownership item") (auto simp: list_ex_iff split: if_splits)

lemma delete_item:
  assumes "item_decision owners project item = Some d" "rd_action d = Delete" "finite (owners_of owners (stable_identity item))"
  shows "rd_identity d = stable_identity item \<and> rd_ownership d = PROVEN
    \<and> owners_of owners (stable_identity item) = {reg_project_id project}
    \<and> (\<forall>r\<in>set (it_relationships item). is_project_ref r \<longrightarrow> r = ''project:'' @ reg_project_id project)
    \<and> it_type item \<notin> {PROJECT, OTHER}
    \<and> (it_active_use item = ACTIVE \<longrightarrow> it_type item = VOLUME \<and> it_reclaimable item)"
proof -
  note i = item_decision_Some[OF assms(1)]
  have del: "fst (inventory_action (reg_project_id project) (owners_of owners (stable_identity item)) item) = Delete"
    using i(4) assms(2) by simp
  note f = inventory_delete[OF del]
  have "owners_of owners (stable_identity item) = {reg_project_id project}"
    using i(1) f assms(3) card_le_Suc0_iff_eq[OF assms(3)] by auto
  with f i show ?thesis by simp
qed

lemma built_projection:
  assumes "build_project_removal_projection elements fs in_run status_step hardened cmpl project src = Some (Inr p)"
  obtains owners where "owner_projects elements (src_items src) = Some owners"
    "rp_decisions p = ordered_decisions (all_decisions fs in_run status_step hardened owners project src)"
    "rp_project_id p = reg_project_id project"
  using assms by (auto simp: build_project_removal_projection_def Let_def rbind_Inr_iff)

lemma set_ordered: "set (ordered_decisions ds) = decided ds"
  by (simp add: ordered_decisions_def decided_def)


section \<open>The plan as a whole\<close>

lemma all_decisions_cong:
  assumes "\<And>i. owners_of owners i = owners_of owners' i"
  shows "all_decisions fs in_run status_step hardened owners project src = all_decisions fs in_run status_step hardened owners' project src"
proof -
  have o: "owners_of owners = owners_of owners'" using assms by auto
  have "scope_ids owners q = scope_ids owners' q" for q by (rule set_eqI) (simp add: scope_ids_iff o)
  then show ?thesis by (simp add: all_decisions_def inventory_decisions_def o)
qed

lemma item_identities:
  "rd_identity ` set (List.map_filter (\<lambda>item. inventory_decision (scope_ids owners project_id) project_id
      (owners_of owners (stable_identity item)) item) items) =
    {i \<in> stable_identity ` set items. project_id \<in> owners_of owners i}"
proof -
  have "(\<exists>d. inventory_decision (scope_ids owners project_id) project_id os item = Some d) \<longleftrightarrow> project_id \<in> owners_of owners (stable_identity item)" for os item
    by (simp add: inventory_decision_def Let_def scope_ids_iff split: prod.split)
  moreover have "inventory_decision sc project_id os item = Some d \<Longrightarrow> rd_identity d = stable_identity item" for sc os item d
    by (auto simp: inventory_decision_def Let_def split: if_splits prod.splits)
  ultimately show ?thesis by (fastforce simp: set_map_filter image_iff)
qed

lemma decided_identities:
  "keyed (all_decisions fs in_run status_step hardened owners project src)"
  "set (dkeys (all_decisions fs in_run status_step hardened owners project src)) =
    {i \<in> stable_identity ` set (src_items src). reg_project_id project \<in> owners_of owners i} \<union> {''project:'' @ reg_project_id project}
    \<union> rs_identity ` {s \<in> set (src_runtimes src). rs_project_id s = reg_project_id project}
    \<union> pub_identity ` {s \<in> set (src_publications src). pub_project_id s = reg_project_id project}
    \<union> pa_identity ` {s \<in> set (src_paths src). pa_project_id s = reg_project_id project}
    \<union> cs_identity ` {s \<in> set (src_compose src). cs_project_id s = reg_project_id project}"
proof -
  have e: "keyed []" by (simp add: keyed_def dkeys_def)
  have inv: "keyed (inventory_decisions owners (reg_project_id project) (src_items src))"
    unfolding inventory_decisions_fold using e by (rule fold_decisions(2))
  show "keyed (all_decisions fs in_run status_step hardened owners project src)"
    unfolding all_decisions_def Let_def by (intro fold_decisions(2) add_decision_facts(2) inv)
  have ids: "rd_identity (project_source_decision fs in_run status_step hardened project x) = ''project:'' @ reg_project_id project"
    "rd_identity (runtime_decision r) = rs_identity r" "rd_identity (publication_decision u) = pub_identity u"
    "rd_identity (path_decision fs a) = pa_identity a" "rd_identity (compose_decision k) = cs_identity k" for x r u a k
    by (simp_all add: project_source_decision_def runtime_decision_def publication_decision_def path_decision_def
        compose_decision_def Let_def split: prod.split)
  have k: "set (dkeys (inventory_decisions owners (reg_project_id project) (src_items src))) =
      {i \<in> stable_identity ` set (src_items src). reg_project_id project \<in> owners_of owners i}"
    unfolding inventory_decisions_fold fold_decisions(3) using item_identities by (simp add: dkeys_def)
  show "set (dkeys (all_decisions fs in_run status_step hardened owners project src)) =
    {i \<in> stable_identity ` set (src_items src). reg_project_id project \<in> owners_of owners i} \<union> {''project:'' @ reg_project_id project}
    \<union> rs_identity ` {s \<in> set (src_runtimes src). rs_project_id s = reg_project_id project}
    \<union> pub_identity ` {s \<in> set (src_publications src). pub_project_id s = reg_project_id project}
    \<union> pa_identity ` {s \<in> set (src_paths src). pa_project_id s = reg_project_id project}
    \<union> cs_identity ` {s \<in> set (src_compose src). cs_project_id s = reg_project_id project}"
    unfolding all_decisions_def Let_def fold_decisions(3) add_decision_facts(3) k by (auto simp: ids image_iff)
qed

lemma keyed_identities: "keyed ds \<Longrightarrow> map rd_identity (map snd ds) = dkeys ds"
  by (auto simp: keyed_def dkeys_def list_all_iff)

lemma ordered_facts:
  assumes "keyed ds"
  shows "distinct (map rd_identity (ordered_decisions ds))" "set (map rd_identity (ordered_decisions ds)) = set (dkeys ds)"
    "sorted (map (\<lambda>d. (phase d, rd_identity d)) (ordered_decisions ds))"
proof -
  have "distinct (map rd_identity (map snd ds))" "set (map rd_identity (map snd ds)) = set (dkeys ds)"
    using assms unfolding keyed_identities[OF assms] by (simp_all add: keyed_def)
  then show "distinct (map rd_identity (ordered_decisions ds))" "set (map rd_identity (ordered_decisions ds)) = set (dkeys ds)"
    unfolding ordered_decisions_def by (simp_all only: distinct_map distinct_sort set_sort set_map)
  show "sorted (map (\<lambda>d. (phase d, rd_identity d)) (ordered_decisions ds))" by (simp add: ordered_decisions_def)
qed

text \<open>
  C27: A removal plan is determined by what was observed: whatever order sets are iterated in, the
  same projection with the same fingerprint comes out. It decides every inventory resource the
  project owns, the project's source and every further observation of the project, each exactly
  once, in the order of the removal phases and by identity within a phase.
\<close>

theorem removal_plan_determined:
  assumes "\<And>S. finite S \<Longrightarrow> set (elements S) = S" "\<And>S. finite S \<Longrightarrow> set (elements' S) = S"
  shows "\<exists>r. build_project_removal_projection elements fs in_run status_step hardened cmpl project src = Some r
    \<and> build_project_removal_projection elements' fs in_run status_step hardened cmpl project src = Some r
    \<and> (\<forall>p. r = Inr p \<longrightarrow> distinct (map rd_identity (rp_decisions p))
        \<and> sorted (map (\<lambda>d. (phase d, rd_identity d)) (rp_decisions p))
        \<and> set (map rd_identity (rp_decisions p)) =
            {i \<in> stable_identity ` set (src_items src). owns (src_items src) i (reg_project_id project)} \<union> {''project:'' @ reg_project_id project}
            \<union> rs_identity ` {s \<in> set (src_runtimes src). rs_project_id s = reg_project_id project}
            \<union> pub_identity ` {s \<in> set (src_publications src). pub_project_id s = reg_project_id project}
            \<union> pa_identity ` {s \<in> set (src_paths src). pa_project_id s = reg_project_id project}
            \<union> cs_identity ` {s \<in> set (src_compose src). cs_project_id s = reg_project_id project})"
proof -
  obtain o1 where o1: "owner_projects elements (src_items src) = Some o1" "\<forall>i. owners_of o1 i = {q. owns (src_items src) i q}"
    using closed_owners[of elements "src_items src"] assms(1) by blast
  obtain o2 where o2: "owner_projects elements' (src_items src) = Some o2" "\<forall>i. owners_of o2 i = {q. owns (src_items src) i q}"
    using closed_owners[of elements' "src_items src"] assms(2) by blast
  have same: "all_decisions fs in_run status_step hardened o2 project src = all_decisions fs in_run status_step hardened o1 project src"
    by (rule all_decisions_cong) (simp add: o1(2) o2(2))
  obtain r where r: "build_project_removal_projection elements fs in_run status_step hardened cmpl project src = Some r"
    using o1(1) by (simp add: build_project_removal_projection_def)
  then have "build_project_removal_projection elements' fs in_run status_step hardened cmpl project src = Some r"
    using o1(1) o2(1) same by (simp add: build_project_removal_projection_def Let_def)
  moreover have "rp_decisions p = ordered_decisions (all_decisions fs in_run status_step hardened o1 project src)" if "r = Inr p" for p
    using built_projection[OF r[unfolded that]] o1(1) by (metis option.inject)
  ultimately show ?thesis
    using r ordered_facts[OF decided_identities(1)[of fs in_run status_step hardened o1 project src]]
      decided_identities(2)[of fs in_run status_step hardened o1 project src] o1(2) by auto
qed

section \<open>A concrete plan\<close>

definition sample_fs :: removal_fs where
  "sample_fs = \<lparr>resolve = id, sha256_hex = id, is_file = (\<lambda>_. False), path_exists = (\<lambda>_. False), is_symlink = (\<lambda>_. False),
     st_size = (\<lambda>_. None), content_sha256 = id, is_dir = (\<lambda>_. False), read_text = (\<lambda>_. None), exists_or_raise = (\<lambda>_. None),
     expanduser = id, absolute = id, lexists = (\<lambda>_. False), symlink_at = (\<lambda>_. Some False), worktree_is_dirty = (\<lambda>_ _. False)\<rparr>"

definition sample_registration :: project_registration where
  "sample_registration = \<lparr>reg_project_id = ''b'', reg_repository_root = ''/erp'', reg_git_common_dir = None, reg_state = ''registered'',
     reg_source_ownership = PROVEN, reg_linked_checkout = False, reg_caller_owned_checkout = False, reg_other_tool_managed_checkout = False\<rparr>"

definition sample_sources :: removal_sources where
  "sample_sources = \<lparr>src_items = sample_inventory, src_runtimes = [\<lparr>rs_project_id = ''b'', rs_identity = ''runtime:1'',
     rs_target = ''runtime'', rs_active_use = ACTIVE, rs_ownership = PROVEN, rs_stale = False\<rparr>],
     src_publications = [], src_paths = [], src_compose = []\<rparr>"

abbreviation (input) sample_plan :: "(removal_error, removal_projection) result option" where
  "sample_plan \<equiv> build_project_removal_projection sample_elements sample_fs False False True True sample_registration sample_sources"

lemma sample_decisions:
  "map_option (\<lambda>owners. map (\<lambda>d. (rd_identity d, rd_action d)) (ordered_decisions
       (all_decisions sample_fs False False True owners sample_registration sample_sources)))
     (owner_projects sample_elements sample_inventory) =
     Some [(''runtime:1'', Stop), (''environment:e'', Delete), (''worktree:w'', Delete), (''database:1'', Retain),
       (''backup:x'', Retain), (''project:b'', Retain)]"
  by code_simp

lemma sample_token: "expected_confirmation_token sample_fs ''/erp'' ''b'' = Inr ''erp:b''"
  by code_simp

lemma sample_built:
  obtains p where "sample_plan = Some (Inr p)" "map (\<lambda>d. (rd_identity d, rd_action d)) (rp_decisions p) =
    [(''runtime:1'', Stop), (''environment:e'', Delete), (''worktree:w'', Delete), (''database:1'', Retain),
       (''backup:x'', Retain), (''project:b'', Retain)]"
proof -
  have e: "src_items sample_sources = sample_inventory" "reg_project_id sample_registration = ''b''"
    "reg_repository_root sample_registration = ''/erp''" by (simp_all add: sample_sources_def sample_registration_def)
  obtain owners where o: "owner_projects sample_elements sample_inventory = Some owners" using sample_decisions by blast
  have "\<exists>p. sample_plan = Some (Inr p) \<and> rp_decisions p = ordered_decisions
      (all_decisions sample_fs False False True owners sample_registration sample_sources)"
    by (simp add: build_project_removal_projection_def Let_def e o sample_token)
  with sample_decisions o that show thesis by auto
qed

lemma sample_elements_set: "finite S \<Longrightarrow> set (sample_elements S) = S"
  by (simp add: sample_elements_def)


theorem removal_plan_determined_witness:
  "\<exists>p. sample_plan = Some (Inr p) \<and> distinct (map rd_identity (rp_decisions p))
    \<and> build_project_removal_projection (rev \<circ> sample_elements) sample_fs False False True True sample_registration sample_sources = sample_plan"
proof -
  obtain p where p: "sample_plan = Some (Inr p)" using sample_built by blast
  have r: "set ((rev \<circ> sample_elements) S) = S" if "finite S" for S using sample_elements_set[OF that] by simp
  show ?thesis
    using removal_plan_determined[of sample_elements "rev \<circ> sample_elements" sample_fs False False True True sample_registration sample_sources,
        OF sample_elements_set r] p by simp
qed

end
