(* ===== verification/Py_Text.thy ===== *)
theory Py_Text
  imports Py_Regex
begin

text \<open>
  Text operations of Python that the sources use: \<^verbatim>\<open>splitlines\<close>, \<^verbatim>\<open>split\<close> at a longer separator, \<^verbatim>\<open>rsplit\<close>, the
  parts of a \<^verbatim>\<open>pathlib\<close> path, and the facts that read the structure of a text off a regular expression that
  matches it.
\<close>

section \<open>Lines and separators\<close>

text \<open>The line boundaries of \<^verbatim>\<open>str.splitlines\<close> below code point 256.\<close>

definition line_break :: "char \<Rightarrow> bool" where
  "line_break c \<longleftrightarrow> in_range 10 13 c \<or> in_range 28 30 c \<or> code c = 133"

fun lines_from :: "string \<Rightarrow> string \<Rightarrow> string list" where
  "lines_from line [] = (if line = [] then [] else [rev line])"
| "lines_from line (c # s) =
     (if c = CR \<and> startswith s [LF] then rev line # lines_from [] (tl s)
      else if line_break c then rev line # lines_from [] s
      else lines_from (c # line) s)"

definition splitlines :: "string \<Rightarrow> string list" where
  "splitlines s = lines_from [] s"

text \<open>\<^verbatim>\<open>s.split(sep)\<close> for a separator that is not empty, and \<^verbatim>\<open>s.rsplit(c, 1)[-1]\<close>.\<close>

fun split_from :: "string \<Rightarrow> string \<Rightarrow> string \<Rightarrow> string list" where
  "split_from sep part [] = [rev part]"
| "split_from sep part (c # s) =
     (if sep \<noteq> [] \<and> startswith (c # s) sep then rev part # split_from sep [] (drop (length sep - 1) s)
      else split_from sep (c # part) s)"

definition split_str :: "string \<Rightarrow> string \<Rightarrow> string list" where
  "split_str sep s = split_from sep [] s"

definition last_part :: "char \<Rightarrow> string \<Rightarrow> string" where
  "last_part c s = rev (takeWhile (\<lambda>x. x \<noteq> c) (rev s))"

section \<open>Paths\<close>

text \<open>\<^verbatim>\<open>str(Path(p))\<close>: empty and dot components are dropped, two leading slashes are kept.\<close>

definition path_anchor :: "string \<Rightarrow> string" where
  "path_anchor p = (if startswith p ''//'' \<and> \<not> startswith p ''///'' then ''//''
     else if startswith p ''/'' then ''/'' else [])"

definition path_components :: "string \<Rightarrow> string list" where
  "path_components p = filter (\<lambda>c. c \<noteq> [] \<and> c \<noteq> ''.'') (split_on (CHR ''/'') p)"

definition path_text :: "string \<Rightarrow> string" where
  "path_text p = (let t = path_anchor p @ join_with ''/'' (path_components p) in if t = [] then ''.'' else t)"

lemma hd_joined:
  assumes "\<forall>c\<in>set cs. c \<noteq> [] \<and> CHR ''/'' \<notin> set c"
  shows "\<not> startswith (join_with ''/'' cs) ''/''"
  using assms by (induction "''/''" cs rule: join_with.induct) (auto simp: startswith_def neq_Nil_conv)

lemma components_joined:
  assumes "\<forall>c\<in>set cs. c \<noteq> [] \<and> c \<noteq> ''.'' \<and> CHR ''/'' \<notin> set c" "slashes \<in> {[], ''/'', ''//''}"
  shows "path_components (slashes @ join_with ''/'' cs) = cs"
proof -
  have "path_components (join_with ''/'' cs) = cs"
  proof (cases "cs = []")
    case True
    then show ?thesis by (simp add: path_components_def)
  next
    case False
    then have "split_on (CHR ''/'') (join_with ''/'' cs) = cs" using assms(1) by (intro split_join) auto
    then show ?thesis using assms(1) by (simp add: path_components_def)
  qed
  moreover have "path_components (CHR ''/'' # p) = path_components p" for p by (simp add: path_components_def)
  ultimately show ?thesis using assms(2) by auto
qed

lemma path_text_idem [simp]: "path_text (path_text p) = path_text p"
proof -
  let ?cs = "path_components p" and ?a = "path_anchor p"
  have cs: "\<forall>c\<in>set ?cs. c \<noteq> [] \<and> c \<noteq> ''.'' \<and> CHR ''/'' \<notin> set c"
    using split_on_no_sep by (auto simp: path_components_def)
  have a: "?a \<in> {[], ''/'', ''//''}" by (auto simp: path_anchor_def)
  note h = hd_joined[of ?cs] components_joined[OF cs a]
  have "path_anchor (?a @ join_with ''/'' ?cs) = ?a"
    using h(1) cs by (cases "join_with ''/'' ?cs") (auto simp: path_anchor_def startswith_def)
  with h(2) show ?thesis
    by (auto simp: path_text_def Let_def path_anchor_def path_components_def startswith_def)
qed


section \<open>Structure of matching texts\<close>

inductive_simps matches_simps [simp]:
  "matches Eps s t" "matches (Seq a b) s t" "matches (Alt a b) s t"

lemma matches_Cls [simp]: "matches (Cls P) (p, s) t \<longleftrightarrow> (\<exists>c r. s = c # r \<and> P c \<and> t = (Some c, r))"
  by (auto elim: matches.cases intro: matches.intros)

lemma matches_NotBehind [simp]: "matches (NotBehind P) (p, s) t \<longleftrightarrow> t = (p, s) \<and> (\<forall>c. p = Some c \<longrightarrow> \<not> P c)"
  by (auto elim: matches.cases intro: matches.intros)

lemma matches_NotAhead [simp]: "matches (NotAhead P) (p, s) t \<longleftrightarrow> t = (p, s) \<and> (s = [] \<or> \<not> P (hd s))"
  by (auto elim: matches.cases intro: matches.intros)

definition after :: "char option \<Rightarrow> string \<Rightarrow> char option" where
  "after p u = (if u = [] then p else Some (last u))"

lemma after_simps [simp]: "after p [] = p" "after p (u @ [c]) = Some c" "after (after p u) v = after p (u @ v)"
  by (auto simp: after_def)

lemma matches_Star_Cls [simp]:
  "matches (Star (Cls P)) (p, s) t \<longleftrightarrow> (\<exists>u r. s = u @ r \<and> list_all P u \<and> t = (after p u, r))"
proof
  assume "matches (Star (Cls P)) (p, s) t"
  then show "\<exists>u r. s = u @ r \<and> list_all P u \<and> t = (after p u, r)"
  proof (induction "Star (Cls P)" "(p, s)" t arbitrary: p s rule: matches.induct)
    case (star1 m u)
    from star1(1) obtain c r where c: "s = c # r" "P c" "m = (Some c, r)" by (cases m) auto
    from star1(4)[of "Some c" r] c(3) obtain v w where "r = v @ w" "list_all P v" "u = (after (Some c) v, w)" by auto
    with c show ?case by (intro exI[of _ "c # v"] exI[of _ w]) (auto simp: after_def)
  qed auto
next
  assume "\<exists>u r. s = u @ r \<and> list_all P u \<and> t = (after p u, r)"
  then obtain u r where u: "s = u @ r" "list_all P u" "t = (after p u, r)" by auto
  from u(2) have "matches (Star (Cls P)) (p, u @ r) (after p u, r)"
  proof (induction u arbitrary: p)
    case (Cons c u)
    then have "matches (Star (Cls P)) (Some c, u @ r) (after (Some c) u, r)" by simp
    moreover have "matches (Cls P) (p, c # u @ r) (Some c, u @ r)" using Cons.prems by simp
    moreover have "length (snd (Some c, u @ r)) < length (snd (p, c # u @ r))" by simp
    ultimately have "matches (Star (Cls P)) (p, c # u @ r) (after (Some c) u, r)" by (blast intro: matches.star1)
    moreover have "after (Some c) u = after p (c # u)" by (simp add: after_def)
    ultimately show ?case by simp
  qed (auto intro: matches.intros)
  with u show "matches (Star (Cls P)) (p, s) t" by simp
qed

lemma matches_lit [simp]: "matches (lit w) (p, s) t \<longleftrightarrow> (\<exists>r. s = w @ r \<and> t = (after p w, r))"
proof (induction w arbitrary: p s)
  case (Cons x w)
  show ?case
  proof (cases w)
    case Nil
    then show ?thesis by (auto simp: lit_def after_def)
  next
    case (Cons y ys)
    then have "lit (x # w) = Seq (Cls (\<lambda>c. c = x)) (lit w)" by (simp add: lit_def)
    then show ?thesis using Cons.IH by (auto simp: after_def)
  qed
qed (auto simp: lit_def)

lemma fullmatch_iff: "re_fullmatch r s \<longleftrightarrow> (\<exists>q. matches r (None, s) (q, []))"
  using successes_iff_matches by (force simp: re_fullmatch_def list_ex_iff)

lemma re_find_from_Some:
  assumes "re_find_from r p s = Some (b, m, a)"
  shows "s = b @ m @ a \<and> (\<exists>q. matches r (after p b, m @ a) (q, a))"
  using assms
proof (induction r p s arbitrary: b rule: re_find_from.induct)
  case (1 r p)
  then obtain t ts where t: "successes r (p, []) = t # ts" by (auto split: list.splits)
  then have "matches r (p, []) t" using successes_sound[of t r "(p, [])"] by simp
  moreover from matches_suffix[OF this] have "snd t = []" by simp
  ultimately show ?case using 1 t by (cases t) auto
next
  case (2 r p c cs)
  show ?case
  proof (cases "successes r (p, c # cs)")
    case Nil
    with 2(2) obtain b' where b: "b = c # b'" "re_find_from r (Some c) cs = Some (b', m, a)"
      by (auto split: prod.splits)
    with 2(1)[OF Nil] show ?thesis by (auto simp: after_def split: if_splits)
  next
    case (Cons t ts)
    obtain q u where t: "t = (q, u)" by force
    then have m: "matches r (p, c # cs) (q, u)" using successes_sound[of t r "(p, c # cs)"] Cons by simp
    from matches_suffix[OF this] obtain v where v: "c # cs = v @ u" by auto
    moreover have "b = []" "a = u" "m = take (length (c # cs) - length u) (c # cs)" using Cons t 2(2) by auto
    ultimately have "b = []" "a = u" "m = v" by auto
    with m v show ?thesis by auto
  qed
qed

lemma re_search_from_iff: "re_search_from r p s \<longleftrightarrow> (\<exists>b t. s = b @ t \<and> (\<exists>u. matches r (after p b, t) u))"
proof (induction r p s rule: re_search_from.induct)
  case (1 r p)
  have "successes r (p, []) \<noteq> [] \<longleftrightarrow> (\<exists>u. u \<in> set (successes r (p, [])))" by (cases "successes r (p, [])") auto
  then show ?case by (simp only: re_search_from.simps successes_iff_matches) simp
next
  case (2 r p c cs)
  have s: "successes r (p, c # cs) \<noteq> [] \<longleftrightarrow> (\<exists>u. u \<in> set (successes r (p, c # cs)))" by (cases "successes r (p, c # cs)") auto
  have "(\<exists>b t. c # cs = b @ t \<and> (\<exists>u. matches r (after p b, t) u)) \<longleftrightarrow>
      (\<exists>u. matches r (p, c # cs) u) \<or> (\<exists>b t. cs = b @ t \<and> (\<exists>u. matches r (after (Some c) b, t) u))"
    (is "?l = ?r")
  proof
    assume ?l
    then obtain b t u where b: "c # cs = b @ t" "matches r (after p b, t) u" by blast
    show ?r
    proof (cases b)
      case (Cons x b')
      then have "x = c" "cs = b' @ t" "after p b = after (Some c) b'" using b(1) by (auto simp: after_def)
      then have "cs = b' @ t" "matches r (after (Some c) b', t) u" using b(2) by simp_all
      then show ?thesis by blast
    next
      case Nil
      with b have "matches r (p, c # cs) u" by simp
      then show ?thesis by blast
    qed
  next
    have a: "after p (c # b) = after (Some c) b" for b by (auto simp: after_def)
    assume ?r
    then show ?l
    proof
      assume "\<exists>u. matches r (p, c # cs) u"
      then obtain u where "c # cs = [] @ (c # cs)" "matches r (after p [], c # cs) u" by auto
      then show ?l by blast
    next
      assume "\<exists>b t. cs = b @ t \<and> (\<exists>u. matches r (after (Some c) b, t) u)"
      then obtain b t u where "cs = b @ t" "matches r (after (Some c) b, t) u" by blast
      then have "c # cs = (c # b) @ t" "matches r (after p (c # b), t) u" by (simp_all add: a)
      then show ?l by blast
    qed
  qed
  with 2 s show ?case by (simp only: re_search_from.simps successes_iff_matches)
qed

end
