(* ===== verification/Backup_Deletion.thy ===== *)
theory Backup_Deletion
  imports Catalog_Environment Py_Text
begin

text \<open>
  Deleting one backup: \<^verbatim>\<open>BackupResource._delete_impl\<close> of \<^verbatim>\<open>resources/backup.py\<close> over the catalogue and a
  store of files.

  The store maps directory entries to what \<^verbatim>\<open>lstat\<close> answers for them. A path text names the entry
  \<open>vh_entry_of\<close>, so two texts may name the same file. What the host decides (locks, refused unlinks,
  resolved paths, the clock) is a field of \<open>vault_host\<close>; lock attempts and policy reads are counted, and
  the host may answer each of them differently.
\<close>

section \<open>Paths and files\<close>

record file_entry =
  fe_symlink :: bool
  fe_exists :: bool
  fe_regular :: bool
  fe_identity :: "int \<times> int"
  fe_lstat_size :: int
  fe_stat_size :: "int option"
  fe_sha256 :: "string option"

datatype lstat_answer = Missing | Denied | Found file_entry

datatype lock_answer = Acquired | Busy | Lock_failed string

datatype policy_file = No_file | Unreadable | Toml "(string \<times> json) list"

datatype vault_error =
    Catalog catalog_error
  | LockConflictError
  | StalePlanError string string
  | ConfigError string
  | PyOSError string
  | PyOverflowError

record vault_host =
  vh_fs :: host_fs
  vh_bracket_ok :: "string \<Rightarrow> bool"
  vh_entry_of :: "string \<Rightarrow> string"
  vh_resolve :: "string \<Rightarrow> string option"
  vh_configured_root :: "string option"
  vh_backups_dir :: string
  vh_unlink_error :: "string \<Rightarrow> string option"
  vh_lock :: "nat \<Rightarrow> string \<Rightarrow> lock_answer"
  vh_policy :: "nat \<Rightarrow> policy_file"
  vh_policy_path :: string
  vh_clock :: "nat \<Rightarrow> py_datetime"

record vault =
  v_conn :: conn
  v_files :: "string \<Rightarrow> lstat_answer"
  v_locks :: nat
  v_policy_reads :: nat

type_synonym 'a vact = "(vault, vault_error, 'a) act"

definition on_catalog :: "'a cat \<Rightarrow> 'a vact" where
  "on_catalog m w = (case m (v_conn w) of
     (Inl e, c) \<Rightarrow> (Inl (Catalog e), w\<lparr>v_conn := c\<rparr>)
   | (Inr x, c) \<Rightarrow> (Inr x, w\<lparr>v_conn := c\<rparr>))"

definition entry_at :: "vault_host \<Rightarrow> vault \<Rightarrow> string \<Rightarrow> lstat_answer" where
  "entry_at h w p = v_files w (vh_entry_of h (path_text p))"

text \<open>\<^verbatim>\<open>is_symlink\<close>, \<^verbatim>\<open>exists\<close> and \<^verbatim>\<open>is_file\<close> answer false when the entry cannot be read.\<close>

definition is_link_at :: "vault_host \<Rightarrow> vault \<Rightarrow> string \<Rightarrow> bool" where
  "is_link_at h w p = (case entry_at h w p of Found e \<Rightarrow> fe_symlink e | _ \<Rightarrow> False)"

definition exists_at :: "vault_host \<Rightarrow> vault \<Rightarrow> string \<Rightarrow> bool" where
  "exists_at h w p = (case entry_at h w p of Found e \<Rightarrow> fe_exists e | _ \<Rightarrow> False)"

definition is_file_at :: "vault_host \<Rightarrow> vault \<Rightarrow> string \<Rightarrow> bool" where
  "is_file_at h w p = (case entry_at h w p of Found e \<Rightarrow> fe_regular e | _ \<Rightarrow> False)"

definition file_identity :: "vault_host \<Rightarrow> string \<Rightarrow> (int \<times> int) option vact" where
  "file_identity h p w = (case entry_at h w p of
     Missing \<Rightarrow> (Inr None, w)
   | Denied \<Rightarrow> (Inl (Catalog (BackupCatalogError ''Unable to inspect backup file'')), w)
   | Found e \<Rightarrow> (Inr (Some (fe_identity e)), w))"

definition managed_backup_roots :: "vault_host \<Rightarrow> string list option" where
  "managed_backup_roots h = map_option (\<lambda>rs. rev (remdups (rev rs))) (those (map (vh_resolve h)
     ((case vh_configured_root h of None \<Rightarrow> [] | Some c \<Rightarrow> [c]) @ [vh_backups_dir h])))"

definition is_sdk_managed_backup_path :: "vault_host \<Rightarrow> vault \<Rightarrow> string \<Rightarrow> bool" where
  "is_sdk_managed_backup_path h w p =
     (if is_link_at h w p then False
      else if exists_at h w p \<and> \<not> is_file_at h w p then False
      else case (vh_resolve h (path_text p), managed_backup_roots h) of
        (Some resolved, Some roots) \<Rightarrow> list_ex (is_relative_to resolved) roots
      | _ \<Rightarrow> False)"

text \<open>\<^verbatim>\<open>path.unlink(missing_ok=True)\<close>.\<close>

definition unlink_file :: "vault_host \<Rightarrow> string \<Rightarrow> unit vact" where
  "unlink_file h p w = (let k = vh_entry_of h (path_text p) in case v_files w k of
     Missing \<Rightarrow> (Inr (), w)
   | Denied \<Rightarrow> (Inl (PyOSError ''Permission denied''), w)
   | Found _ \<Rightarrow> (case vh_unlink_error h k of
       Some m \<Rightarrow> (Inl (PyOSError m), w)
     | None \<Rightarrow> (Inr (), w\<lparr>v_files := (v_files w)(k := Missing)\<rparr>)))"

text \<open>\<^verbatim>\<open>with exclusive_lock(backup_lock_path(id)):\<close>\<close>

definition with_lock :: "vault_host \<Rightarrow> string \<Rightarrow> 'a vact \<Rightarrow> 'a vact" where
  "with_lock h backup_id m w = (let w1 = w\<lparr>v_locks := Suc (v_locks w)\<rparr> in
     case vh_lock h (v_locks w) backup_id of
       Busy \<Rightarrow> (Inl LockConflictError, w1)
     | Lock_failed msg \<Rightarrow> (Inl (PyOSError msg), w1)
     | Acquired \<Rightarrow> m w1)"

section \<open>Deletion\<close>

record deletion_result =
  dr_file_existed :: bool
  dr_already_deleted :: bool
  dr_deleted_at :: py_datetime

definition not_available :: "py_backup \<Rightarrow> string \<Rightarrow> vault_error" where
  "not_available b msg = Catalog (BackupNotAvailableError (''Backup '' @ uuid_text (bk_id b) @ msg))"

definition protection_blocks :: "vault_host \<Rightarrow> string \<Rightarrow> bool \<Rightarrow> string option cat" where
  "protection_blocks h backup_id allow_owned_cleanup =
     abind (deletion_protection_reason (vh_bracket_ok h) backup_id) (\<lambda>reason.
       if reason \<in> {Some ''referenced by a non-removed environment'', Some ''referenced by unresolved recovery''}
          \<and> allow_owned_cleanup
       then abind (is_owned_copy_backup backup_id) (\<lambda>owned. ret (if owned then None else reason))
       else ret reason)"

definition already_deleted :: "vault_host \<Rightarrow> backup_row \<Rightarrow> deletion_result vact" where
  "already_deleted h existing w = (let existed = is_file_at h w (or_empty (b_path existing)) in
     if or_empty (b_deleted_at existing) = [] then
       (Inr \<lparr>dr_file_existed = existed, dr_already_deleted = True, dr_deleted_at = vh_clock h (v_locks w)\<rparr>, w)
     else case decode_time (or_empty (b_deleted_at existing)) of
       Inl e \<Rightarrow> (Inl (Catalog e), w)
     | Inr t \<Rightarrow> (Inr \<lparr>dr_file_existed = existed, dr_already_deleted = True, dr_deleted_at = t\<rparr>, w))"

definition remove_file :: "vault_host \<Rightarrow> py_backup \<Rightarrow> string \<Rightarrow> (int \<times> int) option \<Rightarrow> deletion_result vact" where
  "remove_file h backup existing_path captured_identity =
     abind (file_identity h existing_path) (\<lambda>current.
     aseq (guard (current = captured_identity) (not_available backup '' file identity changed''))
     (abind (reads (\<lambda>w. is_file_at h w existing_path)) (\<lambda>regular.
     aseq (guard (current = None \<or> regular) (not_available backup '' path is not a regular file''))
     (aseq (unlink_file h existing_path)
     (abind (reads (\<lambda>w. exists_at h w existing_path \<or> is_link_at h w existing_path)) (\<lambda>left.
     aseq (guard (\<not> left) (PyOSError (''Backup file still exists after deletion: '' @ existing_path)))
     (abind (reads (\<lambda>w. vh_clock h (v_locks w))) (\<lambda>now.
     aseq (on_catalog (record_deletion (sqlite_datetime now) (uuid_text (bk_id backup))))
       (ret \<lparr>dr_file_existed = (current \<noteq> None), dr_already_deleted = False, dr_deleted_at = now\<rparr>)))))))))"

definition delete_impl_locked :: "vault_host \<Rightarrow> py_backup \<Rightarrow> string \<Rightarrow> (int \<times> int) option \<Rightarrow> bool
    \<Rightarrow> deletion_result vact" where
  "delete_impl_locked h backup captured_path captured_identity allow_owned_cleanup =
     (let i = uuid_text (bk_id backup) in
      abind (on_catalog (get_by_id i)) (\<lambda>row. case row of
        None \<Rightarrow> throw (Catalog (backup_not_found i))
      | Some existing \<Rightarrow>
        let existing_path = path_text (or_empty (b_path existing)) in
        if b_state existing = ''deleted'' then already_deleted h existing
        else aseq (guard (b_state existing \<noteq> ''downloading'')
            (not_available backup '' is downloading and cannot be deleted''))
        (aseq (guard (b_state existing = ''available'')
            (not_available backup ('' is in state '' @ py_repr (b_state existing) @ '', not available'')))
        (abind (on_catalog (protection_blocks h i allow_owned_cleanup)) (\<lambda>reason.
         aseq (guard (reason = None) (not_available backup ('' is protected: '' @ or_empty reason)))
        (aseq (on_catalog (verify_identity (vh_fs h) backup False))
        (aseq (guard (existing_path = path_text captured_path)
            (not_available backup '' path changed or is outside its recorded directory''))
        (abind (reads (\<lambda>w. is_link_at h w existing_path)) (\<lambda>link.
         aseq (guard (\<not> link) (not_available backup '' path must not be a symlink''))
        (abind (reads (\<lambda>w. is_sdk_managed_backup_path h w existing_path)) (\<lambda>managed.
         aseq (guard managed (not_available backup '' path changed or is outside its recorded directory''))
           (remove_file h backup existing_path captured_identity))))))))))))"

definition delete_impl :: "vault_host \<Rightarrow> py_backup \<Rightarrow> bool \<Rightarrow> deletion_result vact" where
  "delete_impl h backup allow_owned_cleanup =
     abind (file_identity h (bk_path backup)) (\<lambda>captured_identity.
       with_lock h (uuid_text (bk_id backup))
         (delete_impl_locked h backup (bk_path backup) captured_identity allow_owned_cleanup))"

section \<open>Calls that change nothing unless they return\<close>

interpretation pure: state_preorder "(=) :: 's \<Rightarrow> 's \<Rightarrow> bool"
  by unfold_locales auto

lemma pure_query: "obeys (=) (query_db f)"
  unfolding query_db_def by (rule pure.obeys_reads)

lemma pure_translate: "obeys (=) m \<Longrightarrow> obeys (=) (translate_sqlite_error m)"
  unfolding obeys_def translate_sqlite_error_def by (simp split: prod.split sum.split) (metis snd_conv)

lemmas pure_rules = pure.obeys_rules pure_query pure_translate obeys_if obeys_option

lemma pure_protection: "obeys (=) (deletion_protection_reason bracket_ok i)"
  unfolding deletion_protection_reason_def by (intro pure_rules)

lemma pure_catalog:
  "obeys (=) (get_by_id i)" "obeys (=) (protection_blocks h i allow)" "obeys (=) (verify_identity fs b False)"
  unfolding get_by_id_def protection_blocks_def is_owned_copy_backup_def verify_identity_def Let_def
  by (intro pure_rules pure_protection)+

lemma pure_on_catalog: "obeys (=) m \<Longrightarrow> obeys (=) (on_catalog m)"
  unfolding obeys_def on_catalog_def by (auto split: prod.splits sum.splits) (metis snd_conv vault.surjective vault.update_convs(1))+

lemma pure_file_identity: "obeys (=) (file_identity h p)"
  by (simp add: obeys_def file_identity_def split: lstat_answer.split)

lemma pure_run: "obeys (=) m \<Longrightarrow> m w = (r, w') \<Longrightarrow> w' = w"
  unfolding obeys_def by (metis snd_conv)

lemma on_catalog_Inr: "on_catalog m w = (Inr x, w') \<longleftrightarrow> (\<exists>c. m (v_conn w) = (Inr x, c) \<and> w' = w\<lparr>v_conn := c\<rparr>)"
  by (auto simp: on_catalog_def split: prod.splits sum.splits)

text \<open>A raise leaves the state alone, and a return meets the condition.\<close>

definition settles :: "('a \<Rightarrow> vault \<Rightarrow> bool) \<Rightarrow> 'a vact \<Rightarrow> vault \<Rightarrow> bool" where
  "settles P m w = (case m w of (Inl _, w') \<Rightarrow> w' = w | (Inr x, w') \<Rightarrow> P x w')"

lemma settlesD: "settles P m w \<Longrightarrow> m w = (r, w') \<Longrightarrow> (case r of Inl _ \<Rightarrow> w' = w | Inr x \<Rightarrow> P x w')"
  by (simp add: settles_def)

lemma settles_mono: "settles P m w \<Longrightarrow> (\<And>x w'. P x w' \<Longrightarrow> Q x w') \<Longrightarrow> settles Q m w"
  by (auto simp: settles_def split: prod.splits sum.splits)

lemma settles_throw: "settles P (throw e) w"
  by (simp add: settles_def throw_def)

lemma settles_ret: "P x w \<Longrightarrow> settles P (ret x) w"
  by (simp add: settles_def ret_def)

lemma settles_bind:
  assumes "obeys (=) m" "\<And>x. m w = (Inr x, w) \<Longrightarrow> settles P (f x) w"
  shows "settles P (abind m f) w"
proof -
  obtain r w' where m: "m w = (r, w')" by force
  with pure_run[OF assms(1)] have "w' = w" by blast
  with m assms(2) show ?thesis by (cases r) (auto simp: settles_def abind_def)
qed

lemma settles_seq: "obeys (=) m \<Longrightarrow> (\<And>x. m w = (Inr x, w) \<Longrightarrow> settles P n w) \<Longrightarrow> settles P (aseq m n) w"
  unfolding aseq_def by (rule settles_bind)

lemma settles_then_ret: "settles (\<lambda>_ w'. P y w') m w \<Longrightarrow> settles P (aseq m (ret y)) w"
  by (auto simp: settles_def aseq_def abind_def ret_def split: prod.splits sum.splits)

lemma settles_reads: "settles P (f (g w)) w \<Longrightarrow> settles P (abind (reads g) f) w"
  by (simp add: settles_def abind_def reads_def)

lemma settles_guard: "(b \<Longrightarrow> settles P m w) \<Longrightarrow> settles P (aseq (guard b e) m) w"
  by (simp add: settles_def aseq_def abind_def guard_def ret_def throw_def)

lemma settles_if: "(b \<Longrightarrow> settles P m w) \<Longrightarrow> (\<not> b \<Longrightarrow> settles P n w) \<Longrightarrow> settles P (if b then m else n) w"
  by simp

lemma settles_option:
  "(x = None \<Longrightarrow> settles P m w) \<Longrightarrow> (\<And>y. x = Some y \<Longrightarrow> settles P (f y) w) \<Longrightarrow>
     settles P (case x of None \<Rightarrow> m | Some y \<Rightarrow> f y) w"
  by (cases x) auto

section \<open>What a deletion does\<close>

definition deletion_event :: "string \<Rightarrow> string \<Rightarrow> catalog_db \<Rightarrow> backup_event_row" where
  "deletion_event now i d = \<lparr>be_sequence = next_sequence be_sequence (backup_events d), be_backup_id = i,
     be_event_type = ''deleted'', be_occurred_at = now, be_path = None, be_validator = None,
     be_exit_code = None, be_message = None\<rparr>"

definition mark_deleted :: "string \<Rightarrow> backup_row \<Rightarrow> backup_row" where
  "mark_deleted now b = b\<lparr>b_state := ''deleted'', b_deleted_at := Some now\<rparr>"

definition deleted_db :: "string \<Rightarrow> string \<Rightarrow> catalog_db \<Rightarrow> catalog_db" where
  "deleted_db now i d = d\<lparr>backups := update_rows (\<lambda>b. b_id b = i) (mark_deleted now) (backups d),
     backup_events := backup_events d @ [deletion_event now i d]\<rparr>"

lemma mark_deleted_sel [simp]:
  "b_id (mark_deleted now b) = b_id b" "b_project_id (mark_deleted now b) = b_project_id b"
  "b_state (mark_deleted now b) = ''deleted''"
  by (simp_all add: mark_deleted_def)

lemma deleted_db_ok:
  assumes "db_ok d" "i \<in> set (map b_id (backups d))"
  shows "db_ok (d\<lparr>backups := update_rows (\<lambda>b. b_id b = i) (mark_deleted now) (backups d)\<rparr>)" "db_ok (deleted_db now i d)"
proof -
  let ?d1 = "d\<lparr>backups := update_rows (\<lambda>b. b_id b = i) (mark_deleted now) (backups d)\<rparr>"
  show ok: "db_ok ?d1" using assms(1)
    by (intro db_ok_update_backups) (auto simp: backup_check_def mark_deleted_def)
  have "map b_id (backups ?d1) = map b_id (backups d)" by (simp add: map_update_rows)
  then have "db_ok (?d1\<lparr>backup_events := backup_events ?d1 @ [deletion_event now i d]\<rparr>)"
    using ok assms(2) by (intro db_ok_append_event) (auto simp: deletion_event_def backup_event_check_def simp del: set_map)
  then show "db_ok (deleted_db now i d)" by (simp add: deleted_db_def)
qed

lemma record_deletion_run:
  assumes "idle c" "i \<in> set (map b_id (backups (committed c)))"
  shows "record_deletion now i c = (Inr (), publish c (deleted_db now i (committed c)))"
proof -
  have w: "working c = committed c" by (rule idle_working[OF assms(1)])
  note ok = deleted_db_ok[OF idle_db_ok[OF assms(1)] assms(2), of now]
  have m: "mark_deleted now = (\<lambda>b. b\<lparr>b_state := ''deleted'', b_deleted_at := Some now\<rparr>)"
    by (rule ext) (simp add: mark_deleted_def)
  show ?thesis
    using ok[unfolded deleted_db_def deletion_event_def m] assms(1) w
    by (simp add: record_deletion_def translate_sqlite_error_def aseq_def abind_def update_backup_def dml_def
        add_event_def ret_def commit_def deleted_db_def deletion_event_def m publish_def idle_def)
qed

text \<open>The state after the file and the row of a backup are gone.\<close>

definition removed_vault :: "vault_host \<Rightarrow> string \<Rightarrow> string \<Rightarrow> string \<Rightarrow> vault \<Rightarrow> vault" where
  "removed_vault h now i p w = w\<lparr>v_files := (v_files w)(vh_entry_of h (path_text p) := Missing),
     v_conn := publish (v_conn w) (deleted_db now i (committed (v_conn w)))\<rparr>"

definition captured_file :: "vault_host \<Rightarrow> vault \<Rightarrow> string \<Rightarrow> (int \<times> int) option \<Rightarrow> bool" where
  "captured_file h w p identity = (case entry_at h w p of
     Missing \<Rightarrow> identity = None
   | Denied \<Rightarrow> False
   | Found e \<Rightarrow> identity = Some (fe_identity e) \<and> fe_regular e)"

lemma unlink_then_record:
  assumes "idle (v_conn w)" "i \<in> set (map b_id (backups (committed (v_conn w))))" "captured_file h w p identity"
    "vh_entry_of h (path_text p) = k"
  shows "settles (\<lambda>_ w'. w' = removed_vault h now i p w)
    (aseq (unlink_file h p) (on_catalog (record_deletion now i))) w"
proof (cases "v_files w k")
  case Missing
  then have "(v_files w)(k := Missing) = v_files w" by auto
  with Missing show ?thesis
    using assms record_deletion_run[OF assms(1,2)]
    by (simp add: settles_def aseq_def abind_def unlink_file_def Let_def on_catalog_def removed_vault_def)
next
  case Denied
  with assms show ?thesis by (simp add: captured_file_def entry_at_def)
next
  case (Found e)
  then show ?thesis
    using assms record_deletion_run[OF assms(1,2)]
    by (simp add: settles_def aseq_def abind_def unlink_file_def Let_def on_catalog_def removed_vault_def split: option.split)
qed

lemma remove_file_settles:
  assumes "idle (v_conn w)" "uuid_text (bk_id b) \<in> set (map b_id (backups (committed (v_conn w))))"
  shows "settles (\<lambda>x w'. x = \<lparr>dr_file_existed = (identity \<noteq> None), dr_already_deleted = False, dr_deleted_at = vh_clock h (v_locks w)\<rparr>
      \<and> captured_file h w p identity
      \<and> w' = removed_vault h (sqlite_datetime (vh_clock h (v_locks w))) (uuid_text (bk_id b)) p w)
    (remove_file h b p identity) w"
  unfolding remove_file_def
proof (intro settles_bind[OF pure_file_identity] settles_guard settles_reads, simp only:)
  assume f: "file_identity h p w = (Inr identity, w)" "identity = None \<or> is_file_at h w p"
  let ?k = "vh_entry_of h (path_text p)" and ?i = "uuid_text (bk_id b)" and ?now = "sqlite_datetime (vh_clock h (v_locks w))"
  have c: "captured_file h w p identity" using f
    by (auto simp: captured_file_def file_identity_def is_file_at_def split: lstat_answer.splits)
  from unlink_then_record[OF assms c refl, of ?now]
  have u: "settles (\<lambda>_ w'. w' = removed_vault h ?now ?i p w) (aseq (unlink_file h p) (on_catalog (record_deletion ?now ?i))) w" .
  show "settles (\<lambda>x w'. x = \<lparr>dr_file_existed = (identity \<noteq> None), dr_already_deleted = False, dr_deleted_at = vh_clock h (v_locks w)\<rparr>
      \<and> captured_file h w p identity \<and> w' = removed_vault h ?now ?i p w)
    (aseq (unlink_file h p) (abind (reads (\<lambda>w. exists_at h w p \<or> is_link_at h w p)) (\<lambda>left.
       aseq (guard (\<not> left) (PyOSError (''Backup file still exists after deletion: '' @ p)))
       (abind (reads (\<lambda>w. vh_clock h (v_locks w))) (\<lambda>now. aseq (on_catalog (record_deletion (sqlite_datetime now) ?i))
         (ret \<lparr>dr_file_existed = (identity \<noteq> None), dr_already_deleted = False, dr_deleted_at = now\<rparr>)))))) w"
    using u c by (auto simp: settles_def aseq_def abind_def unlink_file_def Let_def reads_def guard_def ret_def throw_def
        exists_at_def is_link_at_def entry_at_def captured_file_def
        split: lstat_answer.splits option.splits prod.splits sum.splits)
qed

section \<open>One deletion\<close>

text \<open>Everything that has to hold for a row and its file to be removed.\<close>

definition may_remove :: "vault_host \<Rightarrow> vault \<Rightarrow> string \<Rightarrow> string \<Rightarrow> (int \<times> int) option \<Rightarrow> bool \<Rightarrow> backup_row \<Rightarrow> bool" where
  "may_remove h w i path identity allow_owned_cleanup row \<longleftrightarrow> find_backup i (committed (v_conn w)) = Some row
     \<and> b_state row = ''available''
     \<and> (\<not> allow_owned_cleanup \<longrightarrow> protection_of (vh_bracket_ok h) (committed (v_conn w)) row = None)
     \<and> path_text (or_empty (b_path row)) = path_text path
     \<and> is_sdk_managed_backup_path h w path \<and> captured_file h w path identity"

lemma protection_reason_Inr:
  "deletion_protection_reason bracket_ok i c = (Inr reason, c') \<longleftrightarrow> c' = c \<and> canonical_uuid (lower i)
     \<and> (\<exists>b. find_backup (lower i) (working c) = Some b \<and> reason = protection_of bracket_ok (working c) b)"
  by (auto simp: deletion_protection_reason_def run_Inr canonical_backup_id_eq split: option.splits if_splits)

lemma protection_blocks_None:
  assumes "protection_blocks h i False c = (Inr None, c')"
  shows "deletion_protection_reason (vh_bracket_ok h) i c = (Inr None, c)"
  using assms pure_run[OF pure_protection] by (fastforce simp: protection_blocks_def run_Inr)

lemma lower_canonical: "canonical_uuid t \<Longrightarrow> lower t = t"
  unfolding lower_def
proof (rule map_idI)
  fix c
  assume "canonical_uuid t" "c \<in> set t"
  then have "c = CHR ''-'' \<or> lower_char c = c" by (auto simp: canonical_uuid_def hex_text_def list_all_iff)
  then show "lower_char c = c" by (auto simp: lower_char_dash)
qed

lemma lower_uuid_text [simp]: "lower (uuid_text u) = uuid_text u"
proof -
  have c: "lower_char (hex_char k) = hex_char k" if "k < 16" for k
    using hex_pad_text[of k 1] that by (simp add: hex_text_def)
  have "lower (hex_pad w n) = hex_pad w n" for w n
    by (induction w n rule: hex_pad.induct) (simp_all add: lower_def c)
  moreover have "lower (dash_uuid t) = dash_uuid (lower t)" for t
    using lower_char_dash[of "CHR ''-''"] by (simp add: dash_uuid_def lower_def take_map drop_map)
  ultimately show ?thesis by (simp add: uuid_text_def)
qed

lemma at_path_text [simp]:
  "entry_at h w (path_text p) = entry_at h w p" "is_link_at h w (path_text p) = is_link_at h w p"
  "is_file_at h w (path_text p) = is_file_at h w p" "exists_at h w (path_text p) = exists_at h w p"
  "is_sdk_managed_backup_path h w (path_text p) = is_sdk_managed_backup_path h w p"
  "captured_file h w (path_text p) identity = captured_file h w p identity"
  "removed_vault h now i (path_text p) w = removed_vault h now i p w"
  by (simp_all add: entry_at_def is_link_at_def is_file_at_def exists_at_def is_sdk_managed_backup_path_def
      captured_file_def removed_vault_def)

lemma at_same_path:
  assumes "path_text p = path_text q"
  shows "is_sdk_managed_backup_path h w p = is_sdk_managed_backup_path h w q"
    "captured_file h w p identity = captured_file h w q identity" "removed_vault h now i p w = removed_vault h now i q w"
  using assms by (metis at_path_text(5-7))+

text \<open>What a locked deletion has done when it returns.\<close>

definition deletion_done :: "vault_host \<Rightarrow> vault \<Rightarrow> string \<Rightarrow> string \<Rightarrow> (int \<times> int) option \<Rightarrow> bool \<Rightarrow> deletion_result \<Rightarrow> vault \<Rightarrow> bool" where
  "deletion_done h w i path identity allow_owned_cleanup x w' \<longleftrightarrow>
     (if dr_already_deleted x then w' = w \<and> (\<exists>row. find_backup i (committed (v_conn w)) = Some row \<and> b_state row = ''deleted'')
      else dr_file_existed x = (identity \<noteq> None) \<and> (\<exists>row. may_remove h w i path identity allow_owned_cleanup row)
        \<and> w' = removed_vault h (sqlite_datetime (vh_clock h (v_locks w))) i path w)"

lemma delete_impl_locked_settles:
  assumes "idle (v_conn w)"
  shows "settles (deletion_done h w (uuid_text (bk_id b)) path identity allow) (delete_impl_locked h b path identity allow) w"
  unfolding delete_impl_locked_def Let_def
proof (intro settles_bind[OF pure_on_catalog[OF pure_catalog(1)]] settles_bind[OF pure_on_catalog[OF pure_catalog(2)]]
    settles_seq[OF pure_on_catalog[OF pure_catalog(3)]] settles_guard settles_reads settles_option settles_if settles_throw)
  fix found row
  assume "on_catalog (get_by_id (uuid_text (bk_id b))) w = (Inr found, w)" "found = Some row" "b_state row = ''deleted''"
  then have "find_backup (uuid_text (bk_id b)) (committed (v_conn w)) = Some row" "b_state row = ''deleted''"
    using idle_working[OF assms] by (auto simp: on_catalog_Inr get_by_id_def query_Inr)
  then show "settles (deletion_done h w (uuid_text (bk_id b)) path identity allow) (already_deleted h row) w"
    by (auto simp: settles_def already_deleted_def deletion_done_def Let_def split: sum.splits)
next
  fix found row reason
  assume a: "on_catalog (get_by_id (uuid_text (bk_id b))) w = (Inr found, w)" "found = Some row" "b_state row = ''available''"
    "on_catalog (protection_blocks h (uuid_text (bk_id b)) allow) w = (Inr reason, w)" "reason = None"
    "path_text (or_empty (b_path row)) = path_text path" "is_sdk_managed_backup_path h w (path_text (or_empty (b_path row)))"
  have "working (v_conn w) = committed (v_conn w)" by (rule idle_working[OF assms])
  then have r: "find_backup (uuid_text (bk_id b)) (committed (v_conn w)) = Some row"
    using a(1,2) by (auto simp: on_catalog_Inr get_by_id_def query_Inr)
  have p: "protection_of (vh_bracket_ok h) (committed (v_conn w)) row = None" if "\<not> allow"
  proof -
    from a(4,5) that obtain c where "protection_blocks h (uuid_text (bk_id b)) False (v_conn w) = (Inr None, c)"
      by (auto simp: on_catalog_Inr)
    note q = protection_blocks_None[OF this, unfolded protection_reason_Inr]
    with r \<open>working (v_conn w) = committed (v_conn w)\<close> show ?thesis by simp
  qed
  have "uuid_text (bk_id b) \<in> set (map b_id (backups (committed (v_conn w))))"
    using find_backup_Some[OF r] by (auto intro: rev_image_eqI)
  note removed = remove_file_settles[OF assms this, of identity h "path_text (or_empty (b_path row))"]
  have "may_remove h w (uuid_text (bk_id b)) path identity allow row" if "captured_file h w path identity"
    using that r p a(3,6,7) by (auto simp: may_remove_def at_same_path[OF a(6)])
  with removed show "settles (deletion_done h w (uuid_text (bk_id b)) path identity allow)
      (remove_file h b (path_text (or_empty (b_path row))) identity) w"
    by (elim settles_mono) (auto simp: deletion_done_def at_same_path[OF a(6)])
qed

section \<open>A deletion does not change what protects the other backups\<close>

lemma filter_deleted:
  assumes "\<And>c. Q c \<Longrightarrow> b_state c = ''available''"
  shows "filter Q (update_rows (\<lambda>b. b_id b = i) (mark_deleted now) rows) = filter (\<lambda>c. b_id c \<noteq> i) (filter Q rows)"
proof -
  have "\<not> Q (mark_deleted now c)" for c using assms[of "mark_deleted now c"] by auto
  then show ?thesis by (induction rows) (auto simp: update_rows_def)
qed

lemma same_group_filter:
  "same_group bracket_ok g (filter (\<lambda>c. b_id c \<noteq> i) rows) = filter (\<lambda>x. b_id (fst x) \<noteq> i) (same_group bracket_ok g rows)"
  by (induction rows) (auto simp: same_group_def List.map_filter_simps split: option.splits)

lemma newest_filter:
  assumes "newest xs = Some m" "b_id (fst m) \<noteq> i"
    "\<And>x y. x \<in> set xs \<Longrightarrow> y \<in> set xs \<Longrightarrow> b_id (fst x) = b_id (fst y) \<Longrightarrow> x = y"
  shows "newest (filter (\<lambda>x. b_id (fst x) \<noteq> i) xs) = Some m"
proof -
  note m = newest_spec[OF assms(1)]
  then have "m \<in> set (filter (\<lambda>x. b_id (fst x) \<noteq> i) xs)" using assms(2) by simp
  then have "filter (\<lambda>x. b_id (fst x) \<noteq> i) xs \<noteq> []" by (metis empty_iff list.set(1))
  then obtain m' where m': "newest (filter (\<lambda>x. b_id (fst x) \<noteq> i) xs) = Some m'" using newest_None by blast
  note n = newest_spec[OF m']
  have "newest_key m = newest_key m'" using m n assms(2) by (cases m) (auto intro!: order.antisym)
  then have "m' = m" using assms(3)[of m' m] m n by (simp add: newest_key_def)
  with m' show ?thesis by simp
qed

lemma backup_unique: "db_ok d \<Longrightarrow> b \<in> set (backups d) \<Longrightarrow> c \<in> set (backups d) \<Longrightarrow> b_id b = b_id c \<Longrightarrow> b = c"
  by (auto simp: db_ok_def backups_ok_def unique_on_def distinct_map inj_on_def)

lemma protection_deleted:
  assumes "db_ok d" "x \<in> set (backups d)" "b_id x = i" "protection_of bracket_ok d x = None" "b_id b \<noteq> i"
  shows "protection_of bracket_ok (deleted_db now i d) b = protection_of bracket_ok d b"
proof -
  let ?xs = "\<lambda>p g. same_group bracket_ok g (filter (\<lambda>c. b_project_id c = Some p \<and> b_state c = ''available'') (backups d))"
  have kept: "newest (filter (\<lambda>x. b_id (fst x) \<noteq> i) (?xs p g)) = newest (?xs p g)" for p g
  proof (cases "newest (?xs p g)")
    case None
    then show ?thesis by (simp add: newest_None)
  next
    case (Some m)
    have "b_id (fst m) \<noteq> i"
    proof
      assume "b_id (fst m) = i"
      then have "fst m = x" using newest_spec[OF Some] backup_unique[OF assms(1) _ assms(2)] assms(3)
        by (cases m) (auto simp: same_group_set)
      then have "b_project_id x = Some p" "retention_group bracket_ok x = Some g" "retention_timestamp x \<noteq> None"
        using newest_spec[OF Some] by (cases m; auto simp: same_group_set)+
      with Some \<open>fst m = x\<close> show False using assms(4) by (cases m) (auto simp: protection_of_def split: if_splits)
    qed
    then show ?thesis unfolding Some
    proof (rule newest_filter[OF Some])
      fix y z
      assume y: "y \<in> set (?xs p g)" "z \<in> set (?xs p g)" "b_id (fst y) = b_id (fst z)"
      obtain a s c t where yz: "y = (a, s)" "z = (c, t)" by (metis surj_pair)
      with y have "a = c" "retention_timestamp a = Some s" "retention_timestamp c = Some t"
        using backup_unique[OF assms(1), of a c] by (simp_all add: same_group_set)
      with yz show "y = z" by simp
    qed
  qed
  have "filter (\<lambda>c. b_project_id c = Some p \<and> b_state c = ''available'') (backups (deleted_db now i d)) =
      filter (\<lambda>c. b_id c \<noteq> i) (filter (\<lambda>c. b_project_id c = Some p \<and> b_state c = ''available'') (backups d))" for p
    unfolding deleted_db_def by (simp del: filter_filter) (rule filter_deleted, simp)
  then have e: "newest (same_group bracket_ok g (filter (\<lambda>c. b_project_id c = Some p \<and> b_state c = ''available'')
      (backups (deleted_db now i d)))) = newest (?xs p g)" for p g
    by (simp only: same_group_filter kept)
  have "environments (deleted_db now i d) = environments d" "copy_journal (deleted_db now i d) = copy_journal d"
    by (simp_all add: deleted_db_def)
  then show ?thesis unfolding protection_of_def e by (simp only:)
qed

end
