(* ===== verification/Backup_Prune.thy ===== *)
theory Backup_Prune
  imports Backup_Deletion "HOL-Library.Multiset"
begin

text \<open>
  Backup retention: \<^verbatim>\<open>internal/backup_retention.py\<close>, and \<^verbatim>\<open>_build_prune_plan\<close> and \<^verbatim>\<open>_execute_prune_plan\<close> of
  \<^verbatim>\<open>resources/backup.py\<close>.

  A plan names the backups older than the policy allows. Its execution takes each candidate's lock,
  reads the policy, the row and the file again, and deletes the backup only if nothing has changed.
  The text of the policy file is parsed by \<^verbatim>\<open>tomllib\<close>; a TOML document is a dictionary of \<^typ>\<open>json\<close> values.
\<close>

section \<open>The policy\<close>

record retention_policy =
  pol_days :: int
  pol_auto_prune :: bool
  pol_path :: string

definition validate_days :: "json \<Rightarrow> (vault_error, int) result" where
  "validate_days v = (case v of JInt n \<Rightarrow> if n \<le> 0 then Inl (ConfigError ''backup.retention_days must be a positive integer'') else Inr n
     | _ \<Rightarrow> Inl (ConfigError ''backup.retention_days must be a positive integer''))"

definition validate_auto_prune :: "json \<Rightarrow> (vault_error, bool) result" where
  "validate_auto_prune v = (case v of JBool b \<Rightarrow> Inr b | _ \<Rightarrow> Inl (ConfigError ''backup.auto_prune must be a boolean''))"

definition parse_policy :: "string \<Rightarrow> policy_file \<Rightarrow> (vault_error, retention_policy) result" where
  "parse_policy destination f = (case f of
     No_file \<Rightarrow> Inr \<lparr>pol_days = 14, pol_auto_prune = False, pol_path = destination\<rparr>
   | Unreadable \<Rightarrow> Inl (ConfigError (''unable to read backup retention settings: '' @ destination))
   | Toml data \<Rightarrow> (case (case map_of data ''backup'' of None \<Rightarrow> JObj [] | Some v \<Rightarrow> v) of
       JObj section \<Rightarrow>
         rbind (case map_of section ''retention_days'' of None \<Rightarrow> Inr 14 | Some v \<Rightarrow> validate_days v) (\<lambda>days.
         rbind (case map_of section ''auto_prune'' of None \<Rightarrow> Inr False | Some v \<Rightarrow> validate_auto_prune v) (\<lambda>auto_prune.
           Inr \<lparr>pol_days = days, pol_auto_prune = auto_prune, pol_path = destination\<rparr>))
     | _ \<Rightarrow> Inl (ConfigError ''backup settings must be a TOML table'')))"

definition read_retention_policy :: "vault_host \<Rightarrow> retention_policy vact" where
  "read_retention_policy h w = (parse_policy (vh_policy_path h) (vh_policy h (v_policy_reads w)),
     w\<lparr>v_policy_reads := Suc (v_policy_reads w)\<rparr>)"

definition policy_fingerprint :: "vault_host \<Rightarrow> retention_policy \<Rightarrow> string" where
  "policy_fingerprint h p = sha256_hex (vh_fs h) (dumps (\<lambda>_. [])
     (JObj [(''auto_prune'', JBool (pol_auto_prune p)), (''retention_days'', JInt (pol_days p))]))"

section \<open>The plan\<close>

record prune_skip =
  ps_id :: nat
  ps_reason :: string
  ps_size :: int

record prune_candidate =
  pc_id :: nat
  pc_path :: string
  pc_identity :: "int \<times> int"
  pc_size :: int

record prune_plan =
  pp_project_id :: string
  pp_policy :: retention_policy
  pp_fingerprint :: string
  pp_cutoff :: int
  pp_candidates :: "prune_candidate list"
  pp_protected :: "prune_skip list"
  pp_skipped :: "prune_skip list"

datatype verdict = Candidate prune_candidate | Protect prune_skip | Leave prune_skip

abbreviation (input) skip_of :: "nat \<Rightarrow> string \<Rightarrow> int \<Rightarrow> prune_skip" where
  "skip_of i reason n \<equiv> \<lparr>ps_id = i, ps_reason = reason, ps_size = n\<rparr>"

text \<open>The lock is only tried: \<^verbatim>\<open>with exclusive_lock(...): pass\<close>.\<close>

definition probe_lock :: "vault_host \<Rightarrow> nat \<Rightarrow> bool vact" where
  "probe_lock h i w = (case with_lock h (uuid_text i) (ret ()) w of
     (Inl LockConflictError, w') \<Rightarrow> (Inr False, w')
   | (Inl e, w') \<Rightarrow> (Inl e, w')
   | (Inr _, w') \<Rightarrow> (Inr True, w'))"

definition retention_verdict :: "vault_host \<Rightarrow> int \<Rightarrow> retention_record \<Rightarrow> verdict vact" where
  "retention_verdict h cutoff r = (let i = rr_backup_id r; recorded = rr_recorded_size r in
     if rr_state r \<noteq> Some ''available'' then ret (Leave (skip_of i ''not available'' 0))
     else case rr_timestamp r of None \<Rightarrow> ret (Leave (skip_of i ''unknown catalogue timestamp'' recorded))
     | Some timestamp \<Rightarrow>
       if timestamp \<ge> cutoff then ret (Leave (skip_of i ''younger than retention cutoff'' recorded))
       else if rr_source_group r = None then ret (Leave (skip_of i ''unknown historical source group'' recorded))
       else case rr_path r of None \<Rightarrow> ret (Leave (skip_of i ''unknown backup path'' recorded))
       | Some path \<Rightarrow>
         abind (reads (\<lambda>w. (entry_at h w path, is_sdk_managed_backup_path h w path))) (\<lambda>(answer, managed).
           case answer of Missing \<Rightarrow> ret (Leave (skip_of i ''missing or unreadable backup file'' recorded))
           | Denied \<Rightarrow> ret (Leave (skip_of i ''missing or unreadable backup file'' recorded))
           | Found e \<Rightarrow>
             if \<not> managed then ret (Leave (skip_of i ''external or non-regular backup file'' recorded))
             else case rr_protection_reason r of
               Some reason \<Rightarrow> ret (Protect (skip_of i reason (fe_lstat_size e)))
             | None \<Rightarrow> abind (probe_lock h i) (\<lambda>free.
                 if free then ret (Candidate \<lparr>pc_id = i, pc_path = path_text path, pc_identity = fe_identity e,
                   pc_size = fe_lstat_size e\<rparr>)
                 else ret (Protect (skip_of i ''busy lifecycle lock'' (fe_lstat_size e))))))"

fun retention_verdicts :: "vault_host \<Rightarrow> int \<Rightarrow> retention_record list \<Rightarrow> verdict list vact" where
  "retention_verdicts h cutoff [] = ret []"
| "retention_verdicts h cutoff (r # rs) = abind (retention_verdict h cutoff r) (\<lambda>v.
     abind (retention_verdicts h cutoff rs) (\<lambda>vs. ret (v # vs)))"

text \<open>\<^verbatim>\<open>now - timedelta(days=days)\<close>: both the difference of days and the date are limited.\<close>

definition prune_cutoff :: "py_datetime \<Rightarrow> int \<Rightarrow> (vault_error, int) result" where
  "prune_cutoff now days = (let t = utc_us now - days * day_us in
     if days > 999999999 \<or> t < day_us then Inl PyOverflowError else Inr t)"

definition candidates_of :: "verdict list \<Rightarrow> prune_candidate list" where
  "candidates_of vs = List.map_filter (\<lambda>v. case v of Candidate c \<Rightarrow> Some c | _ \<Rightarrow> None) vs"

definition protected_of :: "verdict list \<Rightarrow> prune_skip list" where
  "protected_of vs = List.map_filter (\<lambda>v. case v of Protect s \<Rightarrow> Some s | _ \<Rightarrow> None) vs"

definition left_of :: "verdict list \<Rightarrow> prune_skip list" where
  "left_of vs = List.map_filter (\<lambda>v. case v of Leave s \<Rightarrow> Some s | _ \<Rightarrow> None) vs"

definition build_prune_plan :: "vault_host \<Rightarrow> string \<Rightarrow> retention_policy \<Rightarrow> py_datetime option \<Rightarrow> prune_plan vact" where
  "build_prune_plan h project_id policy now =
     abind (reads (\<lambda>w. case now of Some t \<Rightarrow> t | None \<Rightarrow> vh_clock h (v_locks w))) (\<lambda>current.
     abind (lift_result (prune_cutoff current (pol_days policy))) (\<lambda>cutoff.
     abind (on_catalog (retention_snapshot (vh_fs h) (vh_bracket_ok h) project_id)) (\<lambda>records.
     abind (retention_verdicts h cutoff records) (\<lambda>vs.
       ret \<lparr>pp_project_id = project_id, pp_policy = policy, pp_fingerprint = policy_fingerprint h policy,
         pp_cutoff = cutoff, pp_candidates = candidates_of vs, pp_protected = protected_of vs, pp_skipped = left_of vs\<rparr>))))"

section \<open>The execution\<close>

datatype attempt = Pruned int | Skipped prune_skip | Failed prune_skip | Stopped

record prune_progress =
  pg_deleted :: "nat list"
  pg_skipped :: "prune_skip list"
  pg_failed :: "nat list"
  pg_failures :: "prune_skip list"
  pg_removed_bytes :: int
  pg_policy_changed :: bool

record prune_outcome =
  po_plan :: prune_plan
  po_deleted_ids :: "nat list"
  po_skipped_ids :: "nat list"
  po_failed_ids :: "nat list"
  po_removed_bytes :: int
  po_skipped :: "prune_skip list"
  po_failures :: "prune_skip list"
  po_dry_run :: bool
  po_policy_changed :: bool
  po_warnings :: "string list"

fun str_error :: "vault_error \<Rightarrow> string" where
  "str_error (Catalog (BackupCatalogError m)) = m"
| "str_error (Catalog (BackupNotFoundError m)) = m"
| "str_error (Catalog (BackupNotAvailableError m)) = m"
| "str_error (Catalog (PyTypeError m)) = m"
| "str_error (Catalog (PyValueError m)) = m"
| "str_error (Catalog PyAssertionError) = []"
| "str_error (Catalog (SqliteError s)) = sqlite_message s"
| "str_error LockConflictError = ''lock is held by another process''"
| "str_error (StalePlanError expected actual) = ''backup retention policy changed; replan before pruning''"
| "str_error (ConfigError m) = m"
| "str_error (PyOSError m) = m"
| "str_error PyOverflowError = ''date value out of range''"

definition stat_size :: "vault_host \<Rightarrow> string \<Rightarrow> int vact" where
  "stat_size h p w = (case entry_at h w p of
     Found e \<Rightarrow> (case fe_stat_size e of Some n \<Rightarrow> (Inr n, w) | None \<Rightarrow> (Inl (PyOSError ''No such file or directory''), w))
   | _ \<Rightarrow> (Inl (PyOSError ''No such file or directory''), w))"

definition content_matches :: "vault_host \<Rightarrow> vault \<Rightarrow> string \<Rightarrow> int \<Rightarrow> py_backup \<Rightarrow> bool" where
  "content_matches h w p actual_size b \<longleftrightarrow> actual_size = bk_size_bytes b \<and> (bk_sha256 b = [] \<or>
     (case entry_at h w p of Found e \<Rightarrow> fe_sha256 e = Some (bk_sha256 b) | _ \<Rightarrow> False))"

definition prune_record :: "vault_host \<Rightarrow> prune_candidate \<Rightarrow> retention_record \<Rightarrow> attempt vact" where
  "prune_record h c r =
     (if rr_state r \<noteq> Some ''available'' then ret (Skipped (skip_of (pc_id c) ''backup is no longer available'' 0))
      else case rr_protection_reason r of Some reason \<Rightarrow> ret (Skipped (skip_of (pc_id c) reason (pc_size c)))
      | None \<Rightarrow> (case rr_path r of None \<Rightarrow> ret (Skipped (skip_of (pc_id c) ''unknown backup path'' (pc_size c)))
        | Some path \<Rightarrow>
          abind (file_identity h path) (\<lambda>current.
          abind (reads (\<lambda>w. is_sdk_managed_backup_path h w path)) (\<lambda>managed.
          if path_text path \<noteq> path_text (pc_path c) \<or> current \<noteq> Some (pc_identity c) \<or> \<not> managed
          then ret (Skipped (skip_of (pc_id c) ''file identity changed'' (pc_size c)))
          else abind (stat_size h path) (\<lambda>actual_size.
            case rr_backup r of None \<Rightarrow> ret (Skipped (skip_of (pc_id c) ''backup metadata is incomplete'' 0))
            | Some backup \<Rightarrow> abind (reads (\<lambda>w. content_matches h w path actual_size backup)) (\<lambda>same.
                if \<not> same then ret (Skipped (skip_of (pc_id c) ''file content changed'' (pc_size c)))
                else aseq (delete_impl_locked h backup path current False) (ret (Pruned actual_size))))))))"

text \<open>The policy has to be the plan's: before the first deletion a change aborts, after it the loop stops.\<close>

definition check_policy :: "vault_host \<Rightarrow> prune_plan \<Rightarrow> bool \<Rightarrow> bool vact" where
  "check_policy h plan any_deleted = abind (read_retention_policy h) (\<lambda>current.
     if policy_fingerprint h current = pp_fingerprint plan then ret True
     else if any_deleted then ret False
     else throw (StalePlanError (pp_fingerprint plan) (policy_fingerprint h current)))"

definition prune_locked :: "vault_host \<Rightarrow> prune_plan \<Rightarrow> bool \<Rightarrow> prune_candidate \<Rightarrow> attempt vact" where
  "prune_locked h plan any_deleted c = abind (check_policy h plan any_deleted) (\<lambda>same.
     if \<not> same then ret Stopped
     else abind (on_catalog (retention_revalidate (vh_fs h) (vh_bracket_ok h) (uuid_text (pc_id c)))) (\<lambda>found.
       case found of None \<Rightarrow> ret (Skipped (skip_of (pc_id c) ''catalog row disappeared'' 0))
       | Some r \<Rightarrow> prune_record h c r))"

definition prune_attempt :: "vault_host \<Rightarrow> prune_plan \<Rightarrow> bool \<Rightarrow> prune_candidate \<Rightarrow> attempt vact" where
  "prune_attempt h plan any_deleted c w = (case with_lock h (uuid_text (pc_id c)) (prune_locked h plan any_deleted c) w of
     (Inr x, w') \<Rightarrow> (Inr x, w')
   | (Inl e, w') \<Rightarrow> (case e of
       LockConflictError \<Rightarrow> (Inr (Skipped (skip_of (pc_id c) ''busy lifecycle lock'' (pc_size c))), w')
     | Catalog (BackupNotAvailableError m) \<Rightarrow> (Inr (Skipped (skip_of (pc_id c) m (pc_size c))), w')
     | Catalog (BackupNotFoundError m) \<Rightarrow> (Inr (Skipped (skip_of (pc_id c) m (pc_size c))), w')
     | StalePlanError _ _ \<Rightarrow> (Inl e, w')
     | _ \<Rightarrow> (Inr (Failed (skip_of (pc_id c) (str_error e) (pc_size c))), w')))"

fun prune_loop :: "vault_host \<Rightarrow> prune_plan \<Rightarrow> prune_candidate list \<Rightarrow> prune_progress \<Rightarrow> prune_progress vact" where
  "prune_loop h plan [] g = ret g"
| "prune_loop h plan (c # cs) g = abind (check_policy h plan (pg_deleted g \<noteq> [])) (\<lambda>same.
     if \<not> same then ret (g\<lparr>pg_policy_changed := True\<rparr>)
     else abind (prune_attempt h plan (pg_deleted g \<noteq> []) c) (\<lambda>x. case x of
       Pruned n \<Rightarrow> prune_loop h plan cs (g\<lparr>pg_deleted := pg_deleted g @ [pc_id c], pg_removed_bytes := pg_removed_bytes g + n\<rparr>)
     | Skipped s \<Rightarrow> prune_loop h plan cs (g\<lparr>pg_skipped := pg_skipped g @ [s]\<rparr>)
     | Failed s \<Rightarrow> prune_loop h plan cs (g\<lparr>pg_failed := pg_failed g @ [pc_id c], pg_failures := pg_failures g @ [s]\<rparr>)
     | Stopped \<Rightarrow> ret (g\<lparr>pg_policy_changed := True\<rparr>)))"

definition execute_prune_plan :: "vault_host \<Rightarrow> prune_plan \<Rightarrow> bool \<Rightarrow> nat list \<Rightarrow> prune_outcome vact" where
  "execute_prune_plan h plan dry_run excluded =
     (let excluded_skips = map (\<lambda>c. skip_of (pc_id c) ''primary operation backup input/output'' (pc_size c))
            (filter (\<lambda>c. pc_id c \<in> set excluded) (pp_candidates plan));
          skips = pp_protected plan @ pp_skipped plan @ excluded_skips in
      if dry_run then ret \<lparr>po_plan = plan, po_deleted_ids = [], po_skipped_ids = [], po_failed_ids = [], po_removed_bytes = 0,
        po_skipped = skips, po_failures = [], po_dry_run = True, po_policy_changed = False, po_warnings = []\<rparr>
      else abind (prune_loop h plan (filter (\<lambda>c. pc_id c \<notin> set excluded) (pp_candidates plan))
          \<lparr>pg_deleted = [], pg_skipped = skips, pg_failed = [], pg_failures = [], pg_removed_bytes = 0, pg_policy_changed = False\<rparr>)
        (\<lambda>g. ret \<lparr>po_plan = plan, po_deleted_ids = pg_deleted g, po_skipped_ids = map ps_id (pg_skipped g),
          po_failed_ids = pg_failed g, po_removed_bytes = pg_removed_bytes g, po_skipped = pg_skipped g,
          po_failures = pg_failures g, po_dry_run = False, po_policy_changed = pg_policy_changed g,
          po_warnings = (if pg_policy_changed g then [''backup retention policy changed; replan before pruning''] else [])\<rparr>))"

section \<open>One candidate\<close>

text \<open>What has to hold of a candidate for its file and row to be removed.\<close>

definition prunable :: "vault_host \<Rightarrow> vault \<Rightarrow> prune_candidate \<Rightarrow> bool" where
  "prunable h w c \<longleftrightarrow> (\<exists>row e. find_backup (uuid_text (pc_id c)) (committed (v_conn w)) = Some row
     \<and> b_state row = ''available'' \<and> protection_of (vh_bracket_ok h) (committed (v_conn w)) row = None
     \<and> path_text (or_empty (b_path row)) = path_text (pc_path c) \<and> is_sdk_managed_backup_path h w (pc_path c)
     \<and> entry_at h w (pc_path c) = Found e \<and> fe_identity e = pc_identity c \<and> fe_regular e
     \<and> fe_stat_size e = Some (case b_size_bytes row of None \<Rightarrow> 0 | Some n \<Rightarrow> n)
     \<and> (or_empty (b_sha256 row) = [] \<or> fe_sha256 e = b_sha256 row))"

definition file_bytes :: "vault_host \<Rightarrow> vault \<Rightarrow> prune_candidate \<Rightarrow> int" where
  "file_bytes h w c = (case entry_at h w (pc_path c) of Found e \<Rightarrow> (case fe_stat_size e of Some n \<Rightarrow> n | None \<Rightarrow> 0) | _ \<Rightarrow> 0)"

lemma pure_stat: "obeys (=) (stat_size h p)"
  by (simp add: obeys_def stat_size_def split: lstat_answer.split option.split)

lemma pure_revalidate: "obeys (=) (retention_revalidate fs bracket_ok i)"
  unfolding retention_revalidate_def by (intro pure_rules pure_protection)

lemma row_to_backup_Inr:
  "row_to_backup fs False b = Inr decoded \<Longrightarrow> \<exists>k. decoded = Some k \<and> uuid_of_text (b_id b) = Some (bk_id k)
     \<and> bk_size_bytes k = (case b_size_bytes b of None \<Rightarrow> 0 | Some n \<Rightarrow> n) \<and> bk_sha256 k = or_empty (b_sha256 b)"
  by (auto simp: row_to_backup_def decode_uuid_def split: option.splits)

lemma revalidate_Inr:
  assumes "retention_revalidate fs bracket_ok (uuid_text i) c = (Inr (Some r), c')"
  obtains row k where "find_backup (uuid_text i) (working c) = Some row" "rr_protection_reason r = protection_of bracket_ok (working c) row"
    "rr_state r = Some ''available'' \<longleftrightarrow> b_state row = ''available''" "\<forall>p. rr_path r = Some p \<longrightarrow> p = or_empty (b_path row)"
    "rr_backup r = Some k" "uuid_text (bk_id k) = uuid_text i"
    "bk_size_bytes k = (case b_size_bytes row of None \<Rightarrow> 0 | Some n \<Rightarrow> n)" "bk_sha256 k = or_empty (b_sha256 row)"
proof -
  have c: "canonical_backup_id (uuid_text i) = Inr (uuid_text i)"
    using assms by (auto simp: retention_revalidate_def run_Inr canonical_backup_id_eq split: if_splits)
  then obtain u where u: "uuid_of_text (uuid_text i) = Some u" "uuid_text u = uuid_text i"
    by (auto simp: canonical_backup_id_def split: option.splits if_splits)
  from assms c obtain row reason where x: "find_backup (uuid_text i) (working c) = Some row"
    "deletion_protection_reason bracket_ok (uuid_text i) c = (Inr reason, c)" "retention_record_of fs bracket_ok row reason = Inr r"
    using pure_run[OF pure_protection] by (fastforce simp: retention_revalidate_def run_Inr split: option.splits)
  from x(3) obtain decoded where d: "row_to_backup fs False row = Inr decoded"
    and r: "rr_backup r = decoded" "rr_protection_reason r = reason"
      "rr_state r = Some ''available'' \<longleftrightarrow> b_state row = ''available''" "\<forall>p. rr_path r = Some p \<longrightarrow> p = or_empty (b_path row)"
    by (auto simp: retention_record_of_def or_empty_def split: option.splits)
  from row_to_backup_Inr[OF d] obtain k where k: "decoded = Some k" "uuid_of_text (b_id row) = Some (bk_id k)"
    "bk_size_bytes k = (case b_size_bytes row of None \<Rightarrow> 0 | Some n \<Rightarrow> n)" "bk_sha256 k = or_empty (b_sha256 row)" by metis
  have "uuid_text (bk_id k) = uuid_text i" using k(2) u find_backup_Some[OF x(1)] by simp
  moreover have "reason = protection_of bracket_ok (working c) row" using x(1,2) by (simp add: protection_reason_Inr)
  ultimately show thesis using that x(1) r k by blast
qed

lemma captured_identity: "file_identity h p w = (Inr current, w') \<longleftrightarrow> w' = w \<and> (case entry_at h w p of
    Missing \<Rightarrow> current = None | Denied \<Rightarrow> False | Found e \<Rightarrow> current = Some (fe_identity e))"
  by (auto simp: file_identity_def split: lstat_answer.splits)

lemma stat_size_Inr: "stat_size h p w = (Inr n, w') \<longleftrightarrow> w' = w \<and> (\<exists>e. entry_at h w p = Found e \<and> fe_stat_size e = Some n)"
  by (auto simp: stat_size_def split: lstat_answer.splits option.splits)

text \<open>What an attempt has done when it returns.\<close>

definition attempt_done :: "vault_host \<Rightarrow> vault \<Rightarrow> prune_candidate \<Rightarrow> attempt \<Rightarrow> vault \<Rightarrow> bool" where
  "attempt_done h w c x w' = (case x of
     Pruned n \<Rightarrow> prunable h w c \<and> n = file_bytes h w c
       \<and> w' = removed_vault h (sqlite_datetime (vh_clock h (v_locks w))) (uuid_text (pc_id c)) (pc_path c) w
   | _ \<Rightarrow> w' = w)"

lemma prune_record_settles:
  assumes "idle (v_conn w)" "retention_revalidate fs (vh_bracket_ok h) (uuid_text (pc_id c)) (v_conn w) = (Inr (Some r), v_conn w)"
  shows "settles (attempt_done h w c) (prune_record h c r) w"
proof -
  obtain row k where r: "find_backup (uuid_text (pc_id c)) (committed (v_conn w)) = Some row"
    "rr_protection_reason r = protection_of (vh_bracket_ok h) (committed (v_conn w)) row"
    "rr_state r = Some ''available'' \<longleftrightarrow> b_state row = ''available''" "\<forall>p. rr_path r = Some p \<longrightarrow> p = or_empty (b_path row)"
    "rr_backup r = Some k" "uuid_text (bk_id k) = uuid_text (pc_id c)"
    "bk_size_bytes k = (case b_size_bytes row of None \<Rightarrow> 0 | Some n \<Rightarrow> n)" "bk_sha256 k = or_empty (b_sha256 row)"
    by (rule revalidate_Inr[OF assms(2), unfolded idle_working[OF assms(1)]]) blast
  show ?thesis
    unfolding prune_record_def
  proof (intro settles_if settles_option settles_bind[OF pure_file_identity] settles_reads settles_bind[OF pure_stat]
      settles_then_ret)
    fix path current n b
    assume a: "\<not> rr_state r \<noteq> Some ''available''" "rr_protection_reason r = None" "rr_path r = Some path"
      "file_identity h path w = (Inr current, w)"
      "\<not> (path_text path \<noteq> path_text (pc_path c) \<or> current \<noteq> Some (pc_identity c) \<or> \<not> is_sdk_managed_backup_path h w path)"
      "stat_size h path w = (Inr n, w)" "rr_backup r = Some b" "\<not> \<not> content_matches h w path n b"
    have b: "b = k" using a(7) r(5) by simp
    have p: "path = or_empty (b_path row)" "path_text path = path_text (pc_path c)" using a(3,5) r(4) by auto
    have e: "entry_at h w path = entry_at h w (pc_path c)" using p(2) by (simp add: entry_at_def)
    show "settles (\<lambda>_ w'. attempt_done h w c (Pruned n) w') (delete_impl_locked h b path current False) w"
      using delete_impl_locked_settles[OF assms(1), of h k path current False]
      unfolding b
    proof (rule settles_mono)
      fix x w'
      assume d: "deletion_done h w (uuid_text (bk_id k)) path current False x w'"
      then have m: "\<exists>row. may_remove h w (uuid_text (bk_id k)) path current False row"
        "w' = removed_vault h (sqlite_datetime (vh_clock h (v_locks w))) (uuid_text (bk_id k)) path w"
        using a(1) r(1,3,6) by (auto simp: deletion_done_def split: if_splits)
      then have "captured_file h w (pc_path c) current" by (auto simp: may_remove_def at_same_path[OF p(2)])
      then obtain f where f: "entry_at h w (pc_path c) = Found f" "fe_identity f = pc_identity c" "fe_regular f"
        using a(5) by (auto simp: captured_file_def split: lstat_answer.splits)
      have n: "fe_stat_size f = Some n" using a(6) f(1) e by (simp add: stat_size_Inr)
      have "prunable h w c"
        unfolding prunable_def
      proof (intro exI conjI)
        show "find_backup (uuid_text (pc_id c)) (committed (v_conn w)) = Some row" by (rule r(1))
        show "fe_stat_size f = Some (case b_size_bytes row of None \<Rightarrow> 0 | Some n \<Rightarrow> n)"
          "or_empty (b_sha256 row) = [] \<or> fe_sha256 f = b_sha256 row"
          using a(8) n f(1) r(7,8) b e by (auto simp: content_matches_def or_empty_def split: option.splits)
        show "b_state row = ''available''" "protection_of (vh_bracket_ok h) (committed (v_conn w)) row = None"
          using a(1,2) r(2,3) by simp_all
        show "path_text (or_empty (b_path row)) = path_text (pc_path c)" using p by simp
        show "is_sdk_managed_backup_path h w (pc_path c)" using a(5) at_same_path(1)[OF p(2), of h w] by simp
      qed (rule f)+
      then show "attempt_done h w c (Pruned n) w'"
        using m(2) r(6) n f(1) by (simp add: attempt_done_def file_bytes_def at_same_path[OF p(2)])
    qed
  qed (auto simp: attempt_done_def intro: settles_ret)
qed

section \<open>Attempts\<close>

text \<open>Reading the policy and taking a lock change counters only.\<close>

definition same_store :: "vault \<Rightarrow> vault \<Rightarrow> bool" where
  "same_store w w' \<longleftrightarrow> v_conn w' = v_conn w \<and> v_files w' = v_files w"

interpretation store: state_preorder same_store
  by unfold_locales (auto simp: same_store_def)

lemma store_policy: "obeys same_store (read_retention_policy h)"
  by (simp add: obeys_def read_retention_policy_def same_store_def)

lemma store_check: "obeys same_store (check_policy h plan any_deleted)"
  unfolding check_policy_def by (intro store.obeys_rules store_policy obeys_if)

lemma store_run: "obeys same_store m \<Longrightarrow> m w = (r, w') \<Longrightarrow> same_store w w'"
  unfolding obeys_def by (metis snd_conv)

lemma managed_cong: "entry_at h w' p = entry_at h w p \<Longrightarrow> is_sdk_managed_backup_path h w' p = is_sdk_managed_backup_path h w p"
  unfolding is_sdk_managed_backup_path_def is_link_at_def exists_at_def is_file_at_def by (simp only:)

lemma same_store_at:
  assumes "same_store w w'"
  shows "entry_at h w' p = entry_at h w p" "is_sdk_managed_backup_path h w' p = is_sdk_managed_backup_path h w p"
    "prunable h w' c = prunable h w c" "file_bytes h w' c = file_bytes h w c"
proof -
  show e: "entry_at h w' p = entry_at h w p" for p using assms by (simp add: same_store_def entry_at_def)
  show m: "is_sdk_managed_backup_path h w' p = is_sdk_managed_backup_path h w p" for p
    by (rule managed_cong[OF e])
  show "prunable h w' c = prunable h w c" "file_bytes h w' c = file_bytes h w c"
    using assms by (simp_all add: prunable_def file_bytes_def e m same_store_def)
qed

definition removed_store :: "vault_host \<Rightarrow> prune_candidate \<Rightarrow> vault \<Rightarrow> vault \<Rightarrow> bool" where
  "removed_store h c w w' \<longleftrightarrow> (\<exists>now. v_conn w' = publish (v_conn w) (deleted_db now (uuid_text (pc_id c)) (committed (v_conn w)))
     \<and> v_files w' = (v_files w)(vh_entry_of h (path_text (pc_path c)) := Missing))"

definition attempt_effect :: "vault_host \<Rightarrow> prune_candidate \<Rightarrow> vault \<Rightarrow> attempt \<Rightarrow> vault \<Rightarrow> bool" where
  "attempt_effect h c w x w' = (case x of
     Pruned n \<Rightarrow> prunable h w c \<and> n = file_bytes h w c \<and> removed_store h c w w'
   | _ \<Rightarrow> same_store w w')"

lemma attempt_done_effect: "attempt_done h w c x w' \<Longrightarrow> attempt_effect h c w x w'"
  by (auto simp: attempt_done_def attempt_effect_def removed_store_def removed_vault_def same_store_def split: attempt.splits)

lemma attempt_effect_same:
  assumes "same_store w w1" "attempt_effect h c w1 x w'"
  shows "attempt_effect h c w x w'"
  using assms(2) store.trans[OF assms(1)] same_store_at(3,4)[OF assms(1), of h c] assms(1)
  by (cases x) (simp_all add: attempt_effect_def removed_store_def same_store_def)

lemma prune_locked_effect:
  assumes "idle (v_conn w)" "prune_locked h plan any_deleted c w = (r, w')"
  shows "case r of Inl _ \<Rightarrow> same_store w w' | Inr x \<Rightarrow> attempt_effect h c w x w'"
proof -
  obtain s w1 where p: "check_policy h plan any_deleted w = (s, w1)" by force
  note w1 = store_run[OF store_check p]
  then have idle: "idle (v_conn w1)" using assms(1) by (simp add: same_store_def)
  have "settles (attempt_done h w1 c) (abind (on_catalog (retention_revalidate (vh_fs h) (vh_bracket_ok h) (uuid_text (pc_id c))))
      (\<lambda>found. case found of None \<Rightarrow> ret (Skipped (skip_of (pc_id c) ''catalog row disappeared'' 0)) | Some r \<Rightarrow> prune_record h c r)) w1"
  proof (intro settles_bind[OF pure_on_catalog[OF pure_revalidate]] settles_option)
    fix found row
    assume "on_catalog (retention_revalidate (vh_fs h) (vh_bracket_ok h) (uuid_text (pc_id c))) w1 = (Inr found, w1)" "found = Some row"
    then have "retention_revalidate (vh_fs h) (vh_bracket_ok h) (uuid_text (pc_id c)) (v_conn w1) = (Inr (Some row), v_conn w1)"
      using pure_run[OF pure_revalidate] by (fastforce simp: on_catalog_Inr)
    then show "settles (attempt_done h w1 c) (prune_record h c row) w1" by (rule prune_record_settles[OF idle])
  qed (simp add: settles_ret attempt_done_def)
  note finished = settlesD[OF this]
  show ?thesis
  proof (cases s)
    case (Inl e)
    then show ?thesis using assms(2) p w1 by (auto simp: prune_locked_def abind_def)
  next
    case (Inr same)
    show ?thesis
    proof (cases same)
      case True
      then have "abind (on_catalog (retention_revalidate (vh_fs h) (vh_bracket_ok h) (uuid_text (pc_id c))))
        (\<lambda>found. case found of None \<Rightarrow> ret (Skipped (skip_of (pc_id c) ''catalog row disappeared'' 0)) | Some r \<Rightarrow> prune_record h c r) w1 = (r, w')"
        using assms(2) p Inr by (simp add: prune_locked_def abind_def)
      from finished[OF this] w1 show ?thesis
        by (auto split: sum.splits intro: attempt_effect_same attempt_done_effect)
    next
      case False
      then show ?thesis using assms(2) p Inr w1 by (auto simp: prune_locked_def abind_def ret_def attempt_effect_def)
    qed
  qed
qed

lemma prune_attempt_effect:
  assumes "idle (v_conn w)" "prune_attempt h plan any_deleted c w = (r, w')"
  shows "case r of Inl _ \<Rightarrow> same_store w w' | Inr x \<Rightarrow> attempt_effect h c w x w'"
proof -
  let ?w1 = "w\<lparr>v_locks := Suc (v_locks w)\<rparr>"
  have s: "same_store w ?w1" by (simp add: same_store_def)
  have "case fst (with_lock h (uuid_text (pc_id c)) (prune_locked h plan any_deleted c) w) of
      Inl _ \<Rightarrow> same_store w (snd (with_lock h (uuid_text (pc_id c)) (prune_locked h plan any_deleted c) w))
    | Inr x \<Rightarrow> attempt_effect h c w x (snd (with_lock h (uuid_text (pc_id c)) (prune_locked h plan any_deleted c) w))"
  proof (cases "vh_lock h (v_locks w) (uuid_text (pc_id c))")
    case Acquired
    obtain r1 w2 where l: "prune_locked h plan any_deleted c ?w1 = (r1, w2)" by force
    have "idle (v_conn ?w1)" using assms(1) by simp
    from prune_locked_effect[OF this l] s show ?thesis
      using Acquired l store.trans[OF s] attempt_effect_same[OF s] by (auto simp: with_lock_def split: sum.splits)
  qed (use s in \<open>simp_all add: with_lock_def\<close>)
  then show ?thesis
    using assms(2) by (auto simp: prune_attempt_def attempt_effect_def split: prod.splits sum.splits vault_error.splits catalog_error.splits)
qed

section \<open>Stale plans\<close>

fun is_stale :: "vault_error \<Rightarrow> bool" where
  "is_stale (StalePlanError _ _) = True"
| "is_stale _ = False"

definition never_stale :: "'a vact \<Rightarrow> bool" where
  "never_stale m \<longleftrightarrow> (\<forall>w e w'. m w = (Inl e, w') \<longrightarrow> \<not> is_stale e)"

lemma never_stale_rules:
  "never_stale (ret x)" "never_stale (reads f)" "never_stale (on_catalog m)"
  "\<not> is_stale e \<Longrightarrow> never_stale (throw e)" "\<not> is_stale e \<Longrightarrow> never_stale (guard b e)"
  "never_stale (file_identity h p)" "never_stale (stat_size h p)" "never_stale (unlink_file h p)" "never_stale (already_deleted h row)"
  by (auto simp: never_stale_def ret_def reads_def on_catalog_def throw_def guard_def file_identity_def stat_size_def unlink_file_def
      already_deleted_def Let_def split: prod.splits sum.splits lstat_answer.splits option.splits if_splits)

lemma never_stale_bind: "never_stale m \<Longrightarrow> (\<And>x. never_stale (f x)) \<Longrightarrow> never_stale (abind m f)"
  unfolding never_stale_def abind_def by (auto split: prod.splits sum.splits)

lemma never_stale_seq: "never_stale m \<Longrightarrow> never_stale n \<Longrightarrow> never_stale (aseq m n)"
  unfolding aseq_def by (rule never_stale_bind)

lemma never_stale_cases:
  "(b \<Longrightarrow> never_stale m) \<Longrightarrow> (\<not> b \<Longrightarrow> never_stale n) \<Longrightarrow> never_stale (if b then m else n)"
  "never_stale m \<Longrightarrow> (\<And>y. never_stale (f y)) \<Longrightarrow> never_stale (case x of None \<Rightarrow> m | Some y \<Rightarrow> f y)"
  by (auto split: option.splits)

lemmas sparing = never_stale_rules never_stale_bind never_stale_seq never_stale_cases

lemma never_stale_policy: "never_stale (read_retention_policy h)"
  by (auto simp: never_stale_def read_retention_policy_def parse_policy_def validate_days_def validate_auto_prune_def
      split: policy_file.splits option.splits json.splits if_splits)

lemma never_stale_delete: "never_stale (delete_impl_locked h b p i allow)"
  unfolding delete_impl_locked_def remove_file_def Let_def not_available_def by (intro sparing) simp_all

lemma never_stale_record: "never_stale (prune_record h c r)"
  unfolding prune_record_def by (intro sparing never_stale_delete)

lemma never_stale_started: "never_stale (check_policy h plan True)" "never_stale (prune_locked h plan True c)"
proof -
  show p: "never_stale (check_policy h plan True)"
    unfolding check_policy_def by (intro sparing never_stale_policy) simp
  show "never_stale (prune_locked h plan True c)"
    unfolding prune_locked_def by (intro sparing p never_stale_record)
qed

lemma prune_attempt_raise:
  assumes "prune_attempt h plan any_deleted c w = (Inl e, w')"
  shows "is_stale e \<and> \<not> any_deleted"
proof -
  let ?m = "with_lock h (uuid_text (pc_id c)) (prune_locked h plan any_deleted c)"
  have e: "?m w = (Inl e, w')" "is_stale e" using assms
    by (auto simp: prune_attempt_def split: prod.splits sum.splits vault_error.splits catalog_error.splits)
  have "never_stale ?m" if any_deleted
    using that never_stale_started(2) by (auto simp: never_stale_def with_lock_def Let_def split: lock_answer.splits)
  with e show ?thesis unfolding never_stale_def by blast
qed

section \<open>The loop\<close>

definition pruned_ids :: "prune_candidate list \<Rightarrow> string set" where
  "pruned_ids cs = uuid_text ` pc_id ` set cs"

definition pruned_entries :: "vault_host \<Rightarrow> prune_candidate list \<Rightarrow> string set" where
  "pruned_entries h cs = (\<lambda>c. vh_entry_of h (path_text (pc_path c))) ` set cs"

definition pruned_row :: "string set \<Rightarrow> backup_row \<Rightarrow> backup_row \<Rightarrow> bool" where
  "pruned_row ids b b' \<longleftrightarrow> (if b_id b \<in> ids then \<exists>now. b' = mark_deleted now b else b' = b)"

text \<open>The state after the candidates \<open>cs\<close> of a plan were pruned, compared with the state before.\<close>

definition prune_state :: "vault_host \<Rightarrow> vault \<Rightarrow> prune_candidate list \<Rightarrow> vault \<Rightarrow> bool" where
  "prune_state h w0 cs w \<longleftrightarrow> idle (v_conn w) \<and> distinct (map (uuid_text \<circ> pc_id) cs) \<and> (\<forall>c\<in>set cs. prunable h w0 c)
     \<and> v_files w = (\<lambda>k. if k \<in> pruned_entries h cs then Missing else v_files w0 k)
     \<and> list_all2 (pruned_row (pruned_ids cs)) (backups (committed (v_conn w0))) (backups (committed (v_conn w)))
     \<and> (\<forall>b. b_id b \<notin> pruned_ids cs \<longrightarrow> protection_of (vh_bracket_ok h) (committed (v_conn w)) b =
          protection_of (vh_bracket_ok h) (committed (v_conn w0)) b)
     \<and> (cs = [] \<longrightarrow> v_conn w = v_conn w0)"

lemma prune_state_start: "idle (v_conn w) \<Longrightarrow> prune_state h w [] w"
  by (simp add: prune_state_def pruned_entries_def pruned_ids_def pruned_row_def list_all2_refl)

lemma prune_state_same: "prune_state h w0 cs w \<Longrightarrow> same_store w w' \<Longrightarrow> prune_state h w0 cs w'"
  by (simp add: prune_state_def same_store_def)

lemma pruned_row_find:
  assumes "list_all2 (pruned_row ids) (backups d0) (backups d)" "db_ok d0" "find_backup i d = Some b" "b_state b = ''available''"
  shows "i \<notin> ids" "find_backup i d0 = Some b"
proof -
  from find_backup_Some[OF assms(3)] obtain n where n: "n < length (backups d)" "b = backups d ! n" "b_id b = i"
    by (metis in_set_conv_nth)
  then have r: "pruned_row ids (backups d0 ! n) b" "n < length (backups d0)"
    using assms(1) by (auto simp: list_all2_conv_all_nth)
  then have "b = backups d0 ! n" "i \<notin> ids" using assms(4) n(3) by (auto simp: pruned_row_def split: if_splits)
  then show "i \<notin> ids" "find_backup i d0 = Some b"
    using find_backup_unique[OF assms(2), of b] r(2) n(3) by auto
qed

lemma prunable_before:
  assumes "prune_state h w0 cs w" "idle (v_conn w0)" "prunable h w c"
  shows "prunable h w0 c" "file_bytes h w c = file_bytes h w0 c" "uuid_text (pc_id c) \<notin> pruned_ids cs"
proof -
  from assms(3) obtain row e where p: "find_backup (uuid_text (pc_id c)) (committed (v_conn w)) = Some row"
    "b_state row = ''available''" "protection_of (vh_bracket_ok h) (committed (v_conn w)) row = None"
    "path_text (or_empty (b_path row)) = path_text (pc_path c)" "is_sdk_managed_backup_path h w (pc_path c)"
    "entry_at h w (pc_path c) = Found e" "fe_identity e = pc_identity c" "fe_regular e"
    "fe_stat_size e = Some (case b_size_bytes row of None \<Rightarrow> 0 | Some n \<Rightarrow> n)" "or_empty (b_sha256 row) = [] \<or> fe_sha256 e = b_sha256 row"
    unfolding prunable_def by blast
  note s = assms(1)[unfolded prune_state_def]
  note f = pruned_row_find[OF _ idle_db_ok[OF assms(2)] p(1,2)]
  show i: "uuid_text (pc_id c) \<notin> pruned_ids cs" using f(1) s by blast
  have e: "entry_at h w0 (pc_path c) = Found e" using p(6) s by (auto simp: entry_at_def split: if_splits)
  then have m: "is_sdk_managed_backup_path h w0 (pc_path c)"
    using managed_cong[of h w0 "pc_path c" w] p(5,6) by simp
  have "b_id row = uuid_text (pc_id c)" using find_backup_Some[OF p(1)] by simp
  then have "protection_of (vh_bracket_ok h) (committed (v_conn w0)) row = None" using p(3) s i by simp
  with p f(2) s e m show "prunable h w0 c" unfolding prunable_def by blast
  show "file_bytes h w c = file_bytes h w0 c" using e p(6) by (simp add: file_bytes_def)
qed

lemma pruned_rows_step:
  assumes "list_all2 (pruned_row ids) rows0 rows" "i \<notin> ids"
  shows "list_all2 (pruned_row (insert i ids)) rows0 (update_rows (\<lambda>b. b_id b = i) (mark_deleted now) rows)"
  using assms by (induction rows0 rows rule: list_all2_induct) (auto simp: update_rows_def pruned_row_def split: if_splits)

lemma pruned_row_kept: "list_all2 (pruned_row ids) rows rows' \<Longrightarrow> b \<in> set rows \<Longrightarrow> b_id b \<notin> ids \<Longrightarrow> b \<in> set rows'"
  by (induction rows rows' rule: list_all2_induct) (auto simp: pruned_row_def)

lemma pruned_row_marked:
  "list_all2 (pruned_row ids) rows rows' \<Longrightarrow> b \<in> set rows \<Longrightarrow> b_id b \<in> ids \<Longrightarrow> \<exists>now. mark_deleted now b \<in> set rows'"
  by (induction rows rows' rule: list_all2_induct) (auto simp: pruned_row_def)

lemma prune_state_step:
  assumes "prune_state h w0 cs w" "idle (v_conn w0)" "prunable h w c" "removed_store h c w w'"
  shows "prune_state h w0 (cs @ [c]) w'"
proof -
  let ?i = "uuid_text (pc_id c)" and ?d = "committed (v_conn w)"
  note s = assms(1)[unfolded prune_state_def]
  note before = prunable_before[OF assms(1-3)]
  from assms(4) obtain now where w': "v_conn w' = publish (v_conn w) (deleted_db now ?i ?d)"
    "v_files w' = (v_files w)(vh_entry_of h (path_text (pc_path c)) := Missing)" unfolding removed_store_def by blast
  from assms(3) obtain row where row: "find_backup ?i ?d = Some row" "protection_of (vh_bracket_ok h) ?d row = None"
    unfolding prunable_def by blast
  note r = find_backup_Some[OF row(1)]
  have d: "db_ok ?d" using s idle_db_ok by blast
  have ids: "pruned_ids (cs @ [c]) = insert ?i (pruned_ids cs)" by (auto simp: pruned_ids_def)
  have "?i \<in> set (map b_id (backups ?d))" using r by (auto intro: rev_image_eqI)
  from deleted_db_ok(2)[OF d this] have "idle (v_conn w')" using w'(1) s by simp
  moreover have "list_all2 (pruned_row (pruned_ids (cs @ [c]))) (backups (committed (v_conn w0))) (backups (committed (v_conn w')))"
    using s pruned_rows_step before(3) w'(1) ids by (simp add: deleted_db_def)
  moreover have "protection_of (vh_bracket_ok h) (committed (v_conn w')) b = protection_of (vh_bracket_ok h) (committed (v_conn w0)) b"
    if "b_id b \<notin> pruned_ids (cs @ [c])" for b
    using that s w'(1) ids protection_deleted[OF d conjunct1[OF r] conjunct2[OF r] row(2), of b now] by simp
  moreover have "v_files w' = (\<lambda>k. if k \<in> pruned_entries h (cs @ [c]) then Missing else v_files w0 k)"
    using s w'(2) by (auto simp: pruned_entries_def)
  moreover have "distinct (map (uuid_text \<circ> pc_id) (cs @ [c]))" "\<forall>c\<in>set (cs @ [c]). prunable h w0 c"
    using s before by (auto simp: pruned_ids_def)
  ultimately show ?thesis unfolding prune_state_def by blast
qed

definition loop_state :: "vault_host \<Rightarrow> vault \<Rightarrow> prune_candidate list \<Rightarrow> prune_progress \<Rightarrow> vault \<Rightarrow> bool" where
  "loop_state h w0 cs g w \<longleftrightarrow> prune_state h w0 cs w \<and> pg_deleted g = map pc_id cs
     \<and> pg_removed_bytes g = sum_list (map (file_bytes h w0) cs)"

definition loop_result :: "vault_host \<Rightarrow> vault \<Rightarrow> prune_candidate list \<Rightarrow> vault_error + prune_progress \<Rightarrow> vault \<Rightarrow> bool" where
  "loop_result h w0 cs r w = (case r of Inl e \<Rightarrow> prune_state h w0 cs w \<and> (is_stale e \<longrightarrow> cs = []) | Inr g \<Rightarrow> loop_state h w0 cs g w)"

lemma attempt_step:
  assumes "loop_state h w0 cs g w" "idle (v_conn w0)" "attempt_effect h c w (Pruned n) w'"
  shows "loop_state h w0 (cs @ [c]) (g\<lparr>pg_deleted := pg_deleted g @ [pc_id c], pg_removed_bytes := pg_removed_bytes g + n\<rparr>) w'"
  using assms prune_state_step[of h w0 cs w c w'] prunable_before(2)[of h w0 cs w c] by (simp add: loop_state_def attempt_effect_def)

lemma check_policy_stale:
  assumes "check_policy h plan any_deleted w = (Inl e, w')" "is_stale e"
  shows "\<not> any_deleted"
  using assms never_stale_started(1) unfolding never_stale_def by (cases any_deleted) auto

lemma prune_loop_result:
  assumes "loop_state h w0 cs g w" "idle (v_conn w0)" "prune_loop h plan cands g w = (r, w')"
  shows "\<exists>cs'. set cs' \<subseteq> set cs \<union> set cands \<and> loop_result h w0 cs' r w'"
  using assms(1,3)
proof (induction cands arbitrary: cs g w)
  case Nil
  then show ?case by (intro exI[of _ cs]) (auto simp: ret_def loop_result_def)
next
  case (Cons c cands)
  obtain s w1 where p: "check_policy h plan (pg_deleted g \<noteq> []) w = (s, w1)" by force
  have w1: "loop_state h w0 cs g w1" using Cons.prems(1) store_run[OF store_check p] prune_state_same by (auto simp: loop_state_def)
  show ?case
  proof (cases "s = Inr True")
    case False
    then have "loop_result h w0 cs r w'"
      using Cons.prems(2) p w1 check_policy_stale[of h plan "pg_deleted g \<noteq> []" w]
      by (cases s) (auto simp: abind_def ret_def loop_result_def loop_state_def)
    then show ?thesis by (intro exI[of _ cs]) auto
  next
    case True
    obtain x w2 where a: "prune_attempt h plan (pg_deleted g \<noteq> []) c w1 = (x, w2)" by force
    have idle: "idle (v_conn w1)" using w1 by (simp add: loop_state_def prune_state_def)
    note eff = prune_attempt_effect[OF idle a]
    have kept: "loop_state h w0 cs g' w2" if "same_store w1 w2" "pg_deleted g' = pg_deleted g" "pg_removed_bytes g' = pg_removed_bytes g" for g'
      using w1 that prune_state_same by (auto simp: loop_state_def)
    have run: "(case x of Inl e \<Rightarrow> (Inl e, w2) | Inr x \<Rightarrow> (case x of
        Pruned n \<Rightarrow> prune_loop h plan cands (g\<lparr>pg_deleted := pg_deleted g @ [pc_id c], pg_removed_bytes := pg_removed_bytes g + n\<rparr>)
      | Skipped s \<Rightarrow> prune_loop h plan cands (g\<lparr>pg_skipped := pg_skipped g @ [s]\<rparr>)
      | Failed s \<Rightarrow> prune_loop h plan cands (g\<lparr>pg_failed := pg_failed g @ [pc_id c], pg_failures := pg_failures g @ [s]\<rparr>)
      | Stopped \<Rightarrow> ret (g\<lparr>pg_policy_changed := True\<rparr>)) w2) = (r, w')"
      using Cons.prems(2) p a True by (simp add: abind_def split: sum.splits)
    show ?thesis
    proof (cases x)
      case (Inl e)
      with prune_attempt_raise a have "\<not> pg_deleted g \<noteq> []" by blast
      with Inl have "loop_result h w0 cs r w'"
        using run eff w1 prune_state_same[of h w0 cs w1 w2] by (auto simp: loop_result_def loop_state_def)
      then show ?thesis by (intro exI[of _ cs]) auto
    next
      case (Inr y)
      show ?thesis
      proof (cases y)
        case (Pruned n)
        have "loop_state h w0 (cs @ [c]) (g\<lparr>pg_deleted := pg_deleted g @ [pc_id c], pg_removed_bytes := pg_removed_bytes g + n\<rparr>) w2"
          using attempt_step[OF w1 assms(2)] eff Inr Pruned by simp
        from Cons.IH[OF this] run Inr Pruned have "\<exists>cs'. set cs' \<subseteq> set (cs @ [c]) \<union> set cands \<and> loop_result h w0 cs' r w'" by simp
        then show ?thesis by (elim ex_forward) auto
      next
        case (Skipped t)
        then have "loop_state h w0 cs (g\<lparr>pg_skipped := pg_skipped g @ [t]\<rparr>) w2"
          using eff Inr by (intro kept) (simp_all add: attempt_effect_def)
        from Cons.IH[OF this] run Inr Skipped have "\<exists>cs'. set cs' \<subseteq> set (cs) \<union> set cands \<and> loop_result h w0 cs' r w'" by simp
        then show ?thesis by (elim ex_forward) auto
      next
        case (Failed t)
        then have "loop_state h w0 cs (g\<lparr>pg_failed := pg_failed g @ [pc_id c], pg_failures := pg_failures g @ [t]\<rparr>) w2"
          using eff Inr by (intro kept) (simp_all add: attempt_effect_def)
        from Cons.IH[OF this] run Inr Failed have "\<exists>cs'. set cs' \<subseteq> set (cs) \<union> set cands \<and> loop_result h w0 cs' r w'" by simp
        then show ?thesis by (elim ex_forward) auto
      next
        case Stopped
        then have "loop_result h w0 cs r w'"
          using run Inr eff kept[of "g\<lparr>pg_policy_changed := True\<rparr>"] by (auto simp: ret_def loop_result_def attempt_effect_def)
        then show ?thesis by (intro exI[of _ cs]) auto
      qed
    qed
  qed
qed

text \<open>
  C28: Executing a prune plan removes only what may go. The plan is any plan, made at any earlier time:
  every backup it deletes is a candidate that is not excluded, and at the start of the execution its
  row is available and unprotected (not pinned, not referenced, not the newest of its source), names
  the planned path inside the managed directories, and its file is the planned regular file with the
  recorded size and digest. Exactly the files and rows of these backups are removed, every other file
  and row is as before, protected backups included, and the bytes reported are the sizes of the removed
  files. This also holds when the execution raises; a plan whose policy has changed raises before
  anything is removed, and a dry run changes nothing.
\<close>

theorem prune_execution_safe:
  assumes "idle (v_conn w)" "execute_prune_plan h plan dry_run excluded w = (r, w')"
  shows "\<exists>cs. set cs \<subseteq> {c \<in> set (pp_candidates plan). pc_id c \<notin> set excluded \<and> prunable h w c}
    \<and> v_files w' = (\<lambda>k. if k \<in> pruned_entries h cs then Missing else v_files w k)
    \<and> list_all2 (pruned_row (pruned_ids cs)) (backups (committed (v_conn w))) (backups (committed (v_conn w')))
    \<and> (\<forall>b\<in>set (backups (committed (v_conn w))). protection_of (vh_bracket_ok h) (committed (v_conn w)) b \<noteq> None \<longrightarrow>
         b \<in> set (backups (committed (v_conn w'))))
    \<and> (dry_run \<longrightarrow> cs = [] \<and> w' = w)
    \<and> (case r of Inl e \<Rightarrow> is_stale e \<longrightarrow> cs = [] \<and> v_conn w' = v_conn w
       | Inr x \<Rightarrow> po_deleted_ids x = map pc_id cs \<and> distinct (po_deleted_ids x)
           \<and> po_removed_bytes x = sum_list (map (file_bytes h w) cs))"
proof -
  let ?cands = "filter (\<lambda>c. pc_id c \<notin> set excluded) (pp_candidates plan)"
  obtain cs where cs: "set cs \<subseteq> set ?cands" "prune_state h w cs w'" "dry_run \<longrightarrow> cs = [] \<and> w' = w"
    "case r of Inl e \<Rightarrow> is_stale e \<longrightarrow> cs = [] | Inr x \<Rightarrow> po_deleted_ids x = map pc_id cs \<and> po_removed_bytes x = sum_list (map (file_bytes h w) cs)"
  proof (cases dry_run)
    case True
    then show thesis using assms prune_state_start[of w h]
      by (intro that[of "[]"]) (auto simp: execute_prune_plan_def Let_def ret_def)
  next
    case False
    define g0 where "g0 = \<lparr>pg_deleted = [], pg_skipped = pp_protected plan @ pp_skipped plan @
        map (\<lambda>c. skip_of (pc_id c) ''primary operation backup input/output'' (pc_size c))
          (filter (\<lambda>c. pc_id c \<in> set excluded) (pp_candidates plan)),
        pg_failed = [], pg_failures = [], pg_removed_bytes = 0, pg_policy_changed = False\<rparr>"
    obtain q w1 where l: "prune_loop h plan ?cands g0 w = (q, w1)" by force
    have "loop_state h w [] g0 w" using prune_state_start[OF assms(1)] by (simp add: loop_state_def g0_def)
    from prune_loop_result[OF this assms(1) l] obtain cs where cs: "set cs \<subseteq> set ?cands" "loop_result h w cs q w1" by auto
    show thesis
      using cs l False assms(2) by (intro that[of cs]; cases q)
        (auto simp: execute_prune_plan_def Let_def abind_def ret_def g0_def[symmetric] loop_result_def loop_state_def)
  qed
  note s = cs(2)[unfolded prune_state_def]
  have kept: "b \<in> set (backups (committed (v_conn w')))"
    if b: "b \<in> set (backups (committed (v_conn w)))" "protection_of (vh_bracket_ok h) (committed (v_conn w)) b \<noteq> None" for b
  proof -
    have "b_id b \<notin> pruned_ids cs"
    proof
      assume "b_id b \<in> pruned_ids cs"
      then obtain c row where "c \<in> set cs" "b_id b = uuid_text (pc_id c)"
        "find_backup (uuid_text (pc_id c)) (committed (v_conn w)) = Some row"
        "protection_of (vh_bracket_ok h) (committed (v_conn w)) row = None"
        using s unfolding pruned_ids_def prunable_def by blast
      with b find_backup_unique[OF idle_db_ok[OF assms(1)] b(1)] show False by simp
    qed
    with s pruned_row_kept b(1) show ?thesis by blast
  qed
  show ?thesis
  proof (intro exI[of _ cs] conjI)
    show "set cs \<subseteq> {c \<in> set (pp_candidates plan). pc_id c \<notin> set excluded \<and> prunable h w c}" using cs(1) s by auto
    show "\<forall>b\<in>set (backups (committed (v_conn w))). protection_of (vh_bracket_ok h) (committed (v_conn w)) b \<noteq> None \<longrightarrow>
        b \<in> set (backups (committed (v_conn w')))" using kept by blast
    have "distinct (map pc_id cs)" using s distinct_map[of uuid_text "map pc_id cs"] by simp
    then show "case r of Inl e \<Rightarrow> is_stale e \<longrightarrow> cs = [] \<and> v_conn w' = v_conn w
       | Inr x \<Rightarrow> po_deleted_ids x = map pc_id cs \<and> distinct (po_deleted_ids x) \<and> po_removed_bytes x = sum_list (map (file_bytes h w) cs)"
      using cs(4) s by (cases r) simp_all
    show "v_files w' = (\<lambda>k. if k \<in> pruned_entries h cs then Missing else v_files w k)" using s by blast
    show "list_all2 (pruned_row (pruned_ids cs)) (backups (committed (v_conn w))) (backups (committed (v_conn w')))" using s by blast
    show "dry_run \<longrightarrow> cs = [] \<and> w' = w" by (rule cs(3))
  qed
qed

section \<open>Undisturbed executions\<close>

text \<open>A row that is recorded completely, and the backup it decodes to.\<close>

definition complete_row :: "backup_row \<Rightarrow> bool" where
  "complete_row b \<longleftrightarrow> or_empty (b_path b) \<noteq> [] \<and> b_filename b \<noteq> None \<and> b_size_bytes b \<noteq> None \<and> b_sha256 b \<noteq> None"

lemma canonical_id_run: "i < 2 ^ 128 \<Longrightarrow> canonical_backup_id (uuid_text i) = Inr (uuid_text i)"
  using canonical_uuid_iff by (auto simp: canonical_backup_id_eq)

lemma row_to_backup_run:
  assumes "b_id row = uuid_text i" "i < 2 ^ 128" "backup_check row" "retention_timestamp row \<noteq> None"
  shows "\<exists>k. row_to_backup fs False row = Inr (Some k) \<and> bk_id k = i \<and> bk_source_base_url k = b_source_base_url row
    \<and> bk_filename k = or_empty (b_filename row) \<and> bk_path k = or_empty (b_path row) \<and> bk_format k = b_format row
    \<and> bk_filestore_requested k = (b_filestore_requested row \<noteq> 0) \<and> bk_database_name k = b_database_name row
    \<and> bk_size_bytes k = (case b_size_bytes row of None \<Rightarrow> 0 | Some n \<Rightarrow> n) \<and> bk_sha256 k = or_empty (b_sha256 row)
    \<and> bk_source_git_branch k = b_source_git_branch row"
  using assms uuid_text_roundtrip[OF assms(2)]
  by (auto simp: row_to_backup_def decode_uuid_def decode_time_def backup_check_def retention_timestamp_def Let_def
      split: if_splits option.splits)

lemma revalidate_run:
  assumes "find_backup (uuid_text i) (working c) = Some row" "i < 2 ^ 128" "row_to_backup fs False row = Inr (Some k)" "bk_id k = i"
  shows "retention_revalidate fs bracket_ok (uuid_text i) c = (Inr (Some \<lparr>rr_backup_id = i, rr_backup = Some k,
    rr_state = (if b_state row \<in> {''downloading'', ''available'', ''failed'', ''deleted''} then Some (b_state row) else None),
    rr_timestamp = retention_timestamp row, rr_source_group = retention_group bracket_ok row,
    rr_path = (if or_empty (b_path row) = [] then None else b_path row),
    rr_recorded_size = (case b_size_bytes row of None \<Rightarrow> 0 | Some n \<Rightarrow> n),
    rr_protection_reason = protection_of bracket_ok (working c) row\<rparr>), c)"
proof -
  have "decode_uuid (b_id row) = Inr i"
    using find_backup_Some[OF assms(1)] uuid_text_roundtrip[OF assms(2)] by (simp add: decode_uuid_def)
  then show ?thesis
    using assms canonical_id_run[OF assms(2)]
    by (simp add: retention_revalidate_def abind_def lift_result_def query_db_def reads_def ret_def deletion_protection_reason_def
        translate_sqlite_error_def retention_record_of_def)
qed

lemma verify_run:
  assumes "find_backup (uuid_text (bk_id k)) (working c) = Some row" "b_state row = ''available''" "complete_row row"
    "bk_source_base_url k = b_source_base_url row" "bk_filename k = or_empty (b_filename row)" "bk_path k = or_empty (b_path row)"
    "bk_format k = b_format row" "bk_filestore_requested k = (b_filestore_requested row \<noteq> 0)" "bk_database_name k = b_database_name row"
    "bk_size_bytes k = (case b_size_bytes row of None \<Rightarrow> 0 | Some n \<Rightarrow> n)" "bk_sha256 k = or_empty (b_sha256 row)"
    "bk_source_git_branch k = b_source_git_branch row"
  shows "verify_identity fs k False c = (Inr (), c)"
proof -
  obtain p f n t where "b_path row = Some p" "b_filename row = Some f" "b_size_bytes row = Some n" "b_sha256 row = Some t"
    using assms(3) by (auto simp: complete_row_def or_empty_def split: option.splits)
  with assms show ?thesis
    by (simp add: verify_identity_def exec_defs Let_def or_empty_def)
qed

lemma remove_file_run:
  assumes "idle (v_conn w)" "uuid_text (bk_id b) \<in> set (map b_id (backups (committed (v_conn w))))"
    "entry_at h w p = Found e" "fe_regular e" "\<forall>k. vh_unlink_error h k = None"
  shows "\<exists>x w'. remove_file h b p (Some (fe_identity e)) w = (Inr x, w')"
  using assms record_deletion_run[OF assms(1,2)]
  by (simp add: remove_file_def abind_def aseq_def reads_def guard_def ret_def file_identity_def is_file_at_def unlink_file_def
      Let_def exists_at_def is_link_at_def entry_at_def on_catalog_def)

lemma delete_run:
  assumes "idle (v_conn w)" "find_backup (uuid_text (bk_id k)) (committed (v_conn w)) = Some row" "b_state row = ''available''"
    "bk_id k < 2 ^ 128" "protection_of (vh_bracket_ok h) (committed (v_conn w)) row = None" "verify_identity (vh_fs h) k False (v_conn w) = (Inr (), v_conn w)"
    "entry_at h w (or_empty (b_path row)) = Found e" "fe_regular e" "\<forall>k. vh_unlink_error h k = None"
    "is_sdk_managed_backup_path h w (or_empty (b_path row))"
  shows "\<exists>x w'. delete_impl_locked h k (or_empty (b_path row)) (Some (fe_identity e)) False w = (Inr x, w')"
proof -
  let ?i = "uuid_text (bk_id k)" and ?p = "path_text (or_empty (b_path row))"
  have wc: "working (v_conn w) = committed (v_conn w)" by (rule idle_working[OF assms(1)])
  have g: "on_catalog (get_by_id ?i) w = (Inr (Some row), w)"
    using assms(2) wc by (simp add: on_catalog_def get_by_id_def query_db_def reads_def)
  have b: "on_catalog (protection_blocks h ?i False) w = (Inr None, w)"
    using assms(2,5) wc canonical_id_run[OF assms(4)]
    by (simp add: on_catalog_def protection_blocks_def deletion_protection_reason_def exec_defs)
  have v: "on_catalog (verify_identity (vh_fs h) k False) w = (Inr (), w)" using assms(6) by (simp add: on_catalog_def)
  have link: "\<not> is_link_at h w (or_empty (b_path row))" using assms(10) by (auto simp: is_sdk_managed_backup_path_def split: if_splits)
  have "?i \<in> set (map b_id (backups (committed (v_conn w))))" using find_backup_Some[OF assms(2)] by (auto intro: rev_image_eqI)
  from remove_file_run[OF assms(1) this, of h ?p e] assms(7-9)
  obtain x w' where "remove_file h k ?p (Some (fe_identity e)) w = (Inr x, w')" by auto
  then show ?thesis
    using assms(3,10) link by (simp add: delete_impl_locked_def Let_def abind_def aseq_def guard_def ret_def reads_def g b v)
qed

definition undisturbed :: "vault_host \<Rightarrow> prune_plan \<Rightarrow> bool" where
  "undisturbed h plan \<longleftrightarrow> (\<forall>n i. vh_lock h n i = Acquired) \<and> (\<forall>k. vh_unlink_error h k = None)
     \<and> (\<forall>n. \<exists>p. parse_policy (vh_policy_path h) (vh_policy h n) = Inr p \<and> policy_fingerprint h p = pp_fingerprint plan)"

lemma check_policy_run:
  assumes "undisturbed h plan"
  shows "check_policy h plan any_deleted w = (Inr True, w\<lparr>v_policy_reads := Suc (v_policy_reads w)\<rparr>)"
proof -
  obtain p where "parse_policy (vh_policy_path h) (vh_policy h (v_policy_reads w)) = Inr p" "policy_fingerprint h p = pp_fingerprint plan"
    using assms unfolding undisturbed_def by blast
  then show ?thesis by (simp add: check_policy_def abind_def read_retention_policy_def ret_def)
qed

definition whole :: "vault \<Rightarrow> prune_candidate \<Rightarrow> bool" where
  "whole w c \<longleftrightarrow> pc_id c < 2 ^ 128 \<and>
     (\<forall>row. find_backup (uuid_text (pc_id c)) (committed (v_conn w)) = Some row \<longrightarrow> complete_row row)"

lemma prune_record_run:
  assumes "idle (v_conn w)" "prunable h w c" "whole w c" "\<forall>k. vh_unlink_error h k = None"
  obtains r where "retention_revalidate (vh_fs h) (vh_bracket_ok h) (uuid_text (pc_id c)) (v_conn w) = (Inr (Some r), v_conn w)"
    "\<exists>n w'. prune_record h c r w = (Inr (Pruned n), w')"
proof -
  from assms(2) obtain row e where p: "find_backup (uuid_text (pc_id c)) (committed (v_conn w)) = Some row"
    "b_state row = ''available''" "protection_of (vh_bracket_ok h) (committed (v_conn w)) row = None"
    "path_text (or_empty (b_path row)) = path_text (pc_path c)" "is_sdk_managed_backup_path h w (pc_path c)"
    "entry_at h w (pc_path c) = Found e" "fe_identity e = pc_identity c" "fe_regular e"
    "fe_stat_size e = Some (case b_size_bytes row of None \<Rightarrow> 0 | Some n \<Rightarrow> n)" "or_empty (b_sha256 row) = [] \<or> fe_sha256 e = b_sha256 row"
    unfolding prunable_def by blast
  have wc: "working (v_conn w) = committed (v_conn w)" by (rule idle_working[OF assms(1)])
  note r = find_backup_Some[OF p(1)]
  have i: "pc_id c < 2 ^ 128" "complete_row row" using assms(3) p(1) by (auto simp: whole_def)
  have "backup_check row" using r idle_db_ok[OF assms(1)] by (auto simp: db_ok_def backups_ok_def list_all_iff)
  moreover have "retention_timestamp row \<noteq> None" using p(3) by (auto simp: protection_of_def split: if_splits option.splits)
  ultimately obtain k where k: "row_to_backup (vh_fs h) False row = Inr (Some k)" "bk_id k = pc_id c"
    "bk_source_base_url k = b_source_base_url row" "bk_filename k = or_empty (b_filename row)" "bk_path k = or_empty (b_path row)"
    "bk_format k = b_format row" "bk_filestore_requested k = (b_filestore_requested row \<noteq> 0)" "bk_database_name k = b_database_name row"
    "bk_size_bytes k = (case b_size_bytes row of None \<Rightarrow> 0 | Some n \<Rightarrow> n)" "bk_sha256 k = or_empty (b_sha256 row)"
    "bk_source_git_branch k = b_source_git_branch row" using row_to_backup_run[of row "pc_id c" "vh_fs h"] r i by blast
  have v: "verify_identity (vh_fs h) k False (v_conn w) = (Inr (), v_conn w)"
    using verify_run[OF _ p(2) i(2) k(3-11)] p(1) k(2) wc by simp
  have e: "entry_at h w (or_empty (b_path row)) = Found e" using p(4,6) by (simp add: entry_at_def)
  have m: "is_sdk_managed_backup_path h w (or_empty (b_path row))" using at_same_path(1)[OF p(4), of h w] p(5) by simp
  obtain x w' where d: "delete_impl_locked h k (or_empty (b_path row)) (Some (fe_identity e)) False w = (Inr x, w')"
    using delete_run[OF assms(1), of k row h e] p k(2) i(1) v e m assms(4) by auto
  obtain path where path: "b_path row = Some path" "path \<noteq> []" using i(2) by (auto simp: complete_row_def or_empty_def split: option.splits)
  note rev = revalidate_run[OF _ i(1) k(1,2), of "v_conn w" "vh_bracket_ok h", unfolded wc, OF p(1)]
  have "content_matches h w path (bk_size_bytes k) k"
    using p(10) e path k(10) by (auto simp: content_matches_def or_empty_def split: option.splits)
  then have "prune_record h c \<lparr>rr_backup_id = pc_id c, rr_backup = Some k,
    rr_state = (if b_state row \<in> {''downloading'', ''available'', ''failed'', ''deleted''} then Some (b_state row) else None),
    rr_timestamp = retention_timestamp row, rr_source_group = retention_group (vh_bracket_ok h) row,
    rr_path = (if or_empty (b_path row) = [] then None else b_path row),
    rr_recorded_size = (case b_size_bytes row of None \<Rightarrow> 0 | Some n \<Rightarrow> n),
    rr_protection_reason = protection_of (vh_bracket_ok h) (committed (v_conn w)) row\<rparr> w = (Inr (Pruned (bk_size_bytes k)), w')"
    using p(2,3,4,7,9) e m d path k(9)
    by (simp add: prune_record_def or_empty_def abind_def aseq_def ret_def reads_def file_identity_def stat_size_def)
  with rev that show thesis by blast
qed

lemma attempt_prunes:
  assumes "undisturbed h plan" "idle (v_conn w)" "prunable h w c" "whole w c"
  shows "\<exists>n w'. prune_attempt h plan any_deleted c w = (Inr (Pruned n), w')"
proof -
  let ?w = "w\<lparr>v_locks := Suc (v_locks w), v_policy_reads := Suc (v_policy_reads w)\<rparr>"
  have s: "same_store w ?w" by (simp add: same_store_def)
  have "idle (v_conn ?w)" "prunable h ?w c" "whole ?w c" "\<forall>k. vh_unlink_error h k = None"
    using assms same_store_at(3)[OF s, of h c] by (simp_all add: undisturbed_def whole_def)
  then obtain r n w' where r: "retention_revalidate (vh_fs h) (vh_bracket_ok h) (uuid_text (pc_id c)) (v_conn ?w) = (Inr (Some r), v_conn ?w)"
    "prune_record h c r ?w = (Inr (Pruned n), w')" using prune_record_run[of ?w h c thesis] by blast
  have "prune_locked h plan any_deleted c (w\<lparr>v_locks := Suc (v_locks w)\<rparr>) = (Inr (Pruned n), w')"
    using r by (simp add: prune_locked_def abind_def check_policy_run[OF assms(1)] on_catalog_def)
  then have "with_lock h (uuid_text (pc_id c)) (prune_locked h plan any_deleted c) w = (Inr (Pruned n), w')"
    using assms(1) by (simp add: with_lock_def undisturbed_def)
  then show ?thesis by (simp add: prune_attempt_def)
qed

lemma prunable_after:
  assumes "prune_state h w0 cs w" "idle (v_conn w0)" "prunable h w0 c" "whole w0 c" "uuid_text (pc_id c) \<notin> pruned_ids cs"
    "vh_entry_of h (path_text (pc_path c)) \<notin> pruned_entries h cs"
  shows "prunable h w c" "whole w c"
proof -
  from assms(3) obtain row e where p: "find_backup (uuid_text (pc_id c)) (committed (v_conn w0)) = Some row"
    "b_state row = ''available''" "protection_of (vh_bracket_ok h) (committed (v_conn w0)) row = None"
    "path_text (or_empty (b_path row)) = path_text (pc_path c)" "is_sdk_managed_backup_path h w0 (pc_path c)"
    "entry_at h w0 (pc_path c) = Found e" "fe_identity e = pc_identity c" "fe_regular e"
    "fe_stat_size e = Some (case b_size_bytes row of None \<Rightarrow> 0 | Some n \<Rightarrow> n)" "or_empty (b_sha256 row) = [] \<or> fe_sha256 e = b_sha256 row"
    unfolding prunable_def by blast
  note s = assms(1)[unfolded prune_state_def] and r = find_backup_Some[OF p(1)]
  have "row \<in> set (backups (committed (v_conn w)))"
    using pruned_row_kept[of "pruned_ids cs" _ _ row] s r assms(5) by metis
  moreover have "db_ok (committed (v_conn w))" using s idle_db_ok by blast
  ultimately have f: "find_backup (uuid_text (pc_id c)) (committed (v_conn w)) = Some row"
    using find_backup_unique[of "committed (v_conn w)" row] r by simp
  have e: "entry_at h w (pc_path c) = entry_at h w0 (pc_path c)" using s assms(6) by (simp add: entry_at_def)
  have "protection_of (vh_bracket_ok h) (committed (v_conn w)) row = None" using s p(3) r assms(5) by simp
  moreover have "is_sdk_managed_backup_path h w (pc_path c)" using managed_cong[OF e] p(5) by simp
  moreover have "entry_at h w (pc_path c) = Found e" using e p(6) by simp
  ultimately show "prunable h w c" using p(2,4,7-10) f unfolding prunable_def by blast
  show "whole w c" using assms(4) p(1) f by (simp add: whole_def)
qed

definition next_progress :: "prune_progress \<Rightarrow> prune_candidate \<Rightarrow> int \<Rightarrow> prune_progress" where
  "next_progress g c n = g\<lparr>pg_deleted := pg_deleted g @ [pc_id c], pg_removed_bytes := pg_removed_bytes g + n\<rparr>"

lemma prune_loop_completes:
  assumes "undisturbed h plan" "idle (v_conn w0)" "loop_state h w0 cs g w" "\<forall>c\<in>set cands. prunable h w0 c \<and> whole w0 c"
    "distinct (map (uuid_text \<circ> pc_id) (cs @ cands))" "distinct (map (\<lambda>c. vh_entry_of h (path_text (pc_path c))) (cs @ cands))"
  shows "\<exists>g' w'. prune_loop h plan cands g w = (Inr g', w') \<and> loop_state h w0 (cs @ cands) g' w'
    \<and> pg_skipped g' = pg_skipped g \<and> pg_failures g' = pg_failures g \<and> pg_policy_changed g' = pg_policy_changed g"
  using assms(3-6)
proof (induction cands arbitrary: cs g w)
  case Nil
  then show ?case by (simp add: ret_def)
next
  case (Cons c cands)
  let ?w = "w\<lparr>v_policy_reads := Suc (v_policy_reads w)\<rparr>"
  have st: "loop_state h w0 cs g ?w"
    using Cons.prems(1) prune_state_same[of h w0 cs w ?w] by (simp add: loop_state_def same_store_def)
  then have ps: "prune_state h w0 cs ?w" by (simp add: loop_state_def)
  have new: "uuid_text (pc_id c) \<notin> pruned_ids cs" "vh_entry_of h (path_text (pc_path c)) \<notin> pruned_entries h cs"
    using Cons.prems(3,4) by (auto simp: pruned_ids_def pruned_entries_def image_image)
  have idle: "idle (v_conn ?w)" using ps by (simp add: prune_state_def)
  note after = prunable_after[OF ps assms(2) _ _ new]
  obtain n w1 where a: "prune_attempt h plan (pg_deleted g \<noteq> []) c ?w = (Inr (Pruned n), w1)"
    using attempt_prunes[OF assms(1) idle] after Cons.prems(2) by fastforce
  have "attempt_effect h c ?w (Pruned n) w1" using prune_attempt_effect[OF idle a] by simp
  from attempt_step[OF st assms(2) this]
  have "loop_state h w0 (cs @ [c]) (next_progress g c n) w1" by (simp add: next_progress_def)
  from Cons.IH[OF this] Cons.prems(2-4)
  obtain g' w' where "prune_loop h plan cands (next_progress g c n) w1 = (Inr g', w')" "loop_state h w0 ((cs @ [c]) @ cands) g' w'"
    "pg_skipped g' = pg_skipped g" "pg_failures g' = pg_failures g" "pg_policy_changed g' = pg_policy_changed g"
    by (auto simp: next_progress_def)
  then show ?case
    using a by (simp add: abind_def check_policy_run[OF assms(1)] next_progress_def)
qed

text \<open>
  C29: An undisturbed execution does the whole job. When the policy is the plan's, locks are free and
  unlinks are allowed, a plan whose candidates are still prunable, with complete rows and files of
  their own, is executed without a failure: every candidate that is not excluded is deleted, in the
  order of the plan, its file is gone and its row is marked.
\<close>

theorem prune_completes:
  assumes "idle (v_conn w)" "undisturbed h plan" "cs = filter (\<lambda>c. pc_id c \<notin> set excluded) (pp_candidates plan)"
    "\<forall>c\<in>set cs. prunable h w c \<and> whole w c"
    "distinct (map (uuid_text \<circ> pc_id) cs)" "distinct (map (\<lambda>c. vh_entry_of h (path_text (pc_path c))) cs)"
  shows "\<exists>x w'. execute_prune_plan h plan False excluded w = (Inr x, w') \<and> po_deleted_ids x = map pc_id cs
    \<and> po_failures x = [] \<and> \<not> po_policy_changed x \<and> length (po_skipped x) + length cs =
        length (pp_protected plan) + length (pp_skipped plan) + length (pp_candidates plan)
    \<and> (\<forall>c\<in>set cs. v_files w' (vh_entry_of h (path_text (pc_path c))) = Missing
        \<and> (\<exists>row. find_backup (uuid_text (pc_id c)) (committed (v_conn w')) = Some row \<and> b_state row = ''deleted''))"
proof -
  define g0 where "g0 = \<lparr>pg_deleted = [], pg_skipped = pp_protected plan @ pp_skipped plan @
      map (\<lambda>c. skip_of (pc_id c) ''primary operation backup input/output'' (pc_size c))
        (filter (\<lambda>c. pc_id c \<in> set excluded) (pp_candidates plan)),
      pg_failed = [], pg_failures = [], pg_removed_bytes = 0, pg_policy_changed = False\<rparr>"
  have "loop_state h w [] g0 w" using prune_state_start[OF assms(1)] by (simp add: loop_state_def g0_def)
  from prune_loop_completes[OF assms(2,1) this assms(4)] assms(5,6)
  obtain g w' where l: "prune_loop h plan cs g0 w = (Inr g, w')" "loop_state h w cs g w'"
    "pg_skipped g = pg_skipped g0" "pg_failures g = pg_failures g0" "pg_policy_changed g = pg_policy_changed g0" by auto
  note s = l(2)[unfolded loop_state_def prune_state_def]
  have row: "\<exists>row. find_backup (uuid_text (pc_id c)) (committed (v_conn w')) = Some row \<and> b_state row = ''deleted''" if "c \<in> set cs" for c
  proof -
    have "prunable h w c" using that assms(4) by blast
    then obtain b where "find_backup (uuid_text (pc_id c)) (committed (v_conn w)) = Some b" unfolding prunable_def by blast
    from find_backup_Some[OF this] have "b \<in> set (backups (committed (v_conn w)))" "b_id b = uuid_text (pc_id c)" by simp_all
    moreover have "uuid_text (pc_id c) \<in> pruned_ids cs" using that by (simp add: pruned_ids_def)
    ultimately obtain now where m: "mark_deleted now b \<in> set (backups (committed (v_conn w')))" "b_id b = uuid_text (pc_id c)"
      using pruned_row_marked[of "pruned_ids cs" _ _ b] s by metis
    have "db_ok (committed (v_conn w'))" using s idle_db_ok by blast
    from find_backup_unique[OF this m(1)] m(2) show ?thesis by simp
  qed
  have len: "length (filter (\<lambda>c. pc_id c \<in> set excluded) (pp_candidates plan)) + length cs = length (pp_candidates plan)"
    using sum_length_filter_compl[of "\<lambda>c. pc_id c \<in> set excluded" "pp_candidates plan"] assms(3) by simp
  show ?thesis
    using l s row len assms(3)
    by (simp add: execute_prune_plan_def Let_def abind_def ret_def g0_def[symmetric]) (auto simp: g0_def pruned_entries_def)
qed

section \<open>What a plan names\<close>

text \<open>Why a record is a candidate, and the identifier of each verdict.\<close>

definition expired :: "vault_host \<Rightarrow> vault \<Rightarrow> int \<Rightarrow> retention_record \<Rightarrow> prune_candidate \<Rightarrow> bool" where
  "expired h w cutoff r c \<longleftrightarrow> rr_state r = Some ''available'' \<and> (\<exists>t. rr_timestamp r = Some t \<and> t < cutoff)
     \<and> rr_source_group r \<noteq> None \<and> rr_protection_reason r = None
     \<and> (\<exists>p e. rr_path r = Some p \<and> entry_at h w p = Found e \<and> is_sdk_managed_backup_path h w p
          \<and> c = \<lparr>pc_id = rr_backup_id r, pc_path = path_text p, pc_identity = fe_identity e, pc_size = fe_lstat_size e\<rparr>)"

fun verdict_id :: "verdict \<Rightarrow> nat" where
  "verdict_id (Candidate c) = pc_id c"
| "verdict_id (Protect s) = ps_id s"
| "verdict_id (Leave s) = ps_id s"

definition verdict_ok :: "vault_host \<Rightarrow> vault \<Rightarrow> int \<Rightarrow> retention_record \<Rightarrow> verdict \<Rightarrow> bool" where
  "verdict_ok h w cutoff r v \<longleftrightarrow> verdict_id v = rr_backup_id r \<and> (\<forall>c. v = Candidate c \<longrightarrow> expired h w cutoff r c)"

lemma probe_lock_store: "obeys same_store (probe_lock h i)"
  by (auto simp: obeys_def probe_lock_def with_lock_def ret_def same_store_def Let_def split: lock_answer.splits)

lemma retention_verdict_store: "obeys same_store (retention_verdict h cutoff r)"
proof -
  have found: "obeys same_store (case a of Missing \<Rightarrow> ret x | Denied \<Rightarrow> ret y | Found e \<Rightarrow> f e)"
    if "\<And>e. obeys same_store (f e)" for a x y and f :: "file_entry \<Rightarrow> verdict vact"
    using that store.obeys_ret by (cases a) auto
  show ?thesis unfolding retention_verdict_def Let_def
    by (intro store.obeys_rules obeys_if obeys_option obeys_prod probe_lock_store found)
qed

lemma retention_verdict_ok:
  "retention_verdict h cutoff r w = (Inr v, w') \<Longrightarrow> verdict_ok h w cutoff r v"
  by (auto simp: retention_verdict_def Let_def verdict_ok_def expired_def abind_Inr_iff ret_Inr reads_def
      split: if_splits option.splits lstat_answer.splits)

lemma expired_same: "same_store w w' \<Longrightarrow> expired h w' cutoff r c = expired h w cutoff r c"
  unfolding expired_def by (simp add: same_store_at(1,2))

lemma retention_verdicts_ok:
  assumes "retention_verdicts h cutoff rs w = (Inr vs, w')"
  shows "same_store w w' \<and> list_all2 (verdict_ok h w cutoff) rs vs"
  using assms
proof (induction rs arbitrary: w vs)
  case Nil
  then show ?case by (auto simp: ret_Inr store.refl)
next
  case (Cons r rs)
  then obtain v w1 us where v: "retention_verdict h cutoff r w = (Inr v, w1)" "retention_verdicts h cutoff rs w1 = (Inr us, w')" "vs = v # us"
    by (auto simp: abind_Inr_iff ret_Inr)
  note s = store_run[OF retention_verdict_store v(1)]
  from Cons.IH[OF v(2)] have "same_store w1 w'" "list_all2 (verdict_ok h w1 cutoff) rs us" by simp_all
  then have "list_all2 (verdict_ok h w cutoff) rs us"
    by (elim list_all2_mono) (simp add: verdict_ok_def expired_same[OF s])
  then show ?case using retention_verdict_ok[OF v(1)] v(3) store.trans[OF s \<open>same_store w1 w'\<close>] by simp
qed

lemma verdict_parts:
  "mset (map pc_id (candidates_of vs)) + mset (map ps_id (protected_of vs)) + mset (map ps_id (left_of vs)) = mset (map verdict_id vs)"
proof (induction vs)
  case (Cons v vs)
  then show ?case by (cases v) (simp_all add: candidates_of_def protected_of_def left_of_def List.map_filter_simps)
qed (simp add: candidates_of_def protected_of_def left_of_def List.map_filter_simps)

lemma candidates_set: "c \<in> set (candidates_of vs) \<longleftrightarrow> Candidate c \<in> set vs"
  by (induction vs) (auto simp: candidates_of_def List.map_filter_simps split: verdict.splits)


section \<open>A concrete execution\<close>

definition sample_now :: py_datetime where
  "sample_now = \<lparr>year = 2024, month = 6, day = 1, hour = 12, minute = 0, sec = 0, microsecond = 0, tz = None\<rparr>"

definition sample_host :: vault_host where
  "sample_host = \<lparr>vh_fs = \<lparr>resolve = id, sha256_hex = id, is_file = (\<lambda>_. True), path_exists = (\<lambda>_. True), is_symlink = (\<lambda>_. False),
       st_size = (\<lambda>_. None), content_sha256 = id\<rparr>,
     vh_bracket_ok = (\<lambda>_. False), vh_entry_of = id, vh_resolve = Some, vh_configured_root = None, vh_backups_dir = ''/'',
     vh_unlink_error = (\<lambda>_. None), vh_lock = (\<lambda>_ _. Acquired), vh_policy = (\<lambda>_. No_file), vh_policy_path = ''/user.toml'',
     vh_clock = (\<lambda>_. sample_now)\<rparr>"

definition sample_file :: file_entry where
  "sample_file = \<lparr>fe_symlink = False, fe_exists = True, fe_regular = True, fe_identity = (1, 2), fe_lstat_size = 9,
     fe_stat_size = Some 9, fe_sha256 = Some ''ab''\<rparr>"

definition sample_vault :: vault where
  "sample_vault = \<lparr>v_conn = open_catalog sample_db, v_files = (\<lambda>k. if k = ''/b.zip'' then Found sample_file else Missing),
     v_locks = 0, v_policy_reads = 0\<rparr>"

definition sample_policy :: retention_policy where
  "sample_policy = \<lparr>pol_days = 14, pol_auto_prune = False, pol_path = ''/user.toml''\<rparr>"

definition sample_candidate :: prune_candidate where
  "sample_candidate = \<lparr>pc_id = 302240678275694148452353, pc_path = ''/b.zip'', pc_identity = (1, 2), pc_size = 9\<rparr>"

definition sample_prune :: prune_plan where
  "sample_prune = \<lparr>pp_project_id = ''project_erp_01'', pp_policy = sample_policy, pp_fingerprint = policy_fingerprint sample_host sample_policy,
     pp_cutoff = utc_us sample_now - 14 * day_us, pp_candidates = [sample_candidate], pp_protected = [], pp_skipped = []\<rparr>"

lemma sample_text: "uuid_text (pc_id sample_candidate) = sample_id (CHR ''1'')" "path_text ''/b.zip'' = ''/b.zip''"
  by code_simp+

lemma sample_vault_idle: "idle (v_conn sample_vault)"
  by (simp add: sample_vault_def idle_open sample_db_ok)

lemma sample_entry: "entry_at sample_host sample_vault (pc_path sample_candidate) = Found sample_file"
    "is_sdk_managed_backup_path sample_host sample_vault (pc_path sample_candidate)"
  by code_simp+

lemma sample_prunable: "prunable sample_host sample_vault sample_candidate" "whole sample_vault sample_candidate"
proof -
  have f: "find_backup (uuid_text (pc_id sample_candidate)) (committed (v_conn sample_vault)) =
      Some (sample_backup (sample_id (CHR ''1'')) ''2024-05-01 10:00:00'')"
    by (simp add: sample_text sample_vault_def open_catalog_def sample_found)
  moreover have "protection_of (vh_bracket_ok sample_host) (committed (v_conn sample_vault))
      (sample_backup (sample_id (CHR ''1'')) ''2024-05-01 10:00:00'') = None"
    using sample_unprotected by (simp add: sample_host_def sample_vault_def open_catalog_def)
  ultimately show "prunable sample_host sample_vault sample_candidate"
    unfolding prunable_def by (intro exI[of _ "sample_backup (sample_id (CHR ''1'')) ''2024-05-01 10:00:00''"] exI[of _ sample_file])
      (simp add: sample_entry, simp add: sample_backup_def sample_candidate_def sample_file_def or_empty_def)
  show "whole sample_vault sample_candidate"
    using f by (simp add: whole_def complete_row_def or_empty_def sample_backup_def sample_candidate_def)
qed

lemma sample_undisturbed: "undisturbed sample_host sample_prune"
  by (simp add: undisturbed_def sample_host_def parse_policy_def sample_prune_def sample_policy_def policy_fingerprint_def)

lemma backfill_nothing:
  assumes "idle c" "\<forall>b\<in>set (backups (committed c)). b_project_id b \<noteq> None"
  shows "backfill_ownership c = (Inr (), c)"
proof -
  have "update_rows P f rows = rows" if "\<forall>r\<in>set rows. \<not> P r" for P and f :: "backup_row \<Rightarrow> backup_row" and rows
    using that by (simp add: update_rows_def map_idI)
  then show ?thesis
    using assms idle_working[OF assms(1)] idle_db_ok[OF assms(1)]
    by (simp add: backfill_ownership_def exec_defs Let_def dml_def commit_def idle_def)
qed

definition sample_rows :: "backup_row list" where
  "sample_rows = [sample_backup (sample_id (CHR ''2'')) ''2024-05-02T10:00:00+00:00'',
     sample_backup (sample_id (CHR ''1'')) ''2024-05-01 10:00:00'', sample_backup (sample_id (CHR ''3'')) ''2024-05-01 09:00:00'']"

lemma sample_retention_rows: "retention_rows ''project_erp_01'' (open_catalog sample_db) = (Inr sample_rows, open_catalog sample_db)"
proof -
  have "\<forall>b\<in>set (backups sample_db). b_project_id b \<noteq> None" by code_simp
  then have b: "backfill_ownership (open_catalog sample_db) = (Inr (), open_catalog sample_db)"
    using backfill_nothing[OF idle_open[OF sample_db_ok]] by (simp add: open_catalog_def)
  have "order_by (\<lambda>x y. point_order (backup_point x) (backup_point y))
      (filter (\<lambda>b. b_project_id b = Some ''project_erp_01'') (backups sample_db)) = sample_rows" by code_simp
  then show ?thesis
    by (simp add: retention_rows_def translate_sqlite_error_def aseq_def abind_def b query_db_def reads_def) (simp add: open_catalog_def)
qed

lemma abind_ran: "m w = (Inr x, w') \<Longrightarrow> abind m f w = f x w'"
  by (simp add: abind_def)

lemma for_rows_total:
  assumes "\<forall>r\<in>set rows. \<exists>x. f r c = (Inr x, c)"
  shows "\<exists>xs. for_rows f rows c = (Inr xs, c) \<and> length xs = length rows"
  using assms by (induction rows) (fastforce simp: ret_def abind_def)+

lemma snapshot_total:
  assumes "idle c" "retention_rows project c = (Inr rows, c)"
    "\<forall>b\<in>set rows. b \<in> set (backups (committed c)) \<and> canonical_uuid (b_id b) \<and> retention_timestamp b \<noteq> None"
  shows "\<exists>records. retention_snapshot fs bracket_ok project c = (Inr records, c) \<and> length records = length rows"
proof -
  have "\<exists>x. abind (deletion_protection_reason bracket_ok (b_id b)) (\<lambda>reason. lift_result (retention_record_of fs bracket_ok b reason)) c = (Inr x, c)"
    if b: "b \<in> set rows" for b
  proof -
    have m: "b \<in> set (backups (committed c))" "canonical_uuid (b_id b)" "retention_timestamp b \<noteq> None" using assms(3) b by auto
    then obtain i where i: "b_id b = uuid_text i" "i < 2 ^ 128" using canonical_uuid_iff by blast
    have "deletion_protection_reason bracket_ok (b_id b) c = (Inr (protection_of bracket_ok (committed c) b), c)"
      using m i find_backup_unique[OF idle_db_ok[OF assms(1)] m(1)] idle_working[OF assms(1)]
      by (auto simp: protection_reason_Inr canonical_uuid_iff)
    moreover have "backup_check b" using m(1) idle_db_ok[OF assms(1)] by (auto simp: db_ok_def backups_ok_def list_all_iff)
    then obtain k where "row_to_backup fs False b = Inr (Some k)" using row_to_backup_run[OF i _ m(3)] by blast
    ultimately show ?thesis
      using i uuid_text_roundtrip[OF i(2)] by (simp add: abind_def lift_result_def retention_record_of_def decode_uuid_def)
  qed
  then have "\<forall>b\<in>set rows. \<exists>x. abind (deletion_protection_reason bracket_ok (b_id b))
      (\<lambda>reason. lift_result (retention_record_of fs bracket_ok b reason)) c = (Inr x, c)" by blast
  from for_rows_total[of rows "\<lambda>b. abind (deletion_protection_reason bracket_ok (b_id b))
      (\<lambda>reason. lift_result (retention_record_of fs bracket_ok b reason))", OF this] show ?thesis unfolding retention_snapshot_def abind_ran[of "retention_rows project" c rows c, OF assms(2)] .
qed

lemma verdict_total: "\<forall>n i. vh_lock h n i = Acquired \<Longrightarrow> \<exists>v w'. retention_verdict h cutoff r w = (Inr v, w')"
  by (simp add: retention_verdict_def Let_def abind_def reads_def ret_def probe_lock_def with_lock_def
      split: option.split lstat_answer.split)

lemma verdicts_total: "\<forall>n i. vh_lock h n i = Acquired \<Longrightarrow> \<exists>vs w'. retention_verdicts h cutoff rs w = (Inr vs, w')"
proof (induction rs arbitrary: w)
  case (Cons r rs)
  obtain v w1 where "retention_verdict h cutoff r w = (Inr v, w1)" using verdict_total[OF Cons.prems] by blast
  moreover obtain vs w2 where "retention_verdicts h cutoff rs w1 = (Inr vs, w2)" using Cons.IH[OF Cons.prems] by blast
  ultimately show ?case by (simp add: abind_ran ret_def)
qed (simp add: ret_def)


theorem prune_completes_witness:
  "\<exists>x w'. execute_prune_plan sample_host sample_prune False [] sample_vault = (Inr x, w')
    \<and> po_deleted_ids x = [302240678275694148452353] \<and> v_files w' ''/b.zip'' = Missing"
proof -
  have "vh_entry_of sample_host (path_text (pc_path sample_candidate)) = ''/b.zip''" by code_simp
  then show ?thesis
    using prune_completes[OF sample_vault_idle sample_undisturbed, of "[sample_candidate]" "[]"] sample_prunable
    by (fastforce simp: sample_prune_def sample_candidate_def)
qed

theorem prune_execution_safe_witness:
  "\<exists>x w'. execute_prune_plan sample_host sample_prune False [] sample_vault = (Inr x, w')
    \<and> length (po_deleted_ids x) \<le> 1 \<and> sample_backup (sample_id (CHR ''2'')) ''2024-05-02T10:00:00+00:00'' \<in> set (backups (committed (v_conn w')))"
proof -
  define g0 where "g0 = \<lparr>pg_deleted = [], pg_skipped = [], pg_failed = [], pg_failures = [], pg_removed_bytes = 0, pg_policy_changed = False\<rparr>"
  have "loop_state sample_host sample_vault [] g0 sample_vault" using prune_state_start[OF sample_vault_idle] by (simp add: loop_state_def g0_def)
  from prune_loop_completes[OF sample_undisturbed sample_vault_idle this, of "[sample_candidate]"] sample_prunable
  obtain g w1 where l: "prune_loop sample_host sample_prune [sample_candidate] g0 sample_vault = (Inr g, w1)"
    by (auto simp del: prune_loop.simps)
  have "pp_candidates sample_prune = [sample_candidate]" "pp_protected sample_prune = []" "pp_skipped sample_prune = []"
    by (simp_all add: sample_prune_def)
  with l obtain x w' where e: "execute_prune_plan sample_host sample_prune False [] sample_vault = (Inr x, w')"
    by (simp add: execute_prune_plan_def Let_def abind_def ret_def g0_def del: prune_loop.simps)
  let ?b = "sample_backup (sample_id (CHR ''2'')) ''2024-05-02T10:00:00+00:00''"
  have v: "committed (v_conn sample_vault) = sample_db" "vh_bracket_ok sample_host = (\<lambda>_. False)"
    by (simp_all add: sample_vault_def open_catalog_def sample_host_def)
  have p: "?b \<in> set (backups sample_db)" "protection_of (\<lambda>_. False) sample_db ?b \<noteq> None" by code_simp+
  from prune_execution_safe[OF sample_vault_idle e] obtain cs where
    c: "set cs \<subseteq> {c \<in> set (pp_candidates sample_prune). pc_id c \<notin> set [] \<and> prunable sample_host sample_vault c}"
    and kept: "\<forall>b\<in>set (backups (committed (v_conn sample_vault))).
      protection_of (vh_bracket_ok sample_host) (committed (v_conn sample_vault)) b \<noteq> None \<longrightarrow> b \<in> set (backups (committed (v_conn w')))"
    and ids: "case Inr x of Inl e \<Rightarrow> is_stale e \<longrightarrow> cs = [] \<and> v_conn w' = v_conn sample_vault
      | Inr x \<Rightarrow> po_deleted_ids x = map pc_id cs \<and> distinct (po_deleted_ids x)
           \<and> po_removed_bytes x = sum_list (map (file_bytes sample_host sample_vault) cs)"
    by (elim exE conjE)
  have cs: "set cs \<subseteq> {sample_candidate}" "po_deleted_ids x = map pc_id cs" "distinct (po_deleted_ids x)"
    using c ids by (auto simp: sample_prune_def)
  have b: "?b \<in> set (backups (committed (v_conn w')))"
    using bspec[OF kept, of ?b] p unfolding v by blast
  have "length (po_deleted_ids x) = card (set (po_deleted_ids x))" using cs(3) by (simp add: distinct_card)
  also have "\<dots> \<le> card {pc_id sample_candidate}" using cs(1,2) by (intro card_mono) auto
  finally show ?thesis using e b by auto
qed

end
