(* ===== verification/Catalog_Settings.thy ===== *)
theory Catalog_Settings
  imports Catalog_Backup
begin

text \<open>
  The revisioned settings of the catalogue (\<^verbatim>\<open>storage/catalog/settings.py\<close>): validation of keys and values,
  the stored text, and the four operations of \<^verbatim>\<open>_SettingsMixin\<close>. An update or a deletion names the
  revision it was based on.

  A value is a \<^typ>\<open>json\<close> value; \<open>frepr\<close> is the decimal text of a float, \<open>bracket_ok\<close> the decision of
  \<^verbatim>\<open>ipaddress\<close> for a bracketed host. The clock is an argument of the operations that read it.
\<close>

section \<open>Keys and values\<close>

definition MAX_KEY_BYTES :: nat where "MAX_KEY_BYTES = 512"

definition MAX_VALUE_BYTES :: nat where "MAX_VALUE_BYTES = 64 * 1024"

definition GLOBAL_ASSIGNEE_KEY :: string where "GLOBAL_ASSIGNEE_KEY = ''gitlab.mr.default_assignee''"

definition ASSIGNEE_PREFIX :: string where "ASSIGNEE_PREFIX = ''gitlab.mr.default_assignee:''"

text \<open>\<^verbatim>\<open>len(s.encode("utf-8"))\<close> for code points below 256.\<close>

definition utf8_length :: "string \<Rightarrow> nat" where
  "utf8_length s = length s + length (filter (\<lambda>c. 128 \<le> code c) s)"

record catalog_setting =
  cs_key :: string
  cs_value :: json
  cs_revision :: int
  cs_created_at :: py_datetime
  cs_updated_at :: py_datetime

definition assignee_url_ok :: "string \<Rightarrow> split_result \<Rightarrow> bool" where
  "assignee_url_ok raw url \<longleftrightarrow> scheme url = ''https'' \<and> url_hostname url \<noteq> None \<and> netloc url = lower (netloc url)
     \<and> \<not> has_userinfo url \<and> query url = [] \<and> fragment url = []
     \<and> strip (\<lambda>c. c = CHR ''/'') (upath url) \<noteq> [] \<and> upath url = ''/'' @ strip (\<lambda>c. c = CHR ''/'') (upath url)
     \<and> list_all (\<lambda>part. part \<notin> {''.'', ''..''}) (split_on (CHR ''/'') (upath url)) \<and> \<not> list_ex is_space raw"

definition assignee_key :: "(string \<Rightarrow> bool) \<Rightarrow> string \<Rightarrow> (catalog_error, bool) result" where
  "assignee_key bracket_ok key =
     (if key = GLOBAL_ASSIGNEE_KEY then Inr True
      else if \<not> startswith key ASSIGNEE_PREFIX then Inr False
      else let raw = drop (length ASSIGNEE_PREFIX) key in case urlsplit bracket_ok raw of
        Inl _ \<Rightarrow> Inl (BackupCatalogError ''MR assignee setting key is invalid'')
      | Inr url \<Rightarrow> if assignee_url_ok raw url then Inr True
          else Inl (BackupCatalogError ''MR assignee setting key is invalid''))"

definition validate_key :: "(string \<Rightarrow> bool) \<Rightarrow> string \<Rightarrow> (catalog_error, string) result" where
  "validate_key bracket_ok key =
     (if blank key \<or> utf8_length key > MAX_KEY_BYTES
      then Inl (BackupCatalogError ''setting key must be non-empty and within the catalogue limit'')
      else if key \<noteq> strip_ws key \<or> is_secret_key_name key
      then Inl (BackupCatalogError ''setting key is invalid or classified as secret-bearing'')
      else rbind (assignee_key bracket_ok key) (\<lambda>_. Inr key))"

fun assignee_value :: "json \<Rightarrow> bool" where
  "assignee_value (JInt n) = (n > 0)"
| "assignee_value (JStr s) = (\<not> blank s \<and> \<not> list_ex is_space s)"
| "assignee_value v = False"

fun json_value_ok :: "nat \<Rightarrow> json \<Rightarrow> bool" where
  "json_value_ok depth (JSpecial t) = False"
| "json_value_ok depth (JList items) = (depth \<le> 64 \<and> list_all (json_value_ok (Suc depth)) items)"
| "json_value_ok depth (JObj fs) = (depth \<le> 64 \<and> list_all (\<lambda>(k, v). json_value_ok (Suc depth) v) fs)"
| "json_value_ok depth v = (depth \<le> 64)"

definition canonical_value :: "(rat \<Rightarrow> string) \<Rightarrow> (string \<Rightarrow> bool) \<Rightarrow> string \<Rightarrow> json \<Rightarrow> (catalog_error, string) result" where
  "canonical_value frepr bracket_ok key v = rbind (assignee_key bracket_ok key) (\<lambda>assignee.
     if assignee \<and> \<not> assignee_value v then Inl (BackupCatalogError ''MR assignee setting value is invalid'')
     else if \<not> json_value_ok 0 v then Inl (BackupCatalogError ''setting value must be bounded canonical JSON'')
     else let serialized = dumps_raw frepr v in
       if utf8_length serialized > MAX_VALUE_BYTES then Inl (BackupCatalogError ''setting value exceeds the catalogue limit'')
       else Inr serialized)"

definition decode_value :: "string \<Rightarrow> (catalog_error, json) result" where
  "decode_value raw = (case loads_with True raw of None \<Rightarrow> Inl (BackupCatalogError ''catalogue setting JSON is invalid'')
     | Some v \<Rightarrow> Inr v)"

definition setting_time :: "string \<Rightarrow> (catalog_error, py_datetime) result" where
  "setting_time t = (case fromisoformat t of None \<Rightarrow> Inl (BackupCatalogError ''catalogue setting row is invalid'')
     | Some d \<Rightarrow> Inr (d\<lparr>tz := Some 0\<rparr>))"

definition setting_of :: "setting_row \<Rightarrow> (catalog_error, catalog_setting) result" where
  "setting_of row = rbind (decode_value (sg_value_json row)) (\<lambda>v.
     rbind (setting_time (sg_created_at row)) (\<lambda>created.
     rbind (setting_time (sg_updated_at row)) (\<lambda>updated.
       Inr \<lparr>cs_key = sg_key row, cs_value = v, cs_revision = sg_revision row, cs_created_at = created,
         cs_updated_at = updated\<rparr>)))"

section \<open>Operations\<close>

definition setting_row_of :: "string \<Rightarrow> catalog_db \<Rightarrow> setting_row option" where
  "setting_row_of key d = fetchone (filter (\<lambda>r. sg_key r = key) (catalog_settings d))"

definition get_setting :: "string \<Rightarrow> catalog_setting option cat" where
  "get_setting key = abind (query_db (setting_row_of key)) (\<lambda>row. case row of
     None \<Rightarrow> ret None
   | Some r \<Rightarrow> abind (lift_result (setting_of r)) (\<lambda>s. ret (Some s)))"

definition list_settings :: "catalog_setting list cat" where
  "list_settings = abind (query_db (\<lambda>d. order_by (\<lambda>x y. sg_key x \<le> sg_key y) (catalog_settings d)))
     (\<lambda>rows. lift_result (decode_each setting_of rows))"

text \<open>\<^verbatim>\<open>except\<close> clauses that turn SQLite errors into catalogue errors.\<close>

definition sqlite_raised :: "(sqlite_error \<Rightarrow> string) \<Rightarrow> 'a cat \<Rightarrow> 'a cat" where
  "sqlite_raised msg m c = (case m c of
     (Inl (SqliteError s), c') \<Rightarrow> (Inl (BackupCatalogError (msg s)), c') | r \<Rightarrow> r)"

definition required_setting :: "string \<Rightarrow> string \<Rightarrow> catalog_setting cat" where
  "required_setting msg key = abind (get_setting key) (\<lambda>found. case found of
     None \<Rightarrow> throw (BackupCatalogError msg) | Some s \<Rightarrow> ret s)"

definition create_setting :: "(rat \<Rightarrow> string) \<Rightarrow> (string \<Rightarrow> bool) \<Rightarrow> py_datetime \<Rightarrow> string \<Rightarrow> json \<Rightarrow> catalog_setting cat" where
  "create_setting frepr bracket_ok clock key v =
     abind (lift_result (validate_key bracket_ok key)) (\<lambda>k.
     abind (lift_result (canonical_value frepr bracket_ok k v)) (\<lambda>serialized.
     aseq (sqlite_raised (\<lambda>_. ''catalogue setting could not be created'')
         (with_conn (dml (\<lambda>d. (d\<lparr>catalog_settings := catalog_settings d @ [\<lparr>sg_key = k, sg_value_json = serialized,
            sg_revision = 1, sg_created_at = isoformat clock, sg_updated_at = isoformat clock\<rparr>]\<rparr>, 1)))))
       (required_setting ''catalogue setting disappeared after creation'' k)))"

text \<open>\<^verbatim>\<open>if cursor.rowcount != 1: raise BackupCatalogError(...)\<close> inside the transaction.\<close>

definition setting_changed :: catalog_error where
  "setting_changed = BackupCatalogError ''setting changed; reload and retry''"

definition change_one :: "(catalog_db \<Rightarrow> catalog_db \<times> nat) \<Rightarrow> unit cat" where
  "change_one statement = with_conn (abind (dml statement) (\<lambda>rowcount. guard (rowcount = 1) setting_changed))"

definition update_statement :: "string \<Rightarrow> string \<Rightarrow> string \<Rightarrow> string \<Rightarrow> int \<Rightarrow> catalog_db \<Rightarrow> catalog_db \<times> nat" where
  "update_statement new_key serialized now key revision d =
     (let hit = (\<lambda>r. sg_key r = key \<and> sg_revision r = revision) in
      (d\<lparr>catalog_settings := update_rows hit (\<lambda>r. r\<lparr>sg_key := new_key, sg_value_json := serialized,
           sg_revision := sg_revision r + 1, sg_updated_at := now\<rparr>) (catalog_settings d)\<rparr>,
       count_rows hit (catalog_settings d)))"

definition update_setting :: "(rat \<Rightarrow> string) \<Rightarrow> (string \<Rightarrow> bool) \<Rightarrow> py_datetime \<Rightarrow> string \<Rightarrow> json \<Rightarrow> int
    \<Rightarrow> string option \<Rightarrow> catalog_setting cat" where
  "update_setting frepr bracket_ok clock key v expected_revision new_key =
     abind (lift_result (validate_key bracket_ok key)) (\<lambda>k.
     abind (lift_result (case new_key of None \<Rightarrow> Inr k | Some n \<Rightarrow> validate_key bracket_ok n)) (\<lambda>n.
     aseq (guard (expected_revision \<ge> 1) (BackupCatalogError ''setting revision is invalid''))
     (abind (lift_result (canonical_value frepr bracket_ok n v)) (\<lambda>serialized.
     aseq (sqlite_raised (\<lambda>s. case s of IntegrityError \<Rightarrow> ''catalogue setting key conflicts with an existing row''
           | _ \<Rightarrow> ''catalogue setting could not be updated'')
         (change_one (update_statement n serialized (isoformat clock) k expected_revision)))
       (required_setting ''catalogue setting disappeared after update'' n)))))"

definition delete_setting :: "(string \<Rightarrow> bool) \<Rightarrow> string \<Rightarrow> int \<Rightarrow> unit cat" where
  "delete_setting bracket_ok key expected_revision =
     abind (lift_result (validate_key bracket_ok key)) (\<lambda>k.
     aseq (guard (expected_revision \<ge> 1) (BackupCatalogError ''setting revision is invalid''))
     (change_one (\<lambda>d. let hit = (\<lambda>r. sg_key r = k \<and> sg_revision r = expected_revision) in
        (d\<lparr>catalog_settings := delete_rows hit (catalog_settings d)\<rparr>, count_rows hit (catalog_settings d)))))"

section \<open>Stored texts are valid\<close>

lemma read_number_finite: "read_number s = Some (v, r) \<Longrightarrow> finite_json v"
  by (cases "read_integer s") (auto simp: read_number_def Let_def case_prod_unfold split: if_splits)

lemma read_literal_strict: "read_literal True s = Some (v, r) \<Longrightarrow> read_literal False s = Some (v, r) \<and> finite_json v"
  by (cases "read_number s") (auto simp: read_literal_def dest: read_number_finite split: if_splits)

lemma scan_strict:
  "scan_once True fuel s = Some (v, r) \<Longrightarrow> scan_once False fuel s = Some (v, r) \<and> finite_json v"
  "scan_items True fuel s = Some (vs, r) \<Longrightarrow> scan_items False fuel s = Some (vs, r) \<and> list_all finite_json vs"
  "scan_fields True fuel d s = Some (fs, r) \<Longrightarrow> list_all (\<lambda>(k, v). finite_json v) d \<Longrightarrow>
     scan_fields False fuel d s = Some (fs, r) \<and> list_all (\<lambda>(k, v). finite_json v) fs"
proof (induction fuel arbitrary: s v r vs d fs)
  case (Suc fuel)
  {
    case 1
    then show ?case
      by (auto split: list.splits if_splits dest!: Suc.IH(2) read_literal_strict dest: Suc.IH(3)[where d = "[]"])
  next
    case 2
    then show ?case
      by (auto split: list.splits if_splits option.splits prod.splits dest!: Suc.IH(1,2))
  next
    case 3
    have d: "list_all (\<lambda>(k, v). finite_json v) (dset d k v)" if "finite_json v" for k v
      using set_dset[of d k v] 3(2) that by (auto simp: list_all_iff)
    note IH3 = Suc.IH(3)[OF _ d]
    show ?case using 3(1)
      by (auto simp: Let_def d split: list.splits if_splits option.splits prod.splits dest!: Suc.IH(1) dest: IH3)
  }
qed simp_all

lemma strict_valid: "loads_with True t = Some v \<Longrightarrow> json_valid t"
  using scan_strict(1)[of "Suc (length t)" "skip_space t"]
  by (cases "scan_once True (Suc (length t)) (skip_space t)") (auto simp: json_valid_def loads_with_def split: if_splits)

lemma validate_key_Inr:
  assumes "validate_key b key = Inr k"
  shows "k = key" "sql_nonblank key"
proof -
  have k: "k = key" "strip_ws key \<noteq> []" "key = strip_ws key"
    using assms by (auto simp: validate_key_def blank_def split: if_splits)
  show "k = key" by (rule k(1))
  have "hd key \<noteq> CHR '' ''"
  proof
    assume "hd key = CHR '' ''"
    then have "is_space (hd key)" by (simp add: is_space_def in_range_def code_def)
    moreover obtain c cs where c: "key = c # cs" using k(2,3) by (cases key) auto
    ultimately have "lstrip is_space key = lstrip is_space cs" by (simp add: lstrip_def)
    then have "length (strip_ws key) \<le> length cs"
      using length_dropWhile_le[of is_space "rev (dropWhile is_space cs)"] length_dropWhile_le[of is_space cs]
      by (simp add: strip_ws_def strip_def rstrip_def lstrip_def)
    with k(3) c show False by (metis Suc_n_not_le_n length_Cons)
  qed
  then show "sql_nonblank key" using k(2,3) by (cases key) (auto simp: sql_nonblank_def strip_Nil_iff)
qed

lemma setting_time_iso: "valid_datetime t \<Longrightarrow> setting_time (isoformat t) = Inr (t\<lparr>tz := Some 0\<rparr>)"
  by (simp add: setting_time_def fromisoformat_isoformat)

section \<open>What the statements commit\<close>

lemma sqlite_raised_Inr: "sqlite_raised msg m c = (Inr x, c') \<longleftrightarrow> m c = (Inr x, c')"
  by (auto simp: sqlite_raised_def split: prod.splits sum.splits catalog_error.splits)

lemma sqlite_raised_state: "snd (sqlite_raised msg m c) = snd (m c)"
  by (auto simp: sqlite_raised_def split: prod.splits sum.splits catalog_error.splits)

lemma get_setting_state: "snd (get_setting key c) = c" "snd (required_setting msg key c) = c"
  by (auto simp: get_setting_def required_setting_def abind_def query_db_def reads_def ret_def lift_result_def throw_def
      split: prod.splits sum.splits option.splits)

lemma with_conn_effect:
  assumes "idle c" "obeys uncommitted m"
  shows "snd (with_conn m c) = c \<or> (\<exists>x c1. m c = (Inr x, c1) \<and> snd (with_conn m c) = publish c (working c1) \<and> db_ok (working c1))"
proof -
  obtain r c' where w: "with_conn m c = (r, c')" by force
  from w assms show ?thesis by (cases rule: with_conn_cases) (auto simp: w)
qed

definition set_settings :: "setting_row list \<Rightarrow> catalog_db \<Rightarrow> catalog_db" where
  "set_settings rows d = d\<lparr>catalog_settings := rows\<rparr>"

definition new_setting :: "string \<Rightarrow> string \<Rightarrow> string \<Rightarrow> setting_row" where
  "new_setting key serialized now = \<lparr>sg_key = key, sg_value_json = serialized, sg_revision = 1, sg_created_at = now, sg_updated_at = now\<rparr>"

definition revised :: "string \<Rightarrow> string \<Rightarrow> string \<Rightarrow> setting_row \<Rightarrow> setting_row" where
  "revised key serialized now r = r\<lparr>sg_key := key, sg_value_json := serialized, sg_revision := sg_revision r + 1, sg_updated_at := now\<rparr>"

definition at_revision :: "string \<Rightarrow> int \<Rightarrow> setting_row \<Rightarrow> bool" where
  "at_revision key revision r \<longleftrightarrow> sg_key r = key \<and> sg_revision r = revision"

lemma state_lift: "snd (abind (lift_result x) f c) = (case x of Inl _ \<Rightarrow> c | Inr y \<Rightarrow> snd (f y c))"
  by (cases x) (simp_all add: abind_def lift_result_def)

lemma state_guard: "snd (aseq (guard P e) n c) = (if P then snd (n c) else c)"
  by (simp add: aseq_def abind_def guard_def ret_def throw_def)

lemma state_read: "snd (aseq m (required_setting msg key) c) = snd (m c)"
  by (auto simp: aseq_def abind_def get_setting_state split: prod.split sum.split)

lemmas setting_states = state_lift state_guard state_read sqlite_raised_state

lemma create_effect:
  assumes "idle c"
  shows "snd (create_setting frepr b clock key v c) = c \<or>
    (\<exists>serialized. snd (create_setting frepr b clock key v c) =
       publish c (set_settings (catalog_settings (committed c) @ [new_setting key serialized (isoformat clock)]) (committed c)))"
proof -
  let ?ins = "\<lambda>k serialized. dml (\<lambda>d. (d\<lparr>catalog_settings := catalog_settings d @ [\<lparr>sg_key = k, sg_value_json = serialized,
            sg_revision = 1, sg_created_at = isoformat clock, sg_updated_at = isoformat clock\<rparr>]\<rparr>, 1))"
  have w: "snd (with_conn (?ins k serialized) c) = c \<or> snd (with_conn (?ins k serialized) c) =
      publish c (set_settings (catalog_settings (committed c) @ [new_setting k serialized (isoformat clock)]) (committed c))" for k serialized
    using with_conn_effect[OF assms obeys_dml] idle_working[OF assms]
    by (fastforce simp: dml_Inr set_settings_def new_setting_def)
  show ?thesis
    unfolding create_setting_def setting_states using w validate_key_Inr(1)[of b key]
    by (auto split: sum.split)
qed

lemma change_one_run:
  assumes "idle c" "f (committed c) = (d, n)"
  shows "change_one f c = (if \<not> db_ok d then (Inl (SqliteError IntegrityError), c)
    else if n \<noteq> 1 then (Inl setting_changed, c) else (Inr (), publish c d))"
  using assms idle_working[OF assms(1)]
  by (auto simp: change_one_def with_conn_def abind_def dml_def guard_def throw_def ret_def rollback_def commit_def publish_def idle_def
      intro!: conn.equality)

lemma update_statement_run:
  "update_statement n serialized now key revision d =
     (set_settings (update_rows (at_revision key revision) (revised n serialized now) (catalog_settings d)) d,
      count_rows (at_revision key revision) (catalog_settings d))"
  by (simp add: update_statement_def set_settings_def revised_def[abs_def] at_revision_def[abs_def] Let_def)

lemma delete_setting_run: "delete_setting b key revision = abind (lift_result (validate_key b key)) (\<lambda>k.
     aseq (guard (revision \<ge> 1) (BackupCatalogError ''setting revision is invalid''))
     (change_one (\<lambda>d. (set_settings (delete_rows (at_revision k revision) (catalog_settings d)) d,
        count_rows (at_revision k revision) (catalog_settings d)))))"
  by (simp add: delete_setting_def set_settings_def at_revision_def[abs_def] Let_def)

lemma update_effect:
  assumes "idle c"
  shows "snd (update_setting frepr b clock key v revision new_key c) = c \<or>
    (\<exists>serialized. count_rows (at_revision key revision) (catalog_settings (committed c)) = 1
       \<and> snd (update_setting frepr b clock key v revision new_key c) = publish c (set_settings
           (update_rows (at_revision key revision) (revised (case new_key of None \<Rightarrow> key | Some n \<Rightarrow> n) serialized (isoformat clock))
             (catalog_settings (committed c))) (committed c)))"
  unfolding update_setting_def setting_states
  by (auto simp: change_one_run[OF assms update_statement_run] split: sum.split option.split dest!: validate_key_Inr(1))

lemma delete_effect:
  assumes "idle c"
  shows "snd (delete_setting b key revision c) = c \<or> snd (delete_setting b key revision c) =
     publish c (set_settings (delete_rows (at_revision key revision) (catalog_settings (committed c))) (committed c))"
  unfolding delete_setting_run setting_states
  using change_one_run[OF assms refl] validate_key_Inr(1)[of b key]
  by (fastforce split: sum.split)

text \<open>A statement that finds no row raises, and the transaction is rolled back.\<close>

lemma count_rows_zero: "count_rows P rows = 0 \<longleftrightarrow> (\<forall>r\<in>set rows. \<not> P r)"
  by (auto simp: count_rows_def filter_empty_conv)

definition refuses :: "'a cat \<Rightarrow> conn \<Rightarrow> bool" where
  "refuses m c \<longleftrightarrow> (\<exists>e. m c = (Inl e, c))"

lemma refuses_rules:
  "(\<And>y. x = Inr y \<Longrightarrow> refuses (f y) c) \<Longrightarrow> refuses (abind (lift_result x) f) c"
  "(P \<Longrightarrow> refuses n c) \<Longrightarrow> refuses (aseq (guard P e) n) c"
  "refuses m c \<Longrightarrow> refuses (aseq m n) c"
  "refuses m c \<Longrightarrow> refuses (sqlite_raised msg m) c"
  by (cases x) (auto simp: refuses_def act_simps abind_def sqlite_raised_def split: catalog_error.split)

lemma change_one_stale:
  assumes "idle c" "\<forall>r\<in>set (catalog_settings (committed c)). \<not> at_revision key revision r"
  shows "change_one (update_statement n serialized now key revision) c = (Inl setting_changed, c)"
proof -
  have "update_rows (at_revision key revision) f (catalog_settings (committed c)) = catalog_settings (committed c)" for f
    using assms(2) by (auto simp: update_rows_def intro: map_idI)
  then show ?thesis
    using change_one_run[OF assms(1) update_statement_run] count_rows_zero[THEN iffD2, OF assms(2)] idle_db_ok[OF assms(1)]
    by (simp add: set_settings_def)
qed

lemma stale_update:
  assumes "idle c" "\<forall>r\<in>set (catalog_settings (committed c)). \<not> at_revision key revision r"
  shows "refuses (update_setting frepr b clock key v revision new_key) c"
proof -
  have "refuses (change_one (update_statement n serialized now k revision)) c" if "validate_key b key = Inr k" for n serialized now k
    using change_one_stale[OF assms] validate_key_Inr(1)[OF that] by (simp add: refuses_def)
  then show ?thesis unfolding update_setting_def by (intro refuses_rules)
qed

lemma stale_delete:
  assumes "idle c" "\<forall>r\<in>set (catalog_settings (committed c)). \<not> at_revision key revision r"
  shows "refuses (delete_setting b key revision) c"
  using change_one_run[OF assms(1) refl] count_rows_zero[THEN iffD2, OF assms(2)] validate_key_Inr(1)[of b key]
  unfolding delete_setting_run by (intro refuses_rules) (auto simp: refuses_def)

section \<open>Sessions of several clients\<close>

datatype settings_call =
    Create_setting py_datetime string json
  | Update_setting py_datetime string json int "string option"
  | Delete_setting string int

fun run_setting_call :: "(rat \<Rightarrow> string) \<Rightarrow> (string \<Rightarrow> bool) \<Rightarrow> settings_call \<Rightarrow> conn \<Rightarrow> conn" where
  "run_setting_call frepr b (Create_setting clock key v) c = snd (create_setting frepr b clock key v c)"
| "run_setting_call frepr b (Update_setting clock key v revision new_key) c =
     snd (update_setting frepr b clock key v revision new_key c)"
| "run_setting_call frepr b (Delete_setting key revision) c = snd (delete_setting b key revision c)"

text \<open>The calls that put a row under a key it did not have.\<close>

fun makes_key :: "string \<Rightarrow> settings_call \<Rightarrow> bool" where
  "makes_key key (Create_setting clock k v) = (k = key)"
| "makes_key key (Update_setting clock k v revision new_key) = (k \<noteq> key \<and> new_key = Some key)"
| "makes_key key (Delete_setting k revision) = False"

text \<open>A row of a key is either as it was or newer.\<close>

definition only_newer :: "string \<Rightarrow> setting_row \<Rightarrow> setting_row list \<Rightarrow> bool" where
  "only_newer key row rows \<longleftrightarrow> (\<forall>r\<in>set rows. sg_key r = key \<longrightarrow> r = row \<or> sg_revision row < sg_revision r)"

lemma only_newer_call:
  assumes "idle c" "only_newer key row (catalog_settings (committed c))" "\<not> makes_key key call" "sg_key row = key"
  shows "only_newer key row (catalog_settings (committed (run_setting_call frepr b call c)))"
proof (cases call)
  case (Create_setting clock k v)
  then show ?thesis using create_effect[OF assms(1), of frepr b clock k v] assms(2,3)
    by (auto simp: only_newer_def set_settings_def new_setting_def)
next
  case (Update_setting clock k v revision new_key)
  have "sg_revision row < sg_revision r + 1" if "r \<in> set (catalog_settings (committed c))" "sg_key r = key" for r
    using assms(2) that by (fastforce simp: only_newer_def)
  then show ?thesis using update_effect[OF assms(1), of frepr b clock k v revision new_key] assms(2,3) Update_setting
    by (auto simp: only_newer_def set_settings_def update_rows_def revised_def at_revision_def split: if_splits option.splits)
next
  case (Delete_setting k revision)
  then show ?thesis using delete_effect[OF assms(1), of b k revision] assms(2)
    by (auto simp: only_newer_def set_settings_def delete_rows_def)
qed

lemma idle_setting_rules:
  "keeps_idle m \<Longrightarrow> keeps_idle (sqlite_raised msg m)" "keeps_idle (required_setting lost key)"
  "keeps_idle (with_conn (dml f))" "keeps_idle (change_one f)"
proof -
  show "keeps_idle m \<Longrightarrow> keeps_idle (sqlite_raised msg m)" by (simp add: keeps_idle_def sqlite_raised_state)
  show "keeps_idle (required_setting lost key)" by (simp add: keeps_idle_def get_setting_state)
  show "keeps_idle (with_conn (dml f))" by (intro keeps_idle_with obeys_dml)
  show "keeps_idle (change_one f)" unfolding change_one_def by (intro keeps_idle_with txn_rules)
qed

lemma idle_call: "idle c \<Longrightarrow> idle (run_setting_call frepr b call c)"
proof -
  have "keeps_idle (create_setting frepr b clock k v)" for clock k v
    unfolding create_setting_def by (intro idle_rules idle_setting_rules)
  moreover have "keeps_idle (update_setting frepr b clock k v revision new_key)" for clock k v revision new_key
    unfolding update_setting_def by (intro idle_rules idle_setting_rules)
  moreover have "keeps_idle (delete_setting b k revision)" for k revision
    unfolding delete_setting_def by (intro idle_rules idle_setting_rules)
  ultimately show "idle c \<Longrightarrow> ?thesis" by (cases call) (simp_all add: keeps_idle_def)
qed

definition run_session :: "(rat \<Rightarrow> string) \<Rightarrow> (string \<Rightarrow> bool) \<Rightarrow> settings_call list \<Rightarrow> conn \<Rightarrow> conn" where
  "run_session frepr b calls c = fold (run_setting_call frepr b) calls c"

lemma session_newer:
  assumes "idle c" "only_newer key row (catalog_settings (committed c))" "\<forall>call\<in>set calls. \<not> makes_key key call" "sg_key row = key"
  shows "idle (run_session frepr b calls c) \<and> only_newer key row (catalog_settings (committed (run_session frepr b calls c)))"
  using assms
proof (induction calls arbitrary: c)
  case (Cons call calls)
  then show ?case using idle_call only_newer_call by (simp add: run_session_def)
qed (simp add: run_session_def)

lemma unique_setting:
  assumes "db_ok d" "r \<in> set (catalog_settings d)"
  shows "setting_row_of (sg_key r) d = Some r"
proof -
  have "distinct (map sg_key (catalog_settings d))" using assms(1) by (simp add: db_ok_def settings_ok_def unique_on_def)
  then have "x = r" if "x \<in> set (catalog_settings d)" "sg_key x = sg_key r" for x
    using assms(2) that by (auto simp: distinct_map inj_on_def)
  moreover have "filter (\<lambda>x. sg_key x = sg_key r) (catalog_settings d) \<noteq> []" using assms(2) by (auto simp: filter_empty_conv)
  moreover obtain x xs where x: "filter (\<lambda>x. sg_key x = sg_key r) (catalog_settings d) = x # xs"
    using calculation(2) by (cases "filter (\<lambda>x. sg_key x = sg_key r) (catalog_settings d)") auto
  moreover have "x \<in> set (filter (\<lambda>x. sg_key x = sg_key r) (catalog_settings d))" by (simp only: x list.set_intros(1))
  then have "x \<in> set (catalog_settings d)" "sg_key x = sg_key r" by simp_all
  ultimately show ?thesis by (simp add: setting_row_of_def fetchone_def)
qed

lemma setting_row_Some: "setting_row_of key d = Some r \<Longrightarrow> r \<in> set (catalog_settings d) \<and> sg_key r = key"
  by (auto simp: setting_row_of_def dest!: fetchone_Some)

text \<open>
  C31: No update of a setting is lost. A client reads a setting; then other clients create, update,
  rename and delete settings in any order, without putting another row under the same key. If the row
  is no longer exactly the one that was read, an update and a deletion based on the revision that was
  read are refused and change nothing.
\<close>

theorem settings_no_lost_update:
  assumes "idle c" "setting_row_of key (committed c) = Some row" "\<forall>call\<in>set calls. \<not> makes_key key call"
    "setting_row_of key (committed (run_session frepr b calls c)) \<noteq> Some row"
  shows "(\<exists>e. update_setting frepr b clock key v (sg_revision row) new_key (run_session frepr b calls c) = (Inl e, run_session frepr b calls c))
    \<and> (\<exists>e. delete_setting b key (sg_revision row) (run_session frepr b calls c) = (Inl e, run_session frepr b calls c))"
proof -
  note row = setting_row_Some[OF assms(2)]
  have "only_newer key row (catalog_settings (committed c))"
    using unique_setting[OF idle_db_ok[OF assms(1)]] assms(2) by (fastforce simp: only_newer_def)
  from session_newer[OF assms(1) this assms(3)] row
  have s: "idle (run_session frepr b calls c)" "only_newer key row (catalog_settings (committed (run_session frepr b calls c)))"
    by simp_all
  have "\<not> at_revision key (sg_revision row) r" if "r \<in> set (catalog_settings (committed (run_session frepr b calls c)))" for r
    using s(2) that unique_setting[OF idle_db_ok[OF s(1)] that] assms(4) by (auto simp: only_newer_def at_revision_def)
  then show ?thesis using stale_update[OF s(1)] stale_delete[OF s(1)] by (simp add: refuses_def)
qed

section \<open>What an update does\<close>

lemma update_rows_map: "update_rows P f rows = map (\<lambda>r. if P r then f r else r) rows"
  by (simp add: update_rows_def)

lemma count_at_revision:
  assumes "db_ok d"
  shows "count_rows (at_revision key revision) (catalog_settings d) =
    (if \<exists>r\<in>set (catalog_settings d). at_revision key revision r then 1 else 0)"
proof -
  have "distinct (map sg_key (catalog_settings d))" using assms by (simp add: db_ok_def settings_ok_def unique_on_def)
  then have "length (filter (at_revision key revision) rows) = (if \<exists>r\<in>set rows. at_revision key revision r then 1 else 0)"
    if "distinct (map sg_key rows)" for rows
    using that by (induction rows) (auto simp: at_revision_def filter_empty_conv rev_image_eqI)
  then show ?thesis using assms by (simp add: count_rows_def db_ok_def settings_ok_def unique_on_def)
qed

lemma db_ok_settings: "db_ok (set_settings rows d) \<longleftrightarrow> db_ok d \<and> unique_on sg_key rows \<and> list_all setting_check rows" if "db_ok d"
  using that by (simp add: db_ok_def table_ok_defs set_settings_def)

lemma distinct_revised:
  assumes "distinct (map sg_key rows)" "n = key \<or> n \<notin> set (map sg_key rows)"
  shows "distinct (map sg_key (update_rows (at_revision key revision) (revised n serialized now) rows))"
proof -
  let ?f = "\<lambda>r. if at_revision key revision r then revised n serialized now r else r"
  have "inj_on (sg_key \<circ> ?f) (set rows)"
  proof (intro inj_onI)
    fix x y
    assume x: "x \<in> set rows" and y: "y \<in> set rows" and eq: "(sg_key \<circ> ?f) x = (sg_key \<circ> ?f) y"
    have k: "sg_key (revised n serialized now z) = n" for z by (simp add: revised_def)
    have "sg_key x = sg_key y"
      using eq assms(2) x y by (auto simp: k at_revision_def split: if_splits)
    then show "x = y" using assms(1) x y by (simp add: distinct_map inj_on_def)
  qed
  then show ?thesis using assms(1) by (simp add: update_rows_def distinct_map)
qed

lemma clash_revised:
  assumes "r \<in> set rows" "at_revision key revision r" "n \<noteq> key" "n \<in> set (map sg_key rows)"
  shows "\<not> distinct (map sg_key (update_rows (at_revision key revision) (revised n serialized now) rows))"
proof -
  obtain x where x: "x \<in> set rows" "sg_key x = n" using assms(4) by auto
  then have "\<not> at_revision key revision x" using assms(3) by (auto simp: at_revision_def)
  moreover have "x \<noteq> r" using x(2) assms(2,3) by (auto simp: at_revision_def)
  ultimately show ?thesis using x assms(1,2)
    by (auto simp: update_rows_def revised_def distinct_conv_nth in_set_conv_nth)
qed

text \<open>
  What an update does, completely. For a valid key, revision and value it is refused when no row
  has this key at this revision, refused when the new key belongs to another row, and otherwise it
  commits exactly one change: this row gets the new key, the new text, the next revision and the time
  of the update. The returned setting is the one stored, with the value that was given.
\<close>

lemma update_setting_run:
  assumes "idle c" "valid_datetime clock" "validate_key b key = Inr key" "validate_key b n = Inr n" "1 \<le> revision"
    "canonical_value frepr b n v = Inr serialized" "loads_with True serialized = Some stored"
    "\<forall>r\<in>set (catalog_settings (committed c)). setting_of r \<in> range Inr"
  shows "update_setting frepr b clock key v revision (Some n) c =
    (case find (\<lambda>r. sg_key r = key \<and> sg_revision r = revision) (catalog_settings (committed c)) of
       None \<Rightarrow> (Inl (BackupCatalogError ''setting changed; reload and retry''), c)
     | Some row \<Rightarrow>
         if n \<noteq> key \<and> n \<in> set (map sg_key (catalog_settings (committed c)))
         then (Inl (BackupCatalogError ''catalogue setting key conflicts with an existing row''), c)
         else (Inr ((projr (setting_of row))\<lparr>cs_key := n, cs_value := stored, cs_revision := revision + 1,
                 cs_updated_at := clock\<lparr>tz := Some 0\<rparr>\<rparr>),
               publish c ((committed c)\<lparr>catalog_settings := map (\<lambda>r. if r = row then row\<lparr>sg_key := n, sg_value_json := serialized,
                 sg_revision := revision + 1, sg_updated_at := isoformat clock\<rparr> else r) (catalog_settings (committed c))\<rparr>)))"
proof -
  let ?rows = "catalog_settings (committed c)"
  let ?new = "set_settings (update_rows (at_revision key revision) (revised n serialized (isoformat clock)) ?rows) (committed c)"
  note ok = idle_db_ok[OF assms(1)]
  have dist: "distinct (map sg_key ?rows)" "list_all setting_check ?rows" using ok by (simp_all add: db_ok_def settings_ok_def unique_on_def)
  note run = change_one_run[OF assms(1) update_statement_run[of n serialized "isoformat clock" key revision]]
  have u: "update_setting frepr b clock key v revision (Some n) c = aseq
      (sqlite_raised (\<lambda>s. case s of IntegrityError \<Rightarrow> ''catalogue setting key conflicts with an existing row'' | _ \<Rightarrow> ''catalogue setting could not be updated'')
        (change_one (update_statement n serialized (isoformat clock) key revision)))
      (required_setting ''catalogue setting disappeared after update'' n) c"
    using assms(3-6) by (simp add: update_setting_def abind_def aseq_def lift_result_def guard_def ret_def)
  have "at_revision key revision = (\<lambda>r. sg_key r = key \<and> sg_revision r = revision)" by (simp add: at_revision_def[abs_def])
  note P = this[symmetric]
  show ?thesis
  proof (cases "find (at_revision key revision) ?rows")
    case None
    then have "\<forall>r\<in>set ?rows. \<not> at_revision key revision r" by (simp add: find_None_iff)
    from change_one_stale[OF assms(1) this] show ?thesis unfolding P u using None by (simp add: aseq_def abind_def sqlite_raised_def setting_changed_def)
  next
    case (Some row)
    then have row: "row \<in> set ?rows" "at_revision key revision row" by (auto simp: find_Some_iff)
    have only: "at_revision key revision r \<longleftrightarrow> r = row" if "r \<in> set ?rows" for r
      using row that dist(1) by (auto simp: at_revision_def distinct_map inj_on_def)
    show ?thesis
    proof (cases "n \<noteq> key \<and> n \<in> set (map sg_key ?rows)")
      case True
      then have "\<not> db_ok ?new" using clash_revised[OF row] ok by (simp add: db_ok_settings unique_on_def)
      then have "change_one (update_statement n serialized (isoformat clock) key revision) c = (Inl (SqliteError IntegrityError), c)"
        using run by simp
      then show ?thesis unfolding P u using Some True by (simp add: aseq_def abind_def sqlite_raised_def)
    next
      case False
      let ?row = "row\<lparr>sg_key := n, sg_value_json := serialized, sg_revision := revision + 1, sg_updated_at := isoformat clock\<rparr>"
      have rows: "update_rows (at_revision key revision) (revised n serialized (isoformat clock)) ?rows = map (\<lambda>r. if r = row then ?row else r) ?rows"
        using only row(2) by (auto simp: update_rows_def revised_def at_revision_def)
      have "setting_check row" using row(1) dist(2) by (simp add: list_all_iff)
      then have "setting_check ?row"
        using validate_key_Inr(2)[OF assms(4)] strict_valid[OF assms(7)] assms(5) by (simp add: setting_check_def)
      then have "list_all setting_check (update_rows (at_revision key revision) (revised n serialized (isoformat clock)) ?rows)"
        unfolding rows using dist(2) by (auto simp: list_all_iff)
      then have good: "db_ok ?new"
        using distinct_revised[OF dist(1), of n key] False ok by (simp add: db_ok_settings unique_on_def)
      then have "change_one (update_statement n serialized (isoformat clock) key revision) c = (Inr (), publish c ?new)"
        using run ok row by (auto simp: count_at_revision)
      moreover have "required_setting lost n (publish c ?new) =
          (Inr ((projr (setting_of row))\<lparr>cs_key := n, cs_value := stored, cs_revision := revision + 1, cs_updated_at := clock\<lparr>tz := Some 0\<rparr>\<rparr>), publish c ?new)" for lost
      proof -
        have "?row \<in> set (catalog_settings ?new)" using row(1) rows by (force simp: set_settings_def)
        from unique_setting[OF good this] have "setting_row_of n ?new = Some ?row" by simp
        moreover obtain s where s: "setting_of row = Inr s" using assms(8) row(1) by blast
        then have "setting_of ?row = Inr (s\<lparr>cs_key := n, cs_value := stored, cs_revision := revision + 1, cs_updated_at := clock\<lparr>tz := Some 0\<rparr>\<rparr>)"
          using setting_time_iso[OF assms(2)] assms(7) by (auto simp: setting_of_def decode_value_def)
        ultimately show ?thesis using s
          by (simp add: required_setting_def get_setting_def abind_def query_db_def reads_def lift_result_def ret_def)
      qed
      ultimately show ?thesis unfolding P u using Some False rows
        by (simp add: aseq_def abind_def sqlite_raised_def set_settings_def)
    qed
  qed
qed

section \<open>A concrete session\<close>

definition theme_clock :: py_datetime where
  "theme_clock = \<lparr>year = 2024, month = 6, day = 1, hour = 12, minute = 0, sec = 0, microsecond = 0, tz = Some 0\<rparr>"

definition theme_row :: setting_row where
  "theme_row = \<lparr>sg_key = ''theme'', sg_value_json = raw_string ''dark'', sg_revision = 3,
     sg_created_at = isoformat theme_clock, sg_updated_at = isoformat theme_clock\<rparr>"

definition theme_catalog :: conn where
  "theme_catalog = open_catalog (set_settings [theme_row] empty_db)"

lemma theme_facts:
  "valid_datetime theme_clock" "validate_key (\<lambda>_. False) ''theme'' = Inr ''theme''"
  "canonical_value (\<lambda>_. []) (\<lambda>_. False) ''theme'' (JStr ''light'') = Inr (raw_string ''light'')"
  by code_simp+

lemma theme_loads: "loads_with True (raw_string t) = Some (JStr t)"
  using loads_raw[of "JStr t" True "\<lambda>_. []"] by simp

lemma theme_setting: "setting_of theme_row = Inr \<lparr>cs_key = ''theme'', cs_value = JStr ''dark'', cs_revision = 3,
    cs_created_at = theme_clock, cs_updated_at = theme_clock\<rparr>"
  using setting_time_iso[OF theme_facts(1)] by (simp add: setting_of_def theme_row_def decode_value_def theme_loads) (simp add: theme_clock_def)

lemma theme_idle: "idle theme_catalog" "committed theme_catalog = set_settings [theme_row] empty_db"
proof -
  have "setting_check theme_row"
    using strict_valid[OF theme_loads[of "''dark''"]] validate_key_Inr(2)[OF theme_facts(2)] by (simp add: setting_check_def theme_row_def)
  then have "db_ok (set_settings [theme_row] empty_db)" by (simp add: db_ok_settings[OF empty_db_ok] empty_db_ok unique_on_def)
  then show "idle theme_catalog" by (simp add: theme_catalog_def idle_open)
  show "committed theme_catalog = set_settings [theme_row] empty_db" by (simp add: theme_catalog_def open_catalog_def)
qed

lemma theme_rows: "catalog_settings (committed theme_catalog) = [theme_row]"
  by (simp add: theme_idle(2) set_settings_def)

lemma theme_updated:
  "update_setting (\<lambda>_. []) (\<lambda>_. False) theme_clock ''theme'' (JStr ''light'') 3 (Some ''theme'') theme_catalog =
     (Inr \<lparr>cs_key = ''theme'', cs_value = JStr ''light'', cs_revision = 4, cs_created_at = theme_clock, cs_updated_at = theme_clock\<rparr>,
      publish theme_catalog (set_settings [theme_row\<lparr>sg_value_json := raw_string ''light'', sg_revision := 4\<rparr>] empty_db))"
proof -
  have "find (\<lambda>r. sg_key r = ''theme'' \<and> sg_revision r = 3) [theme_row] = Some theme_row" by (simp add: theme_row_def)
  moreover have "theme_clock\<lparr>tz := Some 0\<rparr> = theme_clock" by (simp add: theme_clock_def)
  moreover have "theme_row\<lparr>sg_key := ''theme'', sg_value_json := raw_string ''light'', sg_revision := 4, sg_updated_at := isoformat theme_clock\<rparr> =
      theme_row\<lparr>sg_value_json := raw_string ''light'', sg_revision := 4\<rparr>" by (simp add: theme_row_def)
  moreover have "\<forall>r\<in>set (catalog_settings (committed theme_catalog)). setting_of r \<in> range Inr" by (simp add: theme_rows theme_setting)
  ultimately show ?thesis
    using update_setting_run[OF theme_idle(1) theme_facts(1,2,2) _ theme_facts(3) theme_loads]
    by (simp add: theme_rows theme_setting) (simp add: theme_idle(2) set_settings_def)
qed

lemma theme_session:
  "run_session (\<lambda>_. []) (\<lambda>_. False) [Update_setting theme_clock ''theme'' (JStr ''light'') 3 (Some ''theme'')] theme_catalog =
     publish theme_catalog (set_settings [theme_row\<lparr>sg_value_json := raw_string ''light'', sg_revision := 4\<rparr>] empty_db)"
  using theme_updated by (simp add: run_session_def)

theorem settings_no_lost_update_witness:
  "\<exists>e. delete_setting (\<lambda>_. False) ''theme'' 3 (run_session (\<lambda>_. []) (\<lambda>_. False)
       [Update_setting theme_clock ''theme'' (JStr ''light'') 3 (Some ''theme'')] theme_catalog) =
     (Inl e, publish theme_catalog (set_settings [theme_row\<lparr>sg_value_json := raw_string ''light'', sg_revision := 4\<rparr>] empty_db))"
proof -
  let ?calls = "[Update_setting theme_clock ''theme'' (JStr ''light'') 3 (Some ''theme'')]"
  let ?d = "set_settings [theme_row\<lparr>sg_value_json := raw_string ''light'', sg_revision := 4\<rparr>] empty_db"
  have "setting_row_of ''theme'' (committed theme_catalog) = Some theme_row"
    "setting_row_of ''theme'' ?d \<noteq> Some theme_row"
    by (simp_all add: theme_idle(2) setting_row_of_def set_settings_def theme_row_def fetchone_def)
  then show ?thesis
    using settings_no_lost_update[OF theme_idle(1), of "''theme''" theme_row ?calls "\<lambda>_. []" "\<lambda>_. False"]
    by (simp add: theme_session theme_row_def)
qed

text \<open>
  A deletion followed by a creation starts again at revision 1: a client that read the deleted row at
  revision 1 overwrites the new one, which it has never seen.
\<close>

lemma recreated_setting_overwritten:
  assumes "idle c" "valid_datetime clock" "validate_key b key = Inr key" "canonical_value frepr b key v = Inr serialized"
    "loads_with True serialized = Some stored" "setting_row_of key (committed c) = Some row"
    "row = new_setting key other (isoformat clock')" "\<forall>r\<in>set (catalog_settings (committed c)). setting_of r \<in> range Inr"
  shows "\<exists>s c'. update_setting frepr b clock key v 1 (Some key) c = (Inr s, c') \<and> cs_value s = stored"
proof -
  note r = setting_row_Some[OF assms(6)]
  have "sg_revision row = 1" using assms(7) by (simp add: new_setting_def)
  with r obtain x where "find (\<lambda>r. sg_key r = key \<and> sg_revision r = 1) (catalog_settings (committed c)) = Some x"
    by (cases "find (\<lambda>r. sg_key r = key \<and> sg_revision r = 1) (catalog_settings (committed c))") (auto simp: find_None_iff)
  then show ?thesis using update_setting_run[OF assms(1-3,3) _ assms(4,5,8)] by simp
qed

end
