(* ===== verification/Settings_Admin.thy ===== *)
theory Settings_Admin
  imports Catalog_Settings Cursors
begin

text \<open>
  The settings page of the admin panel (\<^verbatim>\<open>http/admin_settings.py\<close>) over the catalogue's settings: the route
  identifier that carries a key and the revision that was shown, the form checks, and the actions.

  A submitted form is a dictionary of \<^typ>\<open>json\<close> values. Every request opens the catalogue anew, so the
  connection is idle when an action starts. \<^verbatim>\<open>str.casefold\<close> is the argument \<open>casefold\<close>.
\<close>

section \<open>Route identifiers\<close>

text \<open>\<^verbatim>\<open>str.encode()\<close>: UTF-8.\<close>

definition utf8_encode :: "string \<Rightarrow> string" where
  "utf8_encode s = concat (map (\<lambda>c. if code c < 128 then [c]
     else [char_of (192 + code c div 64), char_of (128 + code c mod 64)]) s)"

definition route_id :: "string \<Rightarrow> int \<Rightarrow> string" where
  "route_id key revision = strip_padding (urlsafe_b64encode (utf8_encode (dumps_raw (\<lambda>_. []) (JList [JStr key, JInt revision]))))"

datatype admin_error =
    Form_error "(string \<times> string) list"
  | Http_conflict
  | Action_failed
  | Escaped catalog_error

type_synonym form = "(string \<times> json) list"

definition route_identity :: "string \<Rightarrow> (admin_error, string \<times> int) result" where
  "route_identity pk = (case cursor_payload pk of
     Some (JList [JStr key, JInt revision]) \<Rightarrow> if revision < 1
       then Inl (Form_error [(''revision'', ''Setting route is invalid; reload and retry.'')]) else Inr (key, revision)
   | _ \<Rightarrow> Inl (Form_error [(''revision'', ''Setting route is invalid; reload and retry.'')]))"

section \<open>Forms\<close>

text \<open>\<^verbatim>\<open>_json_form\<close>: \<open>None\<close> is its \<^verbatim>\<open>ValueError\<close>.\<close>

definition json_form :: "json option \<Rightarrow> json option" where
  "json_form value = (case value of Some (JStr t) \<Rightarrow> if utf8_length t > 64 * 1024 then None else loads_with True t | _ \<Rightarrow> None)"

definition key_errors :: "(string \<Rightarrow> bool) \<Rightarrow> json option \<Rightarrow> (string \<times> string) list" where
  "key_errors b key = (case key of
     Some (JStr k) \<Rightarrow> if blank k \<or> utf8_length k > 512 then [(''key'', ''Enter a non-empty key within 512 bytes.'')]
       else (case validate_key b k of Inl _ \<Rightarrow> [(''key'', ''This key is invalid or classified as secret-bearing.'')] | Inr _ \<Rightarrow> [])
   | _ \<Rightarrow> [(''key'', ''Enter a non-empty key within 512 bytes.'')])"

definition value_errors :: "(rat \<Rightarrow> string) \<Rightarrow> (string \<Rightarrow> bool) \<Rightarrow> json option \<Rightarrow> json option \<Rightarrow> (string \<times> string) list" where
  "value_errors frepr b key value = (case json_form value of
     None \<Rightarrow> [(''value_json'', ''Enter valid canonical JSON for this setting.'')]
   | Some v \<Rightarrow> (case key of
       Some (JStr k) \<Rightarrow> if key_errors b key = [] then
           (case canonical_value frepr b k v of Inl _ \<Rightarrow> [(''value_json'', ''Enter valid canonical JSON for this setting.'')] | Inr _ \<Rightarrow> [])
         else []
     | _ \<Rightarrow> []))"

definition validate_form :: "(rat \<Rightarrow> string) \<Rightarrow> (string \<Rightarrow> bool) \<Rightarrow> form \<Rightarrow> (admin_error, unit) result" where
  "validate_form frepr b data =
     (let errors = key_errors b (map_of data ''key'') @ value_errors frepr b (map_of data ''key'') (map_of data ''value_json'')
      in if errors \<noteq> [] then Inl (Form_error errors) else Inr ())"

section \<open>Actions\<close>

type_synonym 'a admin = "(conn, admin_error, 'a) act"

definition on_errors :: "(catalog_error \<Rightarrow> admin_error) \<Rightarrow> 'a cat \<Rightarrow> 'a admin" where
  "on_errors f m c = (case m c of (Inl e, c') \<Rightarrow> (Inl (f e), c') | (Inr x, c') \<Rightarrow> (Inr x, c'))"

definition is_catalog_error :: "catalog_error \<Rightarrow> bool" where
  "is_catalog_error e \<longleftrightarrow> (case e of BackupCatalogError _ \<Rightarrow> True | _ \<Rightarrow> False)"

text \<open>\<^verbatim>\<open>sub in s\<close>.\<close>

definition contains_text :: "string \<Rightarrow> string \<Rightarrow> bool" where
  "contains_text sub s \<longleftrightarrow> list_ex (\<lambda>k. startswith (drop k s) sub) [0..<Suc (length s)]"

text \<open>The actions run only on validated forms, whose key is a text and whose value parses.\<close>

definition form_key :: "form \<Rightarrow> string" where
  "form_key data = (case map_of data ''key'' of Some (JStr k) \<Rightarrow> k | _ \<Rightarrow> [])"

definition form_value :: "form \<Rightarrow> json" where
  "form_value data = (case json_form (map_of data ''value_json'') of Some v \<Rightarrow> v | None \<Rightarrow> JNull)"

definition create_action :: "(rat \<Rightarrow> string) \<Rightarrow> (string \<Rightarrow> bool) \<Rightarrow> py_datetime \<Rightarrow> form \<Rightarrow> catalog_setting admin" where
  "create_action frepr b clock data = aseq (lift_result (validate_form frepr b data))
     (on_errors (\<lambda>e. if is_catalog_error e
          then Form_error [(''key'', ''A setting with this key already exists or could not be saved.'')] else Escaped e)
        (create_setting frepr b clock (form_key data) (form_value data)))"

definition edit_error :: "catalog_error \<Rightarrow> admin_error" where
  "edit_error e = (case e of
     BackupCatalogError m \<Rightarrow> if contains_text ''changed; reload and retry'' m then Http_conflict
       else if contains_text ''key conflicts'' m then Form_error [(''key'', ''A setting with this key already exists.'')]
       else Form_error [(''key'', ''Setting key is invalid or could not be saved.'')]
   | _ \<Rightarrow> Escaped e)"

definition edit_action :: "(rat \<Rightarrow> string) \<Rightarrow> (string \<Rightarrow> bool) \<Rightarrow> py_datetime \<Rightarrow> string \<Rightarrow> form \<Rightarrow> catalog_setting admin" where
  "edit_action frepr b clock pk data = abind (lift_result (route_identity pk)) (\<lambda>(old_key, revision).
     aseq (lift_result (validate_form frepr b data))
       (on_errors edit_error
         (update_setting frepr b clock old_key (form_value data) revision (Some (form_key data)))))"

fun delete_each :: "(string \<Rightarrow> bool) \<Rightarrow> string list \<Rightarrow> unit admin" where
  "delete_each b [] = ret ()"
| "delete_each b (pk # pks) = abind (lift_result (route_identity pk)) (\<lambda>(key, revision).
     aseq (on_errors (\<lambda>e. if is_catalog_error e then Action_failed else Escaped e) (delete_setting b key revision))
       (delete_each b pks))"

definition delete_action :: "(string \<Rightarrow> bool) \<Rightarrow> string list \<Rightarrow> nat admin" where
  "delete_action b pks = aseq (delete_each b pks) (ret (length pks))"

definition find_by_pk :: "bool \<Rightarrow> string \<Rightarrow> catalog_setting option admin" where
  "find_by_pk is_edit_post pk = abind (lift_result (route_identity pk)) (\<lambda>(key, revision).
     abind (on_errors Escaped (get_setting key)) (\<lambda>setting. case setting of
       None \<Rightarrow> ret None
     | Some s \<Rightarrow> ret (if cs_revision s = revision \<or> is_edit_post then Some s else None)))"

fun find_by_pks :: "bool \<Rightarrow> string list \<Rightarrow> catalog_setting list admin" where
  "find_by_pks is_edit_post [] = ret []"
| "find_by_pks is_edit_post (pk # pks) = abind (find_by_pk is_edit_post pk) (\<lambda>found.
     abind (find_by_pks is_edit_post pks) (\<lambda>rows. ret (case found of None \<Rightarrow> rows | Some s \<Rightarrow> s # rows)))"

definition find_all :: "(string \<Rightarrow> string) \<Rightarrow> nat \<Rightarrow> int \<Rightarrow> string \<Rightarrow> catalog_setting list admin" where
  "find_all casefold skip limit q = abind (on_errors Escaped list_settings) (\<lambda>rows.
     let rows = (if q = [] then rows else filter (\<lambda>s. contains_text (casefold q) (casefold (cs_key s))) rows)
     in ret (take (nat (min (max limit 0) 1000)) (drop skip rows)))"

definition count_action :: "(string \<Rightarrow> string) \<Rightarrow> string \<Rightarrow> nat admin" where
  "count_action casefold q = abind (find_all casefold 0 1000 q) (\<lambda>rows. ret (length rows))"

section \<open>Links lead back\<close>

lemma utf8_roundtrip: "utf8_decode (utf8_encode s) = Some s"
proof (induction s)
  case (Cons c s)
  show ?case
  proof (cases "code c < 128")
    case False
    have c: "code c < 256" by (simp add: code_def)
    let ?h = "code c div 64" and ?l = "code c mod 64"
    have "?h < 4" using c by (intro less_mult_imp_div_less) simp
    moreover have "2 \<le> ?h" using div_le_mono[of 128 "code c" 64] False by simp
    ultimately have h: "?h \<in> {2, 3}" by auto
    have codes: "code (char_of (192 + ?h)) = 192 + ?h" "code (char_of (128 + ?l)) = 128 + ?l"
      using h by (auto simp: code_def)
    have "utf8_encode (c # s) = char_of (192 + ?h) # char_of (128 + ?l) # utf8_encode s"
      using False by (simp add: utf8_encode_def)
    moreover have "code (char_of (192 + ?h)) \<in> {194, 195}" "in_range 128 191 (char_of (128 + ?l))"
      using h codes by (auto simp: in_range_def)
    moreover have "char_of ((code (char_of (192 + ?h)) - 192) * 64 + (code (char_of (128 + ?l)) - 128)) = c"
      using codes by simp
    ultimately show ?thesis using Cons.IH codes h by auto
  qed (use Cons.IH in \<open>simp add: utf8_encode_def\<close>)
qed (simp add: utf8_encode_def)

lemma route_back:
  assumes "1 \<le> revision"
  shows "route_identity (route_id key revision) = Inr (key, revision)"
proof -
  let ?v = "JList [JStr key, JInt revision]"
  have "loads (dumps_raw (\<lambda>_. []) ?v) = Some ?v" using loads_raw[of ?v False "\<lambda>_. []"] by simp
  then have "cursor_payload (route_id key revision) = Some ?v"
    using a2b_encode encoded_ascii utf8_roundtrip
    by (simp add: cursor_payload_def route_id_def padding_roundtrip urlsafe_b64decode_def del: print_json.simps)
  then show ?thesis using assms by (simp add: route_identity_def)
qed

text \<open>
  C33: The link of a setting leads back to it: for every key and every revision a row can have, the
  route identifier the page shows is read back as exactly this key and revision, and an identifier
  that is accepted never names a revision below one.
\<close>

theorem setting_route_roundtrip:
  assumes "1 \<le> revision"
  shows "route_identity (route_id key revision) = Inr (key, revision)
    \<and> (route_identity pk = Inr (k, n) \<longrightarrow> 1 \<le> n)"
  using route_back[OF assms] by (auto simp: route_identity_def split: option.splits json.splits list.splits if_splits)

theorem setting_route_roundtrip_witness:
  "route_identity (route_id ''theme'' 3) = Inr (''theme'', 3)"
  using setting_route_roundtrip[of 3 "''theme''"] by simp

section \<open>Edits of what was shown\<close>

lemma validate_form_Inr:
  assumes "validate_form frepr b data = Inr ()"
  obtains serialized where "validate_key b (form_key data) = Inr (form_key data)"
    "canonical_value frepr b (form_key data) (form_value data) = Inr serialized"
proof -
  from assms have e: "key_errors b (map_of data ''key'') = []" "value_errors frepr b (map_of data ''key'') (map_of data ''value_json'') = []"
    by (simp_all add: validate_form_def Let_def split: if_splits)
  from e(1) obtain k where k: "map_of data ''key'' = Some (JStr k)" "validate_key b k \<in> range Inr"
    by (auto simp: key_errors_def split: option.splits json.splits if_splits sum.splits)
  then have v: "validate_key b k = Inr k" using validate_key_Inr(1) by fastforce
  from e(2) obtain v serialized where "json_form (map_of data ''value_json'') = Some v" "canonical_value frepr b k v = Inr serialized"
    using e(1) by (auto simp: value_errors_def k(1) split: option.splits sum.splits)
  with k v that show thesis by (simp add: form_key_def form_value_def)
qed

lemma conflict_message: "edit_error setting_changed = Http_conflict"
  by code_simp

text \<open>The edit of a row that is gone or has another revision.\<close>

lemma stale_edit:
  assumes "idle c" "1 \<le> revision" "validate_key b key = Inr key" "validate_form frepr b data = Inr ()"
    "\<forall>r\<in>set (catalog_settings (committed c)). \<not> at_revision key revision r"
  shows "edit_action frepr b clock (route_id key revision) data c = (Inl Http_conflict, c)"
proof -
  obtain serialized where f: "validate_key b (form_key data) = Inr (form_key data)"
    "canonical_value frepr b (form_key data) (form_value data) = Inr serialized"
    using validate_form_Inr[OF assms(4)] .
  have "update_setting frepr b clock key (form_value data) revision (Some (form_key data)) c = (Inl setting_changed, c)"
    using assms(2,3) f change_one_stale[OF assms(1,5)]
    by (simp add: update_setting_def abind_def aseq_def lift_result_def guard_def ret_def sqlite_raised_def setting_changed_def)
  then show ?thesis
    using route_back[OF assms(2), of key] assms(4)
    by (simp add: edit_action_def abind_def aseq_def lift_result_def on_errors_def conflict_message)
qed


definition theme_form :: form where
  "theme_form = [(''key'', JStr ''theme''), (''value_json'', JStr (raw_string ''blue''))]"

lemma theme_form_facts:
  "form_key theme_form = ''theme''" "form_value theme_form = JStr ''blue''"
  "validate_form (\<lambda>_. []) (\<lambda>_. False) theme_form = Inr ()"
proof -
  have b: "utf8_length (raw_string ''blue'') \<le> 64 * 1024" "canonical_value (\<lambda>_. []) (\<lambda>_. False) ''theme'' (JStr ''blue'') = Inr (raw_string ''blue'')"
    "blank ''theme'' = False" "utf8_length ''theme'' = 5"
    by code_simp+
  have j: "json_form (Some (JStr (raw_string ''blue''))) = Some (JStr ''blue'')" using b(1) by (simp add: json_form_def theme_loads)
  then show "form_key theme_form = ''theme''" "form_value theme_form = JStr ''blue''"
    by (simp_all add: form_key_def form_value_def theme_form_def)
  show "validate_form (\<lambda>_. []) (\<lambda>_. False) theme_form = Inr ()"
    using j b theme_facts(2) by (simp add: validate_form_def Let_def theme_form_def key_errors_def value_errors_def)
qed


end
