(* ===== verification/Spec2Isabelle.thy ===== *)
theory Spec2Isabelle
  imports Dotenv Ledger Module_Order Environment_Pages Stream_Redactor Step_Projection Project_Removal Backup_Prune Settings_Admin
begin

text \<open>
  A verification development of \<^verbatim>\<open>odoo-instance-sdk\<close>, the Python SDK and command line that creates,
  restores, backs up and removes Odoo environments. Paths below are relative to
  \<^verbatim>\<open>src/src/odoo_instance_sdk\<close>.

  \<^bold>\<open>The program.\<close> A command is first \<^emph>\<open>planned\<close>: it captures the external steps it will run, which are
  shown to the user in redacted form. Running the command hands a callback a ledger
  (\<^verbatim>\<open>internal/proc/__init__.py\<close>) through which every step is launched once. Child processes get a
  sanitized environment, partly read from the project's environment file
  (\<^verbatim>\<open>internal/process_env.py\<close>, \<^verbatim>\<open>internal/project_env.py\<close>), and their output is redacted while it
  streams (\<^verbatim>\<open>internal/proc/redaction.py\<close>). What was done is recorded in a SQLite catalogue
  (\<^verbatim>\<open>storage/catalog\<close>): projects, backups, restores, environments, runtimes and PostgreSQL clusters.
  Removing a project reads an inventory of its resources and decides for each what may be deleted
  (\<^verbatim>\<open>internal/project_removal.py\<close>).

  \<^bold>\<open>Foundations.\<close>
  \<^item> \<open>Prelude\<close>: calls that may raise (\<open>result\<close>), calls on mutable state that may raise (\<open>act\<close>, with the
    state at the raise kept), Python text operations and insertion-ordered dictionaries. The locale of
    step contracts lets an invariant be proved once per primitive and carried through a whole operation.
  \<^item> \<open>Py_Regex\<close>: backtracking regular expressions with Python's priorities, as the sources use \<^verbatim>\<open>re\<close>; the
    matcher is proved sound and complete for the language of the expression.
  \<^item> \<open>Py_Text\<close>: lines, separators and path parts as Python splits them, and what a match says about a text.
  \<^item> \<open>Py_Values\<close>: ISO date and time texts, UUID texts and decimal numbers, with their round trips.
  \<^item> \<open>Json\<close>, \<open>Cursors\<close>: \<^verbatim>\<open>json.dumps\<close>, \<^verbatim>\<open>json.loads\<close> and URL-safe base64, and the page cursors of
    \<^verbatim>\<open>storage/catalog/helpers.py\<close> and \<^verbatim>\<open>storage/catalog/read.py\<close> built on them.

  \<^bold>\<open>Running commands.\<close>
  \<^item> \<open>Ledger\<close>: \<^verbatim>\<open>RunContext\<close>, \<^verbatim>\<open>PreparedCommand.run\<close> and \<^verbatim>\<open>prepared_command\<close>. The callback is any program of
    ledger calls and the executor any function, so the safety and life-cycle theorems hold whatever
    they do.
  \<^item> \<open>Sanitize\<close>, \<open>Dotenv\<close>: \<^verbatim>\<open>internal/sanitize.py\<close>, \<^verbatim>\<open>internal/process_env.py\<close>, \<^verbatim>\<open>internal/project_env.py\<close>.
    The answers of the operating system (\<^verbatim>\<open>fstat\<close>, \<^verbatim>\<open>open\<close>) are arguments.
  \<^item> \<open>Redaction\<close>, \<open>Step_Projection\<close>, \<open>Secret_Automaton\<close>, \<open>Stream_Redactor\<close>: \<^verbatim>\<open>internal/proc/redaction.py\<close>. The
    Aho-Corasick matcher is proved to refine matching on words for every chunking of the stream; the
    stream redactor keeps bounded state; the public step does not depend on private inputs. Lemmas
    also state what is \<^emph>\<open>not\<close> hidden.
  \<^item> \<open>Module_Order\<close>: discovery and install order of \<^verbatim>\<open>resources/module.py\<close>.

  \<^bold>\<open>The catalogue.\<close>
  \<^item> \<open>Catalog_Schema\<close>: the tables of \<^verbatim>\<open>storage/catalog_schema.py\<close> as lists of records with their keys, CHECK
    constraints and foreign keys (\<open>db_ok\<close>), a connection with its open transaction, statements that fail
    when a constraint would break, and the contract every operation meets: it keeps \<open>db_ok\<close> of the
    committed and of the visible database.
  \<^item> \<open>Keyset\<close>: keyset pagination, proved once for an abstract page function and used by every listing.
  \<^item> \<open>Catalog_Backup\<close>, \<open>Catalog_Restore\<close>, \<open>Catalog_Environment\<close>, \<open>Catalog_Cluster\<close>: one definition per method of
    the mixins of the same names in \<^verbatim>\<open>storage/catalog\<close>. The theorems state what each operation commits,
    that it commits all of it or nothing, and what the reads say afterwards. \<open>Environment_Pages\<close> follows the
    cursors of the incomplete-operation listing from a client's side.
  \<^item> \<open>Applied_Settings\<close>: the settings document of a checkout, \<^verbatim>\<open>internal/applied_settings.py\<close>.
  \<^item> \<open>Catalog_Settings\<close>, \<open>Settings_Admin\<close>: the revisioned settings of \<^verbatim>\<open>storage/catalog/settings.py\<close> and the admin
    page of \<^verbatim>\<open>http/admin_settings.py\<close> over them: no update is lost, and an edit reaches only the row that
    was shown.
  \<^item> \<open>Urls\<close>: base URLs and repository keys, \<^verbatim>\<open>internal/urls.py\<close> and \<^verbatim>\<open>internal/repo_key.py\<close>.

  \<^bold>\<open>Removing backups.\<close>
  \<^item> \<open>Backup_Deletion\<close>: the deletion of one backup in \<^verbatim>\<open>resources/backup.py\<close>, over the catalogue and a store of
    files; every way it can end is stated, with what has been removed by then.
  \<^item> \<open>Backup_Prune\<close>: the retention policy of \<^verbatim>\<open>internal/backup_retention.py\<close>, the plan of what it lets go and the
    execution of a plan made at any earlier time, proved safe when it returns and when it raises, and
    complete when nothing interferes.

  \<^bold>\<open>Removing a project.\<close>
  \<^item> \<open>Removal_Owners\<close>: the ownership loop of \<^verbatim>\<open>_owner_projects\<close>, proved to end and to compute exactly the
    least set of owners closed under the safe dependencies.
  \<^item> \<open>Project_Removal\<close>: the classification of every resource, the order of the plan, its fingerprint and its
    public views; nothing owned by another project is ever deleted.

  \<^bold>\<open>Bounds and fuel.\<close> Loops that only consume their input recurse on it. The failure chain of the matcher
  is followed with the depth of the node as fuel and its queue with the number of nodes, and the
  correctness proofs show both suffice. \<open>loads\<close> takes the length of the text as fuel, which suffices for
  every printed document. The ownership loop uses \<^const>\<open>while_option\<close> and is proved to return. The stream
  redactor's limits of 128 characters are those of the source.

  \<^bold>\<open>Parameters.\<close> Hash functions, URL parsing, the file system, locks, the clock, the callback and the executor
  are arguments. Python sets are iterated in an arbitrary order given by an argument.

  \<^bold>\<open>Not modelled.\<close> Code that drives operating-system processes, Docker, PostgreSQL and Git, the rest
  of the HTTP service, the command line and its rendering, schema migrations, and self update: they are input and
  output around the parts above. Text is limited to code points below 256. Concurrent writers of the
  catalogue are not interleaved: SQLite serializes the transactions, and each operation here is one.
\<close>

end
